(* ===== verification/Prelude.thy ===== *)
theory Prelude
  imports Main "HOL-Library.Word" "HOL-Library.AList" "HOL-Library.Char_ord"
    "HOL-Library.List_Lexorder"
begin

text \<open>
  Shared vocabulary of the development: the Python values that every component uses
  (byte strings, text, dictionaries as association lists in insertion order), Python
  exceptions as values of a sum type, operations on a mutable object as functions from the
  object to a result and the object afterwards, and the generic list and text lemmas that
  the component theories rely on.
\<close>

section \<open>Types\<close>

text \<open>
  A \<open>bytes\<close> payload is a list of 8-bit words. The text files of the program
  (\<^verbatim>\<open>journal.jsonl\<close>, \<^verbatim>\<open>audit.jsonl\<close>, \<^verbatim>\<open>metadata.json\<close>, \<^verbatim>\<open>engine_state.json\<close>) and
  Python's \<open>str\<close> are Isabelle strings: one \<^typ>\<open>char\<close> per byte of a file, one per
  code point of a \<open>str\<close>. The code points above 255 are outside the model.
\<close>

type_synonym byte = "8 word"
type_synonym bytes = "byte list"

lemma unat_byte_less [simp]: "unat (b :: byte) < 256"
  using unsigned_less [of b, where 'a = nat] by simp

named_theorems text_simps \<open>rewriting of text, lines and dictionaries\<close>
named_theorems op_simps \<open>unfolding of the operation combinators\<close>

section \<open>Exceptions\<close>

text \<open>
  The exception classes the source raises or lets through, with the constant part of the
  message and, for a journal record, the line number or the sequence it names.
\<close>

datatype exc =
    ValueError string
  | RuntimeError string
  | PermissionError string
  | TypeError string
  | KeyError string
  | AttributeError string
  | IndexError
  | ZeroDivisionError
  | OverflowError string
  | FileExistsError string
  | JournalCorruptionError string int
  | ConnectionError string
  | OSError string
  | StructError

text \<open>
  A fallible pure function returns \<open>Inl\<close> of the exception or \<open>Inr\<close> of the value. A
  method of a mutable object maps the object to that result together with the object as the
  call leaves it: an exception does not undo the assignments made before it.
\<close>

type_synonym 'a res = "exc + 'a"
type_synonym ('s, 'a) oper = "'s \<Rightarrow> 'a res \<times> 's"

definition bind_res :: "'a res \<Rightarrow> ('a \<Rightarrow> 'b res) \<Rightarrow> 'b res" where
  "bind_res m f = (case m of Inl e \<Rightarrow> Inl e | Inr x \<Rightarrow> f x)"

definition bind_op :: "('s, 'a) oper \<Rightarrow> ('a \<Rightarrow> ('s, 'b) oper) \<Rightarrow> ('s, 'b) oper" where
  "bind_op m f = (\<lambda>s. case m s of (Inl e, s') \<Rightarrow> (Inl e, s') | (Inr x, s') \<Rightarrow> f x s')"

definition return_op :: "'a \<Rightarrow> ('s, 'a) oper" where
  "return_op x = (\<lambda>s. (Inr x, s))"

definition raise_op :: "exc \<Rightarrow> ('s, 'a) oper" where
  "raise_op e = (\<lambda>s. (Inl e, s))"

lemma bind_res_simps [simp, op_simps]:
  "bind_res (Inl e) f = Inl e"
  "bind_res (Inr x) f = f x"
  by (simp_all add: bind_res_def)

lemma bind_res_Inr_conv: "bind_res m f = Inr y \<longleftrightarrow> (\<exists>x. m = Inr x \<and> f x = Inr y)"
  by (cases m) auto

lemma bind_op_apply [op_simps]:
  "bind_op m f s = (case m s of (Inl e, s') \<Rightarrow> (Inl e, s') | (Inr x, s') \<Rightarrow> f x s')"
  by (simp add: bind_op_def)

lemma return_op_apply [simp, op_simps]: "return_op x s = (Inr x, s)"
  by (simp add: return_op_def)

lemma raise_op_apply [simp, op_simps]: "raise_op e s = (Inl e, s)"
  by (simp add: raise_op_def)

section \<open>Dictionaries\<close>

text \<open>
  A Python \<open>dict\<close> is an association list in insertion order with distinct keys:
  assignment is \<^const>\<open>AList.update\<close> (in place for a present key, at the end for a new
  one), \<open>pop\<close> is \<^const>\<open>AList.delete\<close>, \<open>get\<close> is \<^const>\<open>map_of\<close>.
\<close>

type_synonym 'v dict = "(string \<times> 'v) list"

abbreviation keys :: "('k \<times> 'v) list \<Rightarrow> 'k list" where
  "keys d \<equiv> map fst d"

lemma delete_notin [text_simps]: "k \<notin> set (keys d) \<Longrightarrow> AList.delete k d = d"
  by (force simp: AList.delete_eq filter_id_conv)

lemma delete_append: "AList.delete k (d @ d') = AList.delete k d @ AList.delete k d'"
  by (simp add: AList.delete_eq)

lemma delete_sort_key: "AList.delete k (sort_key fst d) = sort_key fst (AList.delete k d)"
  by (simp add: AList.delete_eq filter_sort)

lemma delete_sort_snoc:
  "k \<notin> set (keys d) \<Longrightarrow> AList.delete k (sort_key fst (d @ [(k, v)])) = sort_key fst d"
  by (simp only: delete_sort_key delete_append delete_notin) simp

lemma map_of_sort_key:
  assumes "distinct (keys d)"
  shows "map_of (sort_key fst d) = map_of d"
proof (rule map_of_inject_set [THEN iffD2])
  show "distinct (keys (sort_key fst d))"
    using assms by (simp add: distinct_map)
qed (use assms in auto)

lemma distinct_keys_sort: "distinct (keys (sort_key fst d)) = distinct (keys d)"
  by (simp add: distinct_map)

lemma update_fresh: "k \<notin> set (keys d) \<Longrightarrow> AList.update k v d = d @ [(k, v)]"
  by (induction d) auto

section \<open>Slices\<close>

text \<open>Python's \<open>xs[lo:hi]\<close>: negative bounds count from the end, bounds outside are clamped.\<close>

definition slice_bound :: "nat \<Rightarrow> int \<Rightarrow> nat" where
  "slice_bound n i = nat (if i < 0 then max 0 (int n + i) else min (int n) i)"

definition py_slice :: "'a list \<Rightarrow> int \<Rightarrow> int \<Rightarrow> 'a list" where
  "py_slice xs lo hi = (let l = slice_bound (length xs) lo; h = slice_bound (length xs) hi
                        in take (h - l) (drop l xs))"

lemma py_slice_in:
  assumes "0 \<le> lo" "0 \<le> n" "lo + n \<le> int (length xs)"
  shows "py_slice xs lo (lo + n) = take (nat n) (drop (nat lo) xs)"
proof -
  have "slice_bound (length xs) lo = nat lo" "slice_bound (length xs) (lo + n) = nat (lo + n)"
    using assms by (auto simp: slice_bound_def min_def)
  then show ?thesis
    using assms by (simp add: py_slice_def nat_add_distrib)
qed

section \<open>Text: lines and white space\<close>

text \<open>\<open>bytes.strip\<close> and \<open>str.strip\<close> on ASCII: space, tab, newline, return, vertical tab, form feed.\<close>

definition is_space :: "char \<Rightarrow> bool" where
  "is_space c \<longleftrightarrow> c \<in> {CHR '' '', CHR 0x09, CHR 0x0A, CHR 0x0B, CHR 0x0C, CHR 0x0D}"

definition strip :: "string \<Rightarrow> string" where
  "strip s = rev (dropWhile is_space (rev (dropWhile is_space s)))"

abbreviation nl :: char where
  "nl \<equiv> CHR 0x0A"

text \<open>\<open>readline()\<close>: the bytes up to and including the next newline, or up to the end of the file.\<close>

definition readline :: "string \<Rightarrow> string" where
  "readline s = takeWhile (\<lambda>c. c \<noteq> nl) s @ take 1 (dropWhile (\<lambda>c. c \<noteq> nl) s)"

text \<open>The lines that repeated \<open>readline()\<close> calls return until one returns nothing.\<close>

fun lines_of :: "string \<Rightarrow> string list" where
  "lines_of [] = []"
| "lines_of (c # s) =
     (if c = nl then [c] # lines_of s
      else (case lines_of s of [] \<Rightarrow> [[c]] | l # ls \<Rightarrow> (c # l) # ls))"

lemma lines_of_eq_Nil [simp]: "lines_of s = [] \<longleftrightarrow> s = []"
  by (cases s) (auto split: list.splits)

lemma concat_lines_of [simp]: "concat (lines_of s) = s"
  by (induction s) (auto split: list.splits)

lemma lines_of_line: "nl \<notin> set l \<Longrightarrow> lines_of (l @ nl # s) = (l @ [nl]) # lines_of s"
  by (induction l) auto

lemma lines_of_partial: "nl \<notin> set l \<Longrightarrow> l \<noteq> [] \<Longrightarrow> lines_of l = [l]"
proof (induction l)
  case (Cons c l)
  then show ?case by (cases "l = []") auto
qed simp

lemma lines_of_append:
  assumes "\<forall>l \<in> set ls. \<exists>l'. l = l' @ [nl] \<and> nl \<notin> set l'"
  shows "lines_of (concat ls @ s) = ls @ lines_of s"
  using assms by (induction ls) (auto simp: lines_of_line)

lemma lines_of_step: "s \<noteq> [] \<Longrightarrow> lines_of s = readline s # lines_of (drop (length (readline s)) s)"
proof (induction s)
  case (Cons c s)
  then show ?case by (cases "s = []") (auto simp: readline_def split: list.splits)
qed simp

lemma readline_line: "nl \<notin> set l \<Longrightarrow> readline (l @ nl # s) = l @ [nl]"
  by (induction l) (auto simp: readline_def)

lemma readline_partial: "nl \<notin> set l \<Longrightarrow> readline l = l"
  by (induction l) (auto simp: readline_def)

end
