(* ===== verification/Codecs.thy ===== *)
theory Codecs
  imports Prelude
begin

unbundle bit_operations_syntax

text \<open>
  The parts of Python's standard library that turn values into text and back, as the source
  uses them: \<open>str(int)\<close> and \<open>int(str)\<close> in decimal, \<open>bytes.hex\<close> and \<open>bytes.fromhex\<close>,
  \<open>base64.b64encode\<close> and \<open>base64.b64decode(validate=True)\<close>, \<open>zlib.crc32\<close> and
  \<open>hashlib.sha256\<close>. The two checksums are the real algorithms, executable on words; the
  properties of the other theories never depend on their values. Each codec comes with its
  round trip.
\<close>

section \<open>Decimal integers\<close>

definition digit_char :: "nat \<Rightarrow> char" where
  "digit_char d = char_of (48 + d)"

definition is_digit :: "char \<Rightarrow> bool" where
  "is_digit c \<longleftrightarrow> 48 \<le> (of_char c :: nat) \<and> (of_char c :: nat) \<le> 57"

definition digit_val :: "char \<Rightarrow> nat" where
  "digit_val c = of_char c - 48"

fun show_nat :: "nat \<Rightarrow> string" where
  "show_nat n = (if n < 10 then [digit_char n] else show_nat (n div 10) @ [digit_char (n mod 10)])"

declare show_nat.simps [simp del]

definition show_int :: "int \<Rightarrow> string" where
  "show_int i = (if i < 0 then CHR ''-'' # show_nat (nat (- i)) else show_nat (nat i))"

definition dec_val :: "string \<Rightarrow> nat" where
  "dec_val s = foldl (\<lambda>a c. 10 * a + digit_val c) 0 s"

lemma digit_char_props:
  assumes "d < 10"
  shows "is_digit (digit_char d)" "digit_val (digit_char d) = d"
  using assms by (simp_all add: digit_char_def is_digit_def digit_val_def)

lemma show_nat_digits: "list_all is_digit (show_nat n)"
proof (induction n rule: show_nat.induct)
  case (1 n)
  then show ?case
    by (subst show_nat.simps) (simp add: digit_char_props)
qed

lemma show_nat_nonempty [simp]: "show_nat n \<noteq> []"
  by (subst show_nat.simps) simp

lemma dec_val_snoc: "dec_val (s @ [c]) = 10 * dec_val s + digit_val c"
  by (simp add: dec_val_def)

lemma dec_val_show_nat [simp]: "dec_val (show_nat n) = n"
proof (induction n rule: show_nat.induct)
  case (1 n)
  show ?case
  proof (cases "n < 10")
    case True
    then show ?thesis
      by (simp add: show_nat.simps [of n] dec_val_def digit_char_props)
  next
    case False
    then show ?thesis
      using "1.IH" by (simp add: show_nat.simps [of n] dec_val_snoc digit_char_props)
  qed
qed

lemma digit_char_0 [simp]: "digit_char 0 = CHR ''0''"
  by code_simp

lemma digit_char_inject_zero: "d < 10 \<Longrightarrow> digit_char d = CHR ''0'' \<longleftrightarrow> d = 0"
proof
  assume "d < 10" "digit_char d = CHR ''0''"
  then have "digit_val (CHR ''0'') = d"
    using digit_char_props(2) [of d] by simp
  then show "d = 0" by (simp add: digit_val_def)
qed simp

lemma hd_show_nat: "n \<noteq> 0 \<Longrightarrow> hd (show_nat n) \<noteq> CHR ''0''"
proof (induction n rule: show_nat.induct)
  case (1 n)
  show ?case
  proof (cases "n < 10")
    case True
    then show ?thesis
      using 1 by (simp add: show_nat.simps [of n] digit_char_inject_zero)
  next
    case False
    then show ?thesis
      using "1.IH" by (simp add: show_nat.simps [of n])
  qed
qed

lemma show_nat_0: "show_nat 0 = ''0''"
  by (simp add: show_nat.simps)

section \<open>Hexadecimal\<close>

definition hex_char :: "nat \<Rightarrow> char" where
  "hex_char d = (if d < 10 then char_of (48 + d) else char_of (87 + d))"

definition hex_val :: "char \<Rightarrow> nat option" where
  "hex_val c =
     (let n = of_char c in
      if 48 \<le> n \<and> n \<le> 57 then Some (n - 48)
      else if 97 \<le> n \<and> n \<le> 102 then Some (n - 87)
      else if 65 \<le> n \<and> n \<le> 70 then Some (n - 55)
      else None)"

fun hex_of :: "bytes \<Rightarrow> string" where
  "hex_of [] = []"
| "hex_of (b # bs) = hex_char (unat b div 16) # hex_char (unat b mod 16) # hex_of bs"

fun fromhex :: "string \<Rightarrow> bytes option" where
  "fromhex [] = Some []"
| "fromhex (c # d # s) =
     (case (hex_val c, hex_val d, fromhex s) of
        (Some h, Some l, Some bs) \<Rightarrow> Some (of_nat (16 * h + l) # bs)
      | _ \<Rightarrow> None)"
| "fromhex _ = None"

lemma hex_val_char [simp]: "d < 16 \<Longrightarrow> hex_val (hex_char d) = Some d"
  by (auto simp: hex_val_def hex_char_def Let_def)

lemma fromhex_hex_of [simp]: "fromhex (hex_of bs) = Some bs"
proof (induction bs)
  case (Cons b bs)
  have "unat b div 16 < 16"
    using unat_byte_less [of b] by (simp add: div_less_iff_less_mult)
  then show ?case
    using Cons by simp
qed simp

lemma length_hex_of [simp]: "length (hex_of bs) = 2 * length bs"
  by (induction bs) auto

lemma hex_of_inject: "hex_of a = hex_of b \<longleftrightarrow> a = b"
  by (metis fromhex_hex_of option.inject)

section \<open>Base 64\<close>

definition b64_alphabet :: string where
  "b64_alphabet = ''ABCDEFGHIJKLMNOPQRSTUVWXYZabcdefghijklmnopqrstuvwxyz0123456789+/''"

definition b64_char :: "nat \<Rightarrow> char" where
  "b64_char d = b64_alphabet ! d"

fun index_in :: "char \<Rightarrow> string \<Rightarrow> nat option" where
  "index_in c [] = None"
| "index_in c (x # xs) = (if c = x then Some 0 else map_option Suc (index_in c xs))"

definition b64_val :: "char \<Rightarrow> nat option" where
  "b64_val c = index_in c b64_alphabet"

fun b64encode :: "bytes \<Rightarrow> string" where
  "b64encode [] = []"
| "b64encode [a] = [b64_char (unat a div 4), b64_char (unat a mod 4 * 16), CHR ''='', CHR ''='']"
| "b64encode [a, b] =
     [b64_char (unat a div 4), b64_char (unat a mod 4 * 16 + unat b div 16),
      b64_char (unat b mod 16 * 4), CHR ''='']"
| "b64encode (a # b # c # r) =
     b64_char (unat a div 4) # b64_char (unat a mod 4 * 16 + unat b div 16)
       # b64_char (unat b mod 16 * 4 + unat c div 64) # b64_char (unat c mod 64) # b64encode r"

text \<open>
  \<open>b64decode(s, validate=True)\<close>: only characters of the alphabet, padding only in the
  last group of four. The bits a padded group drops are not checked, as in CPython.
\<close>

fun b64decode :: "string \<Rightarrow> bytes option" where
  "b64decode [] = Some []"
| "b64decode (c0 # c1 # c2 # c3 # r) =
     (case (b64_val c0, b64_val c1) of
        (Some v0, Some v1) \<Rightarrow>
          (let x = of_nat (v0 * 4 + v1 div 16) in
           if c2 = CHR ''='' \<and> c3 = CHR ''='' \<and> r = [] then Some [x]
           else (case b64_val c2 of
               None \<Rightarrow> None
             | Some v2 \<Rightarrow>
                 (let y = of_nat (v1 mod 16 * 16 + v2 div 4) in
                  if c3 = CHR ''='' \<and> r = [] then Some [x, y]
                  else (case (b64_val c3, b64decode r) of
                      (Some v3, Some bs) \<Rightarrow> Some (x # y # of_nat (v2 mod 4 * 64 + v3) # bs)
                    | _ \<Rightarrow> None))))
      | _ \<Rightarrow> None)"
| "b64decode _ = None"

lemma index_in_nth: "distinct xs \<Longrightarrow> d < length xs \<Longrightarrow> index_in (xs ! d) xs = Some d"
  by (induction xs arbitrary: d) (auto simp: nth_Cons' less_Suc_eq_0_disj)

lemma length_b64_alphabet: "length b64_alphabet = 64"
  by (simp add: b64_alphabet_def)

lemma distinct_b64_alphabet: "distinct b64_alphabet"
  by (simp add: b64_alphabet_def)

lemma b64_val_char [simp]: "d < 64 \<Longrightarrow> b64_val (b64_char d) = Some d"
  by (simp add: b64_val_def b64_char_def index_in_nth length_b64_alphabet distinct_b64_alphabet)

lemma b64_char_in: "d < 64 \<Longrightarrow> b64_char d \<in> set b64_alphabet"
  by (simp add: b64_char_def length_b64_alphabet)

lemma b64_char_not_pad [simp]: "d < 64 \<Longrightarrow> b64_char d \<noteq> CHR ''=''"
  using b64_char_in [of d] by (auto simp: b64_alphabet_def)

text \<open>The arithmetic of one group: six-bit digits and the bytes they give back.\<close>

lemma sextet_bounds [simp]:
  "unat (a :: byte) div 4 < 64"
  "unat (a :: byte) mod 4 * 16 < 64"
  "unat (a :: byte) mod 4 * 16 + unat (b :: byte) div 16 < 64"
  "unat (b :: byte) mod 16 * 4 < 64"
  "unat (b :: byte) mod 16 * 4 + unat (c :: byte) div 64 < 64"
proof -
  have a: "unat a div 4 < 64" and b: "unat b div 16 < 16" and c: "unat c div 64 < 4"
    by (simp_all add: div_less_iff_less_mult)
  have "unat a mod 4 < 4" "unat b mod 16 < 16"
    by simp_all
  with a b c show "unat a div 4 < 64" "unat a mod 4 * 16 < 64" "unat a mod 4 * 16 + unat b div 16 < 64"
    "unat b mod 16 * 4 < 64" "unat b mod 16 * 4 + unat c div 64 < 64"
    by linarith+
qed

lemma regroup:
  fixes x y z :: nat
  assumes "y div 16 < 16" "z div 64 < 4"
  shows "x div 4 * 4 + (x mod 4 * 16 + y div 16) div 16 = x"
    "(x mod 4 * 16 + y div 16) mod 16 * 16 + (y mod 16 * 4 + z div 64) div 4 = y"
    "(y mod 16 * 4 + z div 64) mod 4 * 64 + z mod 64 = z"
    "x div 4 * 4 + (x mod 4 * 16) div 16 = x"
    "(x mod 4 * 16 + y div 16) mod 16 * 16 + (y mod 16 * 4) div 4 = y"
  using assms by simp_all

lemma b64decode_encode [simp]: "b64decode (b64encode bs) = Some bs"
proof (induction bs rule: b64encode.induct)
  case (2 a)
  then show ?case using regroup(4) [where x = "unat a"] by (simp add: Let_def)
next
  case (3 a b)
  have "unat b div 16 < 16" by (simp add: div_less_iff_less_mult)
  then show ?case
    using regroup(1,5) [of "unat b" 0 "unat a"] by (simp add: Let_def)
next
  case (4 a b c r)
  have "unat b div 16 < 16" "unat c div 64 < 4" by (simp_all add: div_less_iff_less_mult)
  then show ?case
    using "4.IH" regroup(1,2) [of "unat b" "unat c" "unat a"]
      regroup(3) [of "unat b" "unat c"] by (simp add: Let_def)
qed simp

lemma b64encode_chars: "set (b64encode bs) \<subseteq> insert (CHR ''='') (set b64_alphabet)"
  by (induction bs rule: b64encode.induct) (simp_all add: b64_char_in)

section \<open>CRC-32\<close>

definition crc_bit :: "32 word \<Rightarrow> 32 word" where
  "crc_bit c = (if bit c 0 then drop_bit 1 c XOR 0xEDB88320 else drop_bit 1 c)"

definition crc_byte :: "32 word \<Rightarrow> byte \<Rightarrow> 32 word" where
  "crc_byte c b = (crc_bit ^^ 8) (c XOR ucast b)"

definition crc32 :: "bytes \<Rightarrow> int" where
  "crc32 data = uint (NOT (foldl crc_byte 0xFFFFFFFF data))"

section \<open>SHA-256\<close>

text \<open>
  The constants are the first 32 bits of the fractional parts of the cube roots of the first 64
  primes, and of the square roots of the first eight: an integer root by search from the top bit.
\<close>

fun root_search :: "nat \<Rightarrow> nat \<Rightarrow> nat \<Rightarrow> nat \<Rightarrow> nat" where
  "root_search k x acc 0 = acc"
| "root_search k x acc (Suc b) = root_search k x (if (acc + 2 ^ b) ^ k \<le> x then acc + 2 ^ b else acc) b"

definition small_primes :: "nat list" where
  "small_primes = filter (\<lambda>p. list_all (\<lambda>d. p mod d \<noteq> 0) [2 ..< p]) [2 ..< 312]"

definition sha_k :: "32 word list" where
  "sha_k = map (\<lambda>p. word_of_nat (root_search 3 (p * 2 ^ 96) 0 36)) small_primes"

definition sha_init :: "32 word list" where
  "sha_init = map (\<lambda>p. word_of_nat (root_search 2 (p * 2 ^ 64) 0 36)) [2, 3, 5, 7, 11, 13, 17, 19]"

definition rotr :: "nat \<Rightarrow> 32 word \<Rightarrow> 32 word" where
  "rotr n x = drop_bit n x OR push_bit (32 - n) x"

definition sha_s0 :: "32 word \<Rightarrow> 32 word" where
  "sha_s0 x = rotr 7 x XOR rotr 18 x XOR drop_bit 3 x"

definition sha_s1 :: "32 word \<Rightarrow> 32 word" where
  "sha_s1 x = rotr 17 x XOR rotr 19 x XOR drop_bit 10 x"

text \<open>The message schedule: sixteen words of the block, then 48 computed ones.\<close>

fun sha_schedule :: "nat \<Rightarrow> 32 word list \<Rightarrow> 32 word list" where
  "sha_schedule 0 w = w"
| "sha_schedule (Suc n) w =
     (let t = length w in
      sha_schedule n (w @ [sha_s1 (w ! (t - 2)) + w ! (t - 7) + sha_s0 (w ! (t - 15)) + w ! (t - 16)]))"

type_synonym sha_state =
  "32 word \<times> 32 word \<times> 32 word \<times> 32 word \<times> 32 word \<times> 32 word \<times> 32 word \<times> 32 word"

fun sha_round :: "sha_state \<Rightarrow> 32 word \<times> 32 word \<Rightarrow> sha_state" where
  "sha_round (a, b, c, d, e, f, g, h) (k, w) =
     (let t1 = h + (rotr 6 e XOR rotr 11 e XOR rotr 25 e)
               + ((e AND f) XOR (NOT e AND g)) + k + w;
          t2 = (rotr 2 a XOR rotr 13 a XOR rotr 22 a)
               + ((a AND b) XOR (a AND c) XOR (b AND c))
      in (t1 + t2, a, b, c, d + t1, e, f, g))"

fun be_word :: "bytes \<Rightarrow> 32 word" where
  "be_word bs = foldl (\<lambda>acc b. push_bit 8 acc OR ucast b) 0 bs"

fun sha_words :: "bytes \<Rightarrow> 32 word list" where
  "sha_words (a # b # c # d # r) = be_word [a, b, c, d] # sha_words r"
| "sha_words _ = []"

definition sha_compress :: "32 word list \<Rightarrow> bytes \<Rightarrow> 32 word list" where
  "sha_compress hs block =
     (let w = sha_schedule 48 (sha_words block) in
      case hs of
        [a, b, c, d, e, f, g, h] \<Rightarrow>
          (case foldl sha_round (a, b, c, d, e, f, g, h) (zip sha_k w) of
             (a', b', c', d', e', f', g', h') \<Rightarrow>
               [a + a', b + b', c + c', d + d', e + e', f + f', g + g', h + h'])
      | _ \<Rightarrow> hs)"

definition be_bytes :: "nat \<Rightarrow> nat \<Rightarrow> bytes" where
  "be_bytes w n = map (\<lambda>i. of_nat (n div 256 ^ i mod 256)) (rev [0 ..< w])"

definition sha_pad :: "bytes \<Rightarrow> bytes" where
  "sha_pad m = m @ [0x80] @ replicate ((119 - length m mod 64) mod 64) 0 @ be_bytes 8 (8 * length m)"

function sha_blocks :: "32 word list \<Rightarrow> bytes \<Rightarrow> 32 word list" where
  "sha_blocks hs m =
     (if m = [] then hs else sha_blocks (sha_compress hs (take 64 m)) (drop 64 m))"
  by pat_completeness auto
termination
  by (relation "measure (\<lambda>(hs, m). length m)") auto

declare sha_blocks.simps [simp del]

definition sha256 :: "bytes \<Rightarrow> bytes" where
  "sha256 m = concat (map (\<lambda>h. be_bytes 4 (unat h)) (sha_blocks sha_init (sha_pad m)))"

text \<open>A digest is always 32 bytes, so its hexadecimal form has 64 characters.\<close>

lemma length_sha_compress: "length (sha_compress hs b) = length hs"
  by (auto simp: sha_compress_def Let_def split: list.splits prod.splits)

lemma length_sha_blocks: "length (sha_blocks hs m) = length hs"
proof (induction hs m rule: sha_blocks.induct)
  case (1 hs m)
  then show ?case by (subst sha_blocks.simps) (simp add: length_sha_compress)
qed

lemma length_be_bytes [simp]: "length (be_bytes w n) = w"
  by (simp add: be_bytes_def)

lemma length_sha256 [simp]: "length (sha256 m) = 32"
proof -
  have "length (concat (map (\<lambda>h. be_bytes 4 (unat h)) hs)) = 4 * length hs" for hs :: "32 word list"
    by (induction hs) auto
  then show ?thesis
    by (simp add: sha256_def length_sha_blocks sha_init_def)
qed

text \<open>\<open>text.encode()\<close> for ASCII text, and \<open>hashlib.sha256(text).hexdigest()\<close>.\<close>

definition text_bytes :: "string \<Rightarrow> bytes" where
  "text_bytes s = map (\<lambda>c. of_nat (of_char c)) s"

definition sha256_hex :: "string \<Rightarrow> string" where
  "sha256_hex s = hex_of (sha256 (text_bytes s))"

lemma length_sha256_hex [simp]: "length (sha256_hex s) = 64"
  by (simp add: sha256_hex_def)

lemma fromhex_sha256_hex [simp]: "fromhex (sha256_hex s) = Some (sha256 (text_bytes s))"
  by (simp add: sha256_hex_def)

lemma text_bytes_inject: "text_bytes a = text_bytes b \<longleftrightarrow> a = b"
proof -
  have "inj (\<lambda>c :: char. (of_nat (of_char c) :: byte))"
  proof (rule injI)
    fix c d :: char
    assume "(of_nat (of_char c) :: byte) = of_nat (of_char d)"
    then have "unat (of_nat (of_char c) :: byte) = unat (of_nat (of_char d) :: byte)"
      by simp
    then show "c = d"
      by (simp add: unsigned_of_nat take_bit_eq_mod)
  qed
  then show ?thesis
    by (simp add: text_bytes_def inj_map_eq_map)
qed

definition zero_hash :: string where
  "zero_hash = replicate 64 (CHR ''0'')"

end
