(* ===== verification/Json.thy ===== *)
theory Json
  imports Codecs
begin

text \<open>
  Python's \<open>json\<close> module as the program uses it: the values a JSON text denotes,
  \<open>json.dumps\<close> with \<open>sort_keys=True\<close> in its compact and in its indented form, and
  \<open>json.loads\<close>. Two facts carry the crash and integrity properties of the journal and
  of the audit log: loading what was dumped gives the value back, and no proper prefix of a
  dumped object loads.

  A float is represented by the literal that denotes it: the program only writes the literals
  that \<open>repr\<close> produces and reads them back unchanged. Text outside ASCII and code points
  above 255 are outside the model, as are the interpreter's limits on digits and nesting.
\<close>

section \<open>Values\<close>

datatype json =
    JNull
  | JBool bool
  | JInt int
  | JFloat string
  | JStr string
  | JArr "json list"
  | JObj "(string \<times> json) list"

text \<open>\<open>dict.get\<close> on a value, and the dictionary a value is, if it is one.\<close>

fun dict_of :: "json \<Rightarrow> json dict option" where
  "dict_of (JObj d) = Some d"
| "dict_of _ = None"

section \<open>Writing\<close>

definition esc_char :: "char \<Rightarrow> string" where
  "esc_char c =
     (let n = of_char c :: nat in
      if c = CHR 0x22 then [CHR 0x5C, CHR 0x22]
      else if c = CHR 0x5C then [CHR 0x5C, CHR 0x5C]
      else if c = CHR 0x0A then [CHR 0x5C, CHR ''n'']
      else if c = CHR 0x0D then [CHR 0x5C, CHR ''r'']
      else if c = CHR 0x09 then [CHR 0x5C, CHR ''t'']
      else if c = CHR 0x0C then [CHR 0x5C, CHR ''f'']
      else if c = CHR 0x08 then [CHR 0x5C, CHR ''b'']
      else if 32 \<le> n \<and> n \<le> 126 then [c]
      else [CHR 0x5C, CHR ''u'', CHR ''0'', CHR ''0'', hex_char (n div 16), hex_char (n mod 16)])"

definition dump_str :: "string \<Rightarrow> string" where
  "dump_str s = CHR 0x22 # concat (map esc_char s) @ [CHR 0x22]"

fun join :: "string \<Rightarrow> string list \<Rightarrow> string" where
  "join sep [] = []"
| "join sep [x] = x"
| "join sep (x # y # xs) = x @ sep @ join sep (y # xs)"

text \<open>
  \<open>brk\<close> is the line break and indentation that \<open>indent\<close> inserts between items; in the
  compact form there is none. \<open>colon\<close> is the key separator of the two forms.
\<close>

definition brk :: "nat option \<Rightarrow> nat \<Rightarrow> string" where
  "brk ind lvl = (case ind of None \<Rightarrow> [] | Some n \<Rightarrow> nl # replicate (n * lvl) (CHR '' ''))"

definition colon :: "nat option \<Rightarrow> string" where
  "colon ind = (case ind of None \<Rightarrow> '':'' | Some _ \<Rightarrow> '': '')"

fun render :: "nat option \<Rightarrow> nat \<Rightarrow> json \<Rightarrow> string" where
  "render ind lvl JNull = ''null''"
| "render ind lvl (JBool b) = (if b then ''true'' else ''false'')"
| "render ind lvl (JInt i) = show_int i"
| "render ind lvl (JFloat l) = l"
| "render ind lvl (JStr s) = dump_str s"
| "render ind lvl (JArr vs) =
     (if vs = [] then ''[]''
      else CHR ''['' # brk ind (Suc lvl)
        @ join (CHR '','' # brk ind (Suc lvl)) (map (render ind (Suc lvl)) vs)
        @ brk ind lvl @ [CHR '']''])"
| "render ind lvl (JObj kvs) =
     (if kvs = [] then ''{}''
      else CHR ''{'' # brk ind (Suc lvl)
        @ join (CHR '','' # brk ind (Suc lvl))
            (map (\<lambda>kv. dump_str (fst kv) @ colon ind @ render ind (Suc lvl) (snd kv)) kvs)
        @ brk ind lvl @ [CHR ''}''])"

text \<open>\<open>sort_keys=True\<close>: the items of every dictionary in the order of their keys.\<close>

fun sort_keys :: "json \<Rightarrow> json" where
  "sort_keys (JArr vs) = JArr (map sort_keys vs)"
| "sort_keys (JObj kvs) = JObj (sort_key fst (map (\<lambda>kv. (fst kv, sort_keys (snd kv))) kvs))"
| "sort_keys v = v"

text \<open>\<open>json.dumps(value, sort_keys=True, separators=(",", ":"))\<close> and the form with \<open>indent=2\<close>.\<close>

definition canonical :: "json \<Rightarrow> string" where
  "canonical v = render None 0 (sort_keys v)"

definition dumps_indent2 :: "json \<Rightarrow> string" where
  "dumps_indent2 v = render (Some 2) 0 (sort_keys v)"

section \<open>Reading\<close>

definition is_ws :: "char \<Rightarrow> bool" where
  "is_ws c \<longleftrightarrow> c = CHR '' '' \<or> c = CHR 0x09 \<or> c = CHR 0x0A \<or> c = CHR 0x0D"

abbreviation skip_ws :: "string \<Rightarrow> string" where
  "skip_ws s \<equiv> dropWhile is_ws s"

definition simple_escape :: "char \<Rightarrow> char option" where
  "simple_escape e =
     (if e = CHR 0x22 \<or> e = CHR 0x5C \<or> e = CHR ''/'' then Some e
      else if e = CHR ''b'' then Some (CHR 0x08)
      else if e = CHR ''f'' then Some (CHR 0x0C)
      else if e = CHR ''n'' then Some (CHR 0x0A)
      else if e = CHR ''r'' then Some (CHR 0x0D)
      else if e = CHR ''t'' then Some (CHR 0x09)
      else None)"

definition hex4 :: "char \<Rightarrow> char \<Rightarrow> char \<Rightarrow> char \<Rightarrow> nat option" where
  "hex4 a b c d =
     (case (hex_val a, hex_val b, hex_val c, hex_val d) of
        (Some w, Some x, Some y, Some z) \<Rightarrow> Some (4096 * w + 256 * x + 16 * y + z)
      | _ \<Rightarrow> None)"

definition push_char :: "char \<Rightarrow> (string \<times> string) option \<Rightarrow> (string \<times> string) option" where
  "push_char c = map_option (\<lambda>(t, r). (c # t, r))"

text \<open>The rest of a string literal after its opening quote.\<close>

fun parse_string :: "string \<Rightarrow> (string \<times> string) option" where
  "parse_string [] = None"
| "parse_string (c # r) =
     (if c = CHR 0x22 then Some ([], r)
      else if c = CHR 0x5C then
        (case r of
           [] \<Rightarrow> None
         | e # r1 \<Rightarrow>
             (if e = CHR ''u'' then
                (case r1 of
                   h1 # h2 # h3 # h4 # r2 \<Rightarrow>
                     (case hex4 h1 h2 h3 h4 of
                        None \<Rightarrow> None
                      | Some n \<Rightarrow> if n < 256 then push_char (char_of n) (parse_string r2) else None)
                 | _ \<Rightarrow> None)
              else (case simple_escape e of
                  None \<Rightarrow> None
                | Some d \<Rightarrow> push_char d (parse_string r1))))
      else if (of_char c :: nat) < 32 \<or> 128 \<le> (of_char c :: nat) then None
      else push_char c (parse_string r))"

text \<open>
  Numbers, by the decoder's regular expression
  \<^verbatim>\<open>(-?(?:0|[1-9][0-9]*))(\.[0-9]+)?([eE][-+]?[0-9]+)?\<close>: integer part, fraction, exponent.
\<close>

definition lex_sign :: "string \<Rightarrow> string \<times> string" where
  "lex_sign s = (case s of [] \<Rightarrow> ([], []) | c # r \<Rightarrow> if c = CHR ''-'' then ([c], r) else ([], s))"

definition lex_int :: "string \<Rightarrow> (string \<times> string) option" where
  "lex_int s =
     (case lex_sign s of (sg, r) \<Rightarrow>
        (case r of
           [] \<Rightarrow> None
         | d # r' \<Rightarrow>
             if d = CHR ''0'' then Some (sg @ [d], r')
             else if is_digit d then Some (sg @ takeWhile is_digit r, dropWhile is_digit r)
             else None))"

definition lex_frac :: "string \<Rightarrow> string \<times> string" where
  "lex_frac s =
     (case s of
        c # d # r \<Rightarrow>
          if c = CHR ''.'' \<and> is_digit d
          then (c # takeWhile is_digit (d # r), dropWhile is_digit (d # r)) else ([], s)
      | _ \<Rightarrow> ([], s))"

definition lex_exp :: "string \<Rightarrow> string \<times> string" where
  "lex_exp s =
     (case s of
        c # r \<Rightarrow>
          if c = CHR ''e'' \<or> c = CHR ''E'' then
            (let (sg, ds) = (case r of d # r' \<Rightarrow> if d = CHR ''+'' \<or> d = CHR ''-'' then ([d], r') else ([], r)
                             | [] \<Rightarrow> ([], []))
             in if ds \<noteq> [] \<and> is_digit (hd ds)
                then (c # sg @ takeWhile is_digit ds, dropWhile is_digit ds) else ([], s))
          else ([], s)
      | [] \<Rightarrow> ([], []))"

definition int_of_lexeme :: "string \<Rightarrow> int" where
  "int_of_lexeme l =
     (case l of
        c # r \<Rightarrow> if c = CHR ''-'' then - int (dec_val r) else int (dec_val l)
      | [] \<Rightarrow> 0)"

definition parse_number :: "string \<Rightarrow> (json \<times> string) option" where
  "parse_number s =
     (case lex_int s of
        None \<Rightarrow> None
      | Some (i, r1) \<Rightarrow>
          (case lex_frac r1 of (f, r2) \<Rightarrow>
             (case lex_exp r2 of (x, r3) \<Rightarrow>
                if f = [] \<and> x = [] then Some (JInt (int_of_lexeme i), r3)
                else Some (JFloat (i @ f @ x), r3))))"

definition literal :: "string \<Rightarrow> json \<Rightarrow> string \<Rightarrow> (json \<times> string) option" where
  "literal l v s = (if take (length l) s = l then Some (v, drop (length l) s) else None)"

definition parse_atom :: "string \<Rightarrow> (json \<times> string) option" where
  "parse_atom s =
     (case s of
        [] \<Rightarrow> None
      | c # r \<Rightarrow>
          if c = CHR ''n'' then literal ''null'' JNull s
          else if c = CHR ''t'' then literal ''true'' (JBool True) s
          else if c = CHR ''f'' then literal ''false'' (JBool False) s
          else if c = CHR ''N'' then literal ''NaN'' (JFloat ''NaN'') s
          else if c = CHR ''I'' then literal ''Infinity'' (JFloat ''Infinity'') s
          else (case parse_number s of
              Some x \<Rightarrow> Some x
            | None \<Rightarrow> literal ''-Infinity'' (JFloat ''-Infinity'') s))"

text \<open>
  One value, the members of a dictionary and the items of a list. The first argument is
  fuel: every recursive call is behind at least one consumed character, so the length of the
  text is enough.
\<close>

fun parse_value :: "nat \<Rightarrow> string \<Rightarrow> (json \<times> string) option"
  and parse_members :: "nat \<Rightarrow> json dict \<Rightarrow> string \<Rightarrow> (json \<times> string) option"
  and parse_items :: "nat \<Rightarrow> json list \<Rightarrow> string \<Rightarrow> (json \<times> string) option" where
  "parse_value 0 s = None"
| "parse_value (Suc n) s =
     (case s of
        [] \<Rightarrow> None
      | c # r \<Rightarrow>
          if c = CHR 0x22 then map_option (\<lambda>(t, r'). (JStr t, r')) (parse_string r)
          else if c = CHR ''{'' then
            (case skip_ws r of
               [] \<Rightarrow> None
             | d # r' \<Rightarrow> if d = CHR ''}'' then Some (JObj [], r') else parse_members n [] (d # r'))
          else if c = CHR ''['' then
            (case skip_ws r of
               [] \<Rightarrow> None
             | d # r' \<Rightarrow> if d = CHR '']'' then Some (JArr [], r') else parse_items n [] (d # r'))
          else parse_atom s)"
| "parse_members 0 acc s = None"
| "parse_members (Suc n) acc s =
     (case s of
        [] \<Rightarrow> None
      | q # r \<Rightarrow>
          if q \<noteq> CHR 0x22 then None
          else (case parse_string r of
              None \<Rightarrow> None
            | Some (k, r1) \<Rightarrow>
                (case skip_ws r1 of
                   [] \<Rightarrow> None
                 | c # r2 \<Rightarrow>
                     if c \<noteq> CHR '':'' then None
                     else (case parse_value n (skip_ws r2) of
                         None \<Rightarrow> None
                       | Some (v, r3) \<Rightarrow>
                           (case skip_ws r3 of
                              [] \<Rightarrow> None
                            | d # r4 \<Rightarrow>
                                if d = CHR '','' then parse_members n (AList.update k v acc) (skip_ws r4)
                                else if d = CHR ''}'' then Some (JObj (AList.update k v acc), r4)
                                else None)))))"
| "parse_items 0 acc s = None"
| "parse_items (Suc n) acc s =
     (case parse_value n s of
        None \<Rightarrow> None
      | Some (v, r3) \<Rightarrow>
          (case skip_ws r3 of
             [] \<Rightarrow> None
           | d # r4 \<Rightarrow>
               if d = CHR '','' then parse_items n (acc @ [v]) (skip_ws r4)
               else if d = CHR '']'' then Some (JArr (acc @ [v]), r4)
               else None))"

text \<open>\<open>json.loads\<close>: one value with white space around it; anything after it is an error.\<close>

definition json_loads :: "string \<Rightarrow> json option" where
  "json_loads s =
     (case parse_value (Suc (length s)) (skip_ws s) of
        None \<Rightarrow> None
      | Some (v, r) \<Rightarrow> if skip_ws r = [] then Some v else None)"

section \<open>\<open>int()\<close> and \<open>str()\<close> of a loaded value\<close>

text \<open>
  \<open>int(s)\<close> of a string: white space around it, a sign, digits with single underscores
  between them.
\<close>

fun grouped_digits :: "string \<Rightarrow> bool" where
  "grouped_digits [] = False"
| "grouped_digits [d] = is_digit d"
| "grouped_digits (d # e # r) = (is_digit d \<and> (if e = CHR ''_'' then grouped_digits r else grouped_digits (e # r)))"

definition int_of_str :: "string \<Rightarrow> int res" where
  "int_of_str s =
     (let t = strip s;
          (neg, ds) = (case t of c # r \<Rightarrow> if c = CHR ''-'' then (True, r) else if c = CHR ''+'' then (False, r)
                                          else (False, t)
                       | [] \<Rightarrow> (False, []));
          n = int (dec_val (filter is_digit ds))
      in if grouped_digits ds then Inr (if neg then - n else n)
         else Inl (ValueError ''invalid literal for int()''))"

text \<open>\<open>int(x)\<close> of a float truncates; the float is the exact value of its literal.\<close>

definition int_of_float :: "string \<Rightarrow> int res" where
  "int_of_float l =
     (if l = ''NaN'' then Inl (ValueError ''cannot convert float NaN to integer'')
      else (case lex_int l of
          None \<Rightarrow> Inl (OverflowError ''cannot convert float infinity to integer'')
        | Some (i, r) \<Rightarrow>
            (let (f, r2) = lex_frac r;
                 (x, _) = lex_exp r2;
                 m = int (dec_val (filter is_digit (i @ f)));
                 e = (case x of [] \<Rightarrow> 0 | _ # y \<Rightarrow>
                       (case y of [] \<Rightarrow> 0 | c # z \<Rightarrow> if c = CHR ''-'' then - int (dec_val z)
                                    else if c = CHR ''+'' then int (dec_val z) else int (dec_val y)))
                     - int (length (filter is_digit f));
                 n = (if 0 \<le> e then m * 10 ^ nat e else m div 10 ^ nat (- e))
             in Inr (if hd i = CHR ''-'' then - n else n))))"

fun py_int :: "json \<Rightarrow> int res" where
  "py_int (JInt i) = Inr i"
| "py_int (JBool b) = Inr (if b then 1 else 0)"
| "py_int (JStr s) = int_of_str s"
| "py_int (JFloat l) = int_of_float l"
| "py_int _ = Inl (TypeError ''int() argument must be a string or a number'')"

text \<open>\<open>str(x)\<close> of a scalar. The \<open>repr\<close> of a list or dictionary is outside the model.\<close>

fun py_str :: "json \<Rightarrow> string option" where
  "py_str (JStr s) = Some s"
| "py_str (JInt i) = Some (show_int i)"
| "py_str (JBool b) = Some (if b then ''True'' else ''False'')"
| "py_str JNull = Some ''None''"
| "py_str (JFloat l) = Some l"
| "py_str _ = None"

text \<open>\<open>d[k]\<close> of a dictionary, and \<open>int(d[k])\<close>.\<close>

definition dict_item :: "json dict \<Rightarrow> string \<Rightarrow> json res" where
  "dict_item d k = (case map_of d k of None \<Rightarrow> Inl (KeyError k) | Some v \<Rightarrow> Inr v)"

definition dict_int :: "json dict \<Rightarrow> string \<Rightarrow> int res" where
  "dict_int d k = bind_res (dict_item d k) py_int"

end
