(* ===== verification/Json_Facts.thy ===== *)
theory Json_Facts
  imports Json
begin

text \<open>
  The facts about the JSON model that the file formats rest on: every value survives a dump
  and a load (\<open>loads_render\<close>), no proper prefix of a dumped dictionary loads
  (\<open>loads_prefix\<close>), a dump is printable ASCII and so never contains a line break
  in its compact form (\<open>canonical_no_nl\<close>), and the parser's fuel is enough.
\<close>

section \<open>Strings\<close>

lemma of_char_cases_256: "(of_char c :: nat) < 256"
  using of_char_of [where 'a = nat, of "of_char c"] by simp

lemma parse_string_esc: "parse_string (esc_char c @ r) = push_char c (parse_string r)"
proof (cases "32 \<le> (of_char c :: nat) \<and> (of_char c :: nat) \<le> 126 \<and> c \<noteq> CHR 0x22 \<and> c \<noteq> CHR 0x5C")
  case True
  moreover have "c \<noteq> CHR 0x0A" "c \<noteq> CHR 0x0D" "c \<noteq> CHR 0x09" "c \<noteq> CHR 0x0C" "c \<noteq> CHR 0x08"
    using True by auto
  ultimately show ?thesis by (simp add: esc_char_def Let_def)
next
  case False
  show ?thesis
  proof (cases "c \<in> {CHR 0x22, CHR 0x5C, CHR 0x0A, CHR 0x0D, CHR 0x09, CHR 0x0C, CHR 0x08}")
    case True
    then show ?thesis by (auto simp: esc_char_def simple_escape_def)
  next
    case out: False
    let ?n = "of_char c :: nat"
    have n: "?n < 256" by (rule of_char_cases_256)
    then have d: "?n div 16 < 16" by (simp add: div_less_iff_less_mult)
    have "hex_val (CHR ''0'') = Some 0" by (simp add: hex_val_def)
    then have "hex4 (CHR ''0'') (CHR ''0'') (hex_char (?n div 16)) (hex_char (?n mod 16)) = Some ?n"
      using d by (simp add: hex4_def)
    then show ?thesis
      using False out n by (auto simp: esc_char_def Let_def)
  qed
qed

lemma parse_string_dump: "parse_string (concat (map esc_char s) @ CHR 0x22 # r) = Some (s, r)"
  by (induction s) (auto simp: parse_string_esc push_char_def)

lemma parse_string_append: "parse_string s = Some (t, r) \<Longrightarrow> parse_string (s @ q) = Some (t, r @ q)"
proof (induction s arbitrary: t r rule: parse_string.induct)
  case (2 c s)
  show ?case
  proof (cases "c = CHR 0x5C")
    case True
    then obtain e s1 where s: "s = e # s1"
      using "2.prems" by (auto split: list.splits)
    show ?thesis
    proof (cases "e = CHR ''u''")
      case u: True
      with True "2.prems" s obtain h1 h2 h3 h4 s2 n where
        "s1 = h1 # h2 # h3 # h4 # s2" "hex4 h1 h2 h3 h4 = Some n" "n < 256"
        "push_char (char_of n) (parse_string s2) = Some (t, r)"
        by (auto split: list.splits option.splits if_splits)
      with True u s show ?thesis
        using "2.IH"(1) [OF _ True s u] by (auto simp: push_char_def)
    next
      case False
      with True "2.prems" s obtain d where
        "simple_escape e = Some d" "push_char d (parse_string s1) = Some (t, r)"
        by (auto split: option.splits)
      with True False s show ?thesis
        using "2.IH"(2) [OF _ True s False] by (auto simp: push_char_def)
    qed
  next
    case False
    with "2.prems" show ?thesis
      using "2.IH"(3) by (auto simp: push_char_def split: if_splits)
  qed
qed simp

section \<open>Numbers\<close>

definition num_char :: "char \<Rightarrow> bool" where
  "num_char c \<longleftrightarrow> is_digit c \<or> c = CHR ''.'' \<or> c = CHR ''e'' \<or> c = CHR ''E''"

text \<open>The text after a number is not taken for its continuation.\<close>

definition num_end :: "string \<Rightarrow> bool" where
  "num_end r \<longleftrightarrow> r = [] \<or> \<not> num_char (hd r)"

lemma digits_append:
  assumes "dropWhile is_digit x \<noteq> [] \<or> q = [] \<or> \<not> is_digit (hd q)"
  shows "takeWhile is_digit (x @ q) = takeWhile is_digit x"
    "dropWhile is_digit (x @ q) = dropWhile is_digit x @ q"
  using assms by (induction x) (auto simp: takeWhile_eq_Nil_iff dropWhile_eq_self_iff)

lemma lex_int_append:
  assumes "lex_int s = Some (i, r)" "r \<noteq> [] \<or> q = [] \<or> \<not> is_digit (hd q)"
  shows "lex_int (s @ q) = Some (i, r @ q)"
proof (cases s)
  case Nil
  then show ?thesis using assms by (simp add: lex_int_def lex_sign_def)
next
  case (Cons c s')
  show ?thesis
    using assms Cons digits_append [of _ q]
    by (auto simp: lex_int_def lex_sign_def split: if_splits list.splits)
qed

lemma lex_exp_append:
  assumes "lex_exp s = (x, r)" "num_end (r @ q)"
  shows "lex_exp (s @ q) = (x, r @ q)"
proof (cases s)
  case Nil
  then show ?thesis
    using assms by (cases q) (auto simp: lex_exp_def num_end_def num_char_def)
next
  case (Cons c s')
  show ?thesis
  proof (cases "c = CHR ''e'' \<or> c = CHR ''E''")
    case False
    then show ?thesis using assms Cons by (auto simp: lex_exp_def)
  next
    case True
    then have ne: "r \<noteq> s"
      using assms Cons by (auto simp: num_end_def num_char_def)
    define sg where
      "sg = (\<lambda>r. case r of d # r' \<Rightarrow> if d = CHR ''+'' \<or> d = CHR ''-'' then ([d], r') else ([], r)
                   | [] \<Rightarrow> ([], [] :: string))"
    obtain g ds where g: "sg s' = (g, ds)" by fastforce
    have eq: "lex_exp (c # y) = (case sg y of (g, ds) \<Rightarrow>
        if ds \<noteq> [] \<and> is_digit (hd ds) then (c # g @ takeWhile is_digit ds, dropWhile is_digit ds)
        else ([], c # y))" for y
      using True by (simp add: lex_exp_def sg_def Let_def)
    from ne assms(1) Cons g have ds: "ds \<noteq> []" "is_digit (hd ds)"
      "x = c # g @ takeWhile is_digit ds" "r = dropWhile is_digit ds"
      by (auto simp: eq split: if_splits)
    then have "sg (s' @ q) = (g, ds @ q)"
      using g by (cases s') (auto simp: sg_def split: if_splits)
    moreover have "r \<noteq> [] \<or> q = [] \<or> \<not> is_digit (hd q)"
      using assms(2) by (cases r) (auto simp: num_end_def num_char_def)
    ultimately show ?thesis
      using ds Cons by (simp add: eq digits_append)
  qed
qed

lemma lex_frac_append:
  assumes "lex_frac s = (f, r2)" "lex_exp r2 = (x, r)" "num_end (r @ q)"
  shows "lex_frac (s @ q) = (f, r2 @ q)"
proof (cases "\<exists>d s'. s = CHR ''.'' # d # s' \<and> is_digit d")
  case True
  then obtain d s' where s: "s = CHR ''.'' # d # s'" "is_digit d" by blast
  then have r2: "r2 = dropWhile is_digit (d # s')" "f = CHR ''.'' # takeWhile is_digit (d # s')"
    using assms(1) by (auto simp: lex_frac_def)
  have "r2 \<noteq> [] \<or> q = [] \<or> \<not> is_digit (hd q)"
    using assms(2,3) by (cases r2) (auto simp: lex_exp_def num_end_def num_char_def)
  then show ?thesis
    using s r2 digits_append [of "d # s'" q] by (simp add: lex_frac_def)
next
  case False
  then have eq: "f = []" "r2 = s"
    using assms(1) by (auto simp: lex_frac_def split: list.splits if_splits)
  show ?thesis
  proof (cases s)
    case Nil
    then have "num_end q"
      using assms(2,3) eq by (simp add: lex_exp_def)
    then show ?thesis
      using Nil eq by (auto simp: lex_frac_def num_end_def num_char_def split: list.splits)
  next
    case (Cons c s')
    have "c \<noteq> CHR ''.''"
      using assms(2,3) eq Cons by (auto simp: lex_exp_def num_end_def num_char_def)
    then show ?thesis
      using Cons eq by (auto simp: lex_frac_def split: list.splits)
  qed
qed

lemma parse_number_append:
  assumes "parse_number s = Some (v, r)" "num_end (r @ q)"
  shows "parse_number (s @ q) = Some (v, r @ q)"
proof -
  from assms(1) obtain i r1 f r2 x where l: "lex_int s = Some (i, r1)" "lex_frac r1 = (f, r2)"
    "lex_exp r2 = (x, r)"
    and v: "v = (if f = [] \<and> x = [] then JInt (int_of_lexeme i) else JFloat (i @ f @ x))"
    by (auto simp: parse_number_def split: option.splits prod.splits if_splits)
  have "r1 \<noteq> [] \<or> q = [] \<or> \<not> is_digit (hd q)"
    using l(2,3) assms(2) by (cases r1) (auto simp: lex_frac_def lex_exp_def num_end_def num_char_def)
  then have "lex_int (s @ q) = Some (i, r1 @ q)"
    by (rule lex_int_append [OF l(1)])
  moreover have "lex_frac (r1 @ q) = (f, r2 @ q)"
    by (rule lex_frac_append [OF l(2,3) assms(2)])
  moreover have "lex_exp (r2 @ q) = (x, r @ q)"
    by (rule lex_exp_append [OF l(3) assms(2)])
  ultimately show ?thesis
    by (simp add: parse_number_def v)
qed

text \<open>The literal of an integer, and of a float the program writes.\<close>

lemma not_minus_digit: "is_digit c \<Longrightarrow> c \<noteq> CHR ''-''"
  by (auto simp: is_digit_def)

lemma lex_int_show_nat: "lex_int (show_nat n) = Some (show_nat n, [])"
proof -
  obtain c s where s: "show_nat n = c # s"
    by (cases "show_nat n") auto
  have all: "list_all is_digit (c # s)"
    using show_nat_digits [of n] s by simp
  then have "takeWhile is_digit (c # s) = c # s" "dropWhile is_digit (c # s) = []"
    by (simp_all add: list_all_iff takeWhile_eq_all_conv dropWhile_eq_Nil_conv)
  moreover have "s = []" if "c = CHR ''0''"
    using that hd_show_nat [of n] s show_nat_0 by (cases "n = 0") auto
  ultimately show ?thesis
    using all s not_minus_digit [of c] by (auto simp: lex_int_def lex_sign_def)
qed

lemma parse_number_show_int: "parse_number (show_int i) = Some (JInt i, [])"
proof (cases "i < 0")
  case True
  then have "lex_int (show_int i) = Some (show_int i, [])"
    using lex_int_show_nat [of "nat (- i)"] show_nat_digits [of "nat (- i)"]
    by (auto simp: show_int_def lex_int_def lex_sign_def not_minus_digit
        split: list.splits if_splits)
  moreover have "int_of_lexeme (show_int i) = i"
    using True by (simp add: show_int_def int_of_lexeme_def)
  ultimately show ?thesis
    by (simp add: parse_number_def lex_frac_def lex_exp_def)
next
  case False
  obtain c s where s: "show_nat (nat i) = c # s"
    by (cases "show_nat (nat i)") auto
  then have "c \<noteq> CHR ''-''"
    using show_nat_digits [of "nat i"] not_minus_digit [of c] by auto
  then have "int_of_lexeme (show_nat (nat i)) = i"
    using False s dec_val_show_nat [of "nat i"] by (simp add: int_of_lexeme_def)
  then show ?thesis
    using False lex_int_show_nat [of "nat i"]
    by (simp add: parse_number_def lex_frac_def lex_exp_def show_int_def)
qed

definition float_lexeme :: "string \<Rightarrow> bool" where
  "float_lexeme l \<longleftrightarrow> parse_number l = Some (JFloat l, [])"

section \<open>Extending a text after a complete value\<close>

lemma literal_Some: "literal l v s = Some (x, r) \<longleftrightarrow> x = v \<and> s = l @ r"
  by (auto simp: literal_def) (metis append_take_drop_id)

lemma literal_append: "literal l v s = Some (x, r) \<Longrightarrow> literal l v (s @ q) = Some (x, r @ q)"
  by (simp add: literal_Some)

lemma parse_number_minus_I: "parse_number (CHR ''-'' # CHR ''I'' # t) = None"
  by (simp add: parse_number_def lex_int_def lex_sign_def is_digit_def)

lemma parse_number_Cons: "parse_number (c # s) = Some x \<Longrightarrow> c = CHR ''-'' \<or> is_digit c"
  by (auto simp: parse_number_def lex_int_def lex_sign_def is_digit_def split: option.splits if_splits)

lemma parse_atom_number:
  assumes "parse_number s = Some x"
  shows "parse_atom s = Some x"
proof (cases s)
  case Nil
  then show ?thesis using assms by (simp add: parse_number_def lex_int_def lex_sign_def)
next
  case (Cons c t)
  then show ?thesis
    using assms parse_number_Cons [of c t] by (auto simp: parse_atom_def is_digit_def)
qed

lemma parse_atom_append:
  assumes "parse_atom s = Some (v, r)" "num_end (r @ q)"
  shows "parse_atom (s @ q) = Some (v, r @ q)"
proof (cases "parse_number s")
  case None
  with assms(1) consider l where "s = l @ r" "(l, v) \<in> {(''null'', JNull), (''true'', JBool True),
      (''false'', JBool False), (''NaN'', JFloat ''NaN''), (''Infinity'', JFloat ''Infinity''),
      (''-Infinity'', JFloat ''-Infinity'')}"
    by (auto simp: parse_atom_def literal_Some split: list.splits if_splits)
  then show ?thesis
    by cases (auto simp: parse_atom_def literal_Some parse_number_minus_I)
next
  case (Some a)
  then have "a = (v, r)"
    using assms(1) parse_atom_number by fastforce
  then show ?thesis
    using Some assms(2) by (simp add: parse_atom_number parse_number_append)
qed

lemma skip_ws_append: "skip_ws s = c # r \<Longrightarrow> skip_ws (s @ q) = c # r @ q"
  by (induction s) auto

lemma num_end_skip_ws: "skip_ws r = c # r' \<Longrightarrow> \<not> num_char c \<Longrightarrow> num_end (r @ q)"
  by (cases r) (auto simp: num_end_def num_char_def is_ws_def is_digit_def split: if_splits)

lemma num_char_delims [simp]:
  "\<not> num_char (CHR '','')" "\<not> num_char (CHR ''}'')" "\<not> num_char (CHR '']'')"
  by (simp_all add: num_char_def is_digit_def)

lemma parse_value_Nil [simp]: "parse_value n [] = None"
  by (cases n) auto

lemma parse_members_Nil [simp]: "parse_members n acc [] = None"
  by (cases n) auto

lemma parse_items_Nil [simp]: "parse_items n acc [] = None"
  by (cases n) auto

lemma parse_members_Suc:
  "parse_members (Suc n) acc s = Some x \<longleftrightarrow>
    (\<exists>s0 k r1 r2 w r3 d r4. s = CHR 0x22 # s0 \<and> parse_string s0 = Some (k, r1) \<and>
      skip_ws r1 = CHR '':'' # r2 \<and> parse_value n (skip_ws r2) = Some (w, r3) \<and> skip_ws r3 = d # r4 \<and>
      (d = CHR '','' \<and> parse_members n (AList.update k w acc) (skip_ws r4) = Some x \<or>
       d = CHR ''}'' \<and> x = (JObj (AList.update k w acc), r4)))"
  by (auto split: list.splits option.splits if_splits prod.splits simp del: dropWhile_eq_Nil_conv)

lemma parse_items_Suc:
  "parse_items (Suc n) acc s = Some x \<longleftrightarrow>
    (\<exists>w r3 d r4. parse_value n s = Some (w, r3) \<and> skip_ws r3 = d # r4 \<and>
      (d = CHR '','' \<and> parse_items n (acc @ [w]) (skip_ws r4) = Some x \<or>
       d = CHR '']'' \<and> x = (JArr (acc @ [w]), r4)))"
  by (auto split: list.splits option.splits if_splits prod.splits simp del: dropWhile_eq_Nil_conv)

lemma parse_value_Suc:
  "parse_value (Suc n) s = Some x \<longleftrightarrow>
    (\<exists>c s'. s = c # s' \<and>
      (c = CHR 0x22 \<and> (\<exists>t r. parse_string s' = Some (t, r) \<and> x = (JStr t, r)) \<or>
       c = CHR ''{'' \<and> (\<exists>d t. skip_ws s' = d # t \<and>
          (d = CHR ''}'' \<and> x = (JObj [], t) \<or> d \<noteq> CHR ''}'' \<and> parse_members n [] (d # t) = Some x)) \<or>
       c = CHR ''['' \<and> (\<exists>d t. skip_ws s' = d # t \<and>
          (d = CHR '']'' \<and> x = (JArr [], t) \<or> d \<noteq> CHR '']'' \<and> parse_items n [] (d # t) = Some x)) \<or>
       c \<noteq> CHR 0x22 \<and> c \<noteq> CHR ''{'' \<and> c \<noteq> CHR ''['' \<and> parse_atom s = Some x))"
  by (cases s) (auto split: list.splits if_splits simp del: dropWhile_eq_Nil_conv)

declare parse_value.simps(2) [simp del] parse_members.simps(2) [simp del] parse_items.simps(2) [simp del]

lemma parse_ne:
  "parse_value n t = Some x \<Longrightarrow> t \<noteq> []" "parse_members n acc t = Some x \<Longrightarrow> t \<noteq> []"
  "parse_items n items t = Some x \<Longrightarrow> t \<noteq> []"
  by auto

lemma skip_ws_append_ne: "skip_ws r \<noteq> [] \<Longrightarrow> skip_ws (r @ q) = skip_ws r @ q"
  by (cases "skip_ws r") (auto simp: skip_ws_append simp del: dropWhile_eq_Nil_conv)

lemma parse_append:
  "(\<forall>s v r q. parse_value n s = Some (v, r) \<longrightarrow> num_end (r @ q) \<longrightarrow> parse_value n (s @ q) = Some (v, r @ q)) \<and>
   (\<forall>acc s v r q. parse_members n acc s = Some (v, r) \<longrightarrow> parse_members n acc (s @ q) = Some (v, r @ q)) \<and>
   (\<forall>acc s v r q. parse_items n acc s = Some (v, r) \<longrightarrow> parse_items n acc (s @ q) = Some (v, r @ q))"
proof (induction n)
  case (Suc n)
  note V = Suc.IH [THEN conjunct1, rule_format]
    and M = Suc.IH [THEN conjunct2, THEN conjunct1, rule_format]
    and I = Suc.IH [THEN conjunct2, THEN conjunct2, rule_format]
  have val: "parse_value (Suc n) (s @ q) = Some (v, r @ q)"
    if pv: "parse_value (Suc n) s = Some (v, r)" and ne: "num_end (r @ q)" for s v r q
  proof -
    obtain c s' where s: "s = c # s'"
      using pv by (auto simp: parse_value_Suc)
    consider "c = CHR 0x22" | d t where "c = CHR ''{'' \<or> c = CHR ''[''" "skip_ws s' = d # t"
      | "c \<noteq> CHR 0x22" "c \<noteq> CHR ''{''" "c \<noteq> CHR ''[''"
      using pv s by (auto simp: parse_value_Suc)
    then show ?thesis
    proof cases
      case 1
      then show ?thesis using pv s by (auto simp: parse_value_Suc dest: parse_string_append)
    next
      case 2
      then show ?thesis
        using pv s M [of "[]" "d # t"] I [of "[]" "d # t"] skip_ws_append [of s' d t q]
        by (auto simp: parse_value_Suc)
    next
      case 3
      then show ?thesis
        using pv ne s parse_atom_append [of s v r q] by (simp add: parse_value_Suc)
    qed
  qed
  have nums: "parse_value n (s @ q) = Some (w, r3 @ q)"
    if "parse_value n s = Some (w, r3)" "skip_ws r3 = d # r4" "\<not> num_char d" for s w r3 d r4 q
    using that by (intro V num_end_skip_ws [of r3 d r4]) auto
  have members: "parse_members (Suc n) acc (s @ q) = Some (v, r @ q)"
    if "parse_members (Suc n) acc s = Some (v, r)" for acc s v r q
  proof -
    from that obtain s0 k r1 r2 w r3 d r4 where p: "s = CHR 0x22 # s0" "parse_string s0 = Some (k, r1)"
      "skip_ws r1 = CHR '':'' # r2" "parse_value n (skip_ws r2) = Some (w, r3)" "skip_ws r3 = d # r4"
      "d = CHR '','' \<and> parse_members n (AList.update k w acc) (skip_ws r4) = Some (v, r) \<or>
       d = CHR ''}'' \<and> v = JObj (AList.update k w acc) \<and> r = r4"
      by (auto simp: parse_members_Suc)
    have "skip_ws r2 \<noteq> []" "d = CHR '','' \<longrightarrow> skip_ws r4 \<noteq> []"
      using p(4,6) parse_ne(1) [OF p(4)] parse_ne(2) by blast+
    then have sk: "skip_ws (r2 @ q) = skip_ws r2 @ q" "d = CHR '','' \<longrightarrow> skip_ws (r4 @ q) = skip_ws r4 @ q"
      using skip_ws_append_ne by blast+
    have "parse_value n (skip_ws (r2 @ q)) = Some (w, r3 @ q)"
      using p(6) nums [OF p(4,5), of q] unfolding sk by auto
    then show ?thesis
      using p(6) M sk(2)
      by (auto simp: parse_members.simps(2) p(1) parse_string_append [OF p(2)] skip_ws_append [OF p(3)]
          skip_ws_append [OF p(5)])
  qed
  have items: "parse_items (Suc n) acc (s @ q) = Some (v, r @ q)"
    if "parse_items (Suc n) acc s = Some (v, r)" for acc s v r q
  proof -
    from that obtain w r3 d r4 where p: "parse_value n s = Some (w, r3)" "skip_ws r3 = d # r4"
      "d = CHR '','' \<and> parse_items n (acc @ [w]) (skip_ws r4) = Some (v, r) \<or>
       d = CHR '']'' \<and> v = JArr (acc @ [w]) \<and> r = r4"
      by (auto simp: parse_items_Suc)
    have "d = CHR '','' \<longrightarrow> skip_ws r4 \<noteq> []"
      using p(3) parse_ne(3) by blast
    then have sk: "d = CHR '','' \<longrightarrow> skip_ws (r4 @ q) = skip_ws r4 @ q"
      using skip_ws_append_ne by blast+
    then show ?thesis
      using p(3) nums [OF p(1,2), of q] I by (auto simp: parse_items.simps(2) skip_ws_append [OF p(2)])
  qed
  show ?case
    using val members items by blast
qed simp

section \<open>Loading what was dumped\<close>

text \<open>
  The values Python can hold and dump: distinct keys in every dictionary, and floats written
  by their literal.
\<close>

fun wf_json :: "json \<Rightarrow> bool" where
  "wf_json (JFloat l) = float_lexeme l"
| "wf_json (JArr vs) = list_all wf_json vs"
| "wf_json (JObj kvs) = (distinct (keys kvs) \<and> list_all (\<lambda>kv. wf_json (snd kv)) kvs)"
| "wf_json _ = True"

definition starts_value :: "string \<Rightarrow> bool" where
  "starts_value s \<longleftrightarrow> s \<noteq> [] \<and> \<not> is_ws (hd s) \<and> hd s \<noteq> CHR '']''"

lemma skip_ws_starts [simp]: "starts_value s \<Longrightarrow> skip_ws (s @ r) = s @ r"
  by (cases s) (auto simp: starts_value_def)

lemma starts_value_number: "parse_number s = Some x \<Longrightarrow> starts_value s"
  by (cases s) (auto simp: starts_value_def is_ws_def is_digit_def parse_number_def lex_int_def lex_sign_def
      split: option.splits if_splits)

lemma starts_value_render: "wf_json v \<Longrightarrow> starts_value (render ind lvl v)"
  using starts_value_number [OF parse_number_show_int]
  by (cases v) (auto simp: float_lexeme_def dest: starts_value_number,
      auto simp: starts_value_def is_ws_def dump_str_def)

lemma dropWhile_replicate: "P x \<Longrightarrow> dropWhile P (replicate n x @ r) = dropWhile P r"
  by (induction n) auto

lemma skip_ws_brk: "\<not> is_ws c \<Longrightarrow> skip_ws (brk ind l @ c # r) = c # r"
  by (auto simp: brk_def is_ws_def dropWhile_append2 dropWhile_replicate split: option.splits)

lemma skip_ws_brk_value: "starts_value s \<Longrightarrow> skip_ws (brk ind l @ s @ r) = s @ r"
  by (cases s) (auto simp: starts_value_def skip_ws_brk)

lemma not_ws [simp]: "\<not> is_ws (CHR '','')" "\<not> is_ws (CHR ''}'')" "\<not> is_ws (CHR '']'')"
  "\<not> is_ws (CHR 0x22)" "\<not> is_ws (CHR '':'')"
  by (simp_all add: is_ws_def)

lemma num_end_brk: "\<not> num_char c \<Longrightarrow> num_end (brk ind l @ c # r)"
  by (auto simp: brk_def num_end_def num_char_def is_digit_def split: option.splits)

lemma num_end_comma [simp]: "num_end (CHR '','' # r)"
  by (simp add: num_end_def num_char_def is_digit_def)

lemma starts_value_join: "starts_value x \<Longrightarrow> starts_value (join sep (x # xs))"
  by (cases xs) (auto simp: starts_value_def)

lemma starts_value_key [simp]: "starts_value (dump_str k @ x)"
  by (simp add: starts_value_def dump_str_def)

lemma parse_members_render:
  assumes val: "\<And>v n rest. v \<in> snd ` set kvs \<Longrightarrow> length (f v) \<le> n \<Longrightarrow> num_end rest \<Longrightarrow>
      parse_value n (f v @ rest) = Some (v, rest)"
    and st: "\<And>v. v \<in> snd ` set kvs \<Longrightarrow> starts_value (f v)"
    and ne: "kvs \<noteq> []" and dist: "distinct (keys (acc @ kvs))"
    and n: "length (join (CHR '','' # brk ind l)
        (map (\<lambda>kv. dump_str (fst kv) @ colon ind @ f (snd kv)) kvs)) \<le> n"
  shows "parse_members n acc (join (CHR '','' # brk ind l)
        (map (\<lambda>kv. dump_str (fst kv) @ colon ind @ f (snd kv)) kvs) @ brk ind l' @ CHR ''}'' # rest)
      = Some (JObj (acc @ kvs), rest)"
  using assms
proof (induction kvs arbitrary: acc n)
  case (Cons kv kvs)
  obtain k v where kv: "kv = (k, v)" by fastforce
  let ?sep = "CHR '','' # brk ind l" and ?g = "\<lambda>kv. dump_str (fst kv) @ colon ind @ f (snd kv)"
  define tl where "tl = (if kvs = [] then brk ind l' @ CHR ''}'' # rest
             else ?sep @ join ?sep (map ?g kvs) @ brk ind l' @ CHR ''}'' # rest)"
  have whole: "join ?sep (map ?g (kv # kvs)) @ brk ind l' @ CHR ''}'' # rest
      = CHR 0x22 # concat (map esc_char k) @ CHR 0x22 # colon ind @ f v @ tl"
    by (cases kvs) (auto simp: kv dump_str_def tl_def)
  have len: "length (f v) < n" "kvs \<noteq> [] \<longrightarrow> length (join ?sep (map ?g kvs)) < n"
    using Cons.prems(5) by (cases kvs; auto simp: kv dump_str_def)+
  obtain m where m: "n = Suc m" using len by (cases n) auto
  have sv: "starts_value (f v)" using Cons.prems(2) kv by simp
  have pv: "parse_value m (f v @ tl) = Some (v, tl)"
    using len m by (intro Cons.prems(1)) (auto simp: kv num_end_brk tl_def)
  have up: "AList.update k v acc = acc @ [(k, v)]"
    using Cons.prems(4) kv by (intro update_fresh) auto
  obtain y where sk: "skip_ws (colon ind @ f v @ tl) = CHR '':'' # y" "skip_ws y = f v @ tl"
    using sv by (cases ind) (auto simp: colon_def is_ws_def)
  have first: "parse_members n acc (join ?sep (map ?g (kv # kvs)) @ brk ind l' @ CHR ''}'' # rest)
      = (case skip_ws tl of [] \<Rightarrow> None
         | d # r4 \<Rightarrow> if d = CHR '','' then parse_members m (acc @ [(k, v)]) (skip_ws r4)
                     else if d = CHR ''}'' then Some (JObj (acc @ [(k, v)]), r4) else None)"
    unfolding whole m up [symmetric] by (simp add: parse_members.simps(2) parse_string_dump sk pv)
  show ?case
  proof (cases "kvs = []")
    case True
    then show ?thesis unfolding first by (simp add: kv skip_ws_brk tl_def)
  next
    case False
    have "starts_value (join ?sep (map ?g kvs))"
      using False by (cases kvs) (auto intro!: starts_value_join)
    then have "skip_ws (brk ind l @ join ?sep (map ?g kvs) @ brk ind l' @ CHR ''}'' # rest)
        = join ?sep (map ?g kvs) @ brk ind l' @ CHR ''}'' # rest"
      by (rule skip_ws_brk_value)
    moreover have "parse_members m (acc @ [(k, v)]) (join ?sep (map ?g kvs) @ brk ind l' @ CHR ''}'' # rest)
        = Some (JObj ((acc @ [(k, v)]) @ kvs), rest)"
      using False len m Cons.prems kv by (intro Cons.IH) auto
    ultimately show ?thesis
      unfolding first using False by (simp add: kv tl_def)
  qed
qed simp

lemma parse_items_render:
  assumes val: "\<And>v n rest. v \<in> set vs \<Longrightarrow> length (f v) \<le> n \<Longrightarrow> num_end rest \<Longrightarrow>
      parse_value n (f v @ rest) = Some (v, rest)"
    and st: "\<And>v. v \<in> set vs \<Longrightarrow> starts_value (f v)"
    and ne: "vs \<noteq> []"
    and n: "length (join (CHR '','' # brk ind l) (map f vs)) < n"
  shows "parse_items n acc (join (CHR '','' # brk ind l) (map f vs) @ brk ind l' @ CHR '']'' # rest)
      = Some (JArr (acc @ vs), rest)"
  using assms
proof (induction vs arbitrary: acc n)
  case (Cons v vs)
  let ?sep = "CHR '','' # brk ind l"
  define tl where "tl = (if vs = [] then brk ind l' @ CHR '']'' # rest
             else ?sep @ join ?sep (map f vs) @ brk ind l' @ CHR '']'' # rest)"
  have whole: "join ?sep (map f (v # vs)) @ brk ind l' @ CHR '']'' # rest = f v @ tl"
    by (cases vs) (auto simp: tl_def)
  obtain m where m: "n = Suc m" using Cons.prems(4) by (cases n) auto
  have len: "length (f v) \<le> m" "vs \<noteq> [] \<Longrightarrow> length (join ?sep (map f vs)) < m"
    using Cons.prems(4) m by (cases vs; auto)+
  have pv: "parse_value m (f v @ tl) = Some (v, tl)"
    using len by (intro Cons.prems(1)) (auto simp: num_end_brk tl_def)
  show ?case
  proof (cases "vs = []")
    case True
    then show ?thesis
      unfolding whole m by (simp add: parse_items.simps(2) pv) (simp add: tl_def skip_ws_brk)
  next
    case False
    have "starts_value (join ?sep (map f vs))"
      using False Cons.prems(2) by (cases vs) (auto intro!: starts_value_join)
    then have "skip_ws (brk ind l @ join ?sep (map f vs) @ brk ind l' @ CHR '']'' # rest)
        = join ?sep (map f vs) @ brk ind l' @ CHR '']'' # rest"
      by (rule skip_ws_brk_value)
    moreover have "parse_items m (acc @ [v]) (join ?sep (map f vs) @ brk ind l' @ CHR '']'' # rest)
        = Some (JArr ((acc @ [v]) @ vs), rest)"
      using False len Cons.prems by (intro Cons.IH) auto
    ultimately show ?thesis
      unfolding whole m using False by (simp add: parse_items.simps(2) pv) (simp add: tl_def)
  qed
qed simp

lemma parse_value_atom:
  assumes "parse_number s = Some (v, [])" "num_end rest"
  shows "parse_value (Suc n) (s @ rest) = Some (v, rest)"
proof -
  obtain c t where s: "s = c # t" "c = CHR ''-'' \<or> is_digit c"
    using assms(1) starts_value_number [OF assms(1)] parse_number_Cons
    by (cases s) (auto simp: starts_value_def)
  have "parse_atom (s @ rest) = Some (v, rest)"
    using parse_number_append [OF assms(1), of rest] assms(2) by (intro parse_atom_number) auto
  then show ?thesis
    using s by (auto simp: parse_value.simps(2) is_digit_def)
qed

lemma parse_value_render:
  assumes "wf_json v" "length (render ind lvl v) \<le> n" "num_end rest"
  shows "parse_value n (render ind lvl v @ rest) = Some (v, rest)"
  using assms
proof (induction v arbitrary: lvl n rest)
  case (JInt i)
  then obtain m where "n = Suc m"
    using starts_value_number [OF parse_number_show_int [of i]]
    by (cases n) (auto simp: starts_value_def)
  then show ?case
    using JInt parse_value_atom [OF parse_number_show_int, of rest m i] by simp
next
  case (JFloat l)
  then obtain m where "n = Suc m"
    using starts_value_number [of l] by (cases n) (auto simp: starts_value_def float_lexeme_def)
  then show ?case
    using JFloat parse_value_atom [of l _ rest m] by (simp add: float_lexeme_def)
next
  case (JArr vs)
  show ?case
  proof (cases "vs = []")
    case True
    then show ?thesis using JArr by (cases n) (auto simp: parse_value.simps(2))
  next
    case False
    let ?j = "join (CHR '','' # brk ind (Suc lvl)) (map (render ind (Suc lvl)) vs)"
    obtain m where m: "n = Suc m" "length ?j < m"
      using JArr.prems(2) False by (cases n) auto
    have st: "starts_value (render ind (Suc lvl) v)" if "v \<in> set vs" for v
      using that JArr.prems(1) by (intro starts_value_render) (auto simp: list_all_iff)
    have j: "starts_value ?j"
      using False st by (cases vs) (auto intro!: starts_value_join)
    then obtain c t where c: "?j = c # t" "c \<noteq> CHR '']''"
      by (cases ?j) (auto simp: starts_value_def)
    have "skip_ws (brk ind (Suc lvl) @ ?j @ brk ind lvl @ CHR '']'' # rest)
        = ?j @ brk ind lvl @ CHR '']'' # rest"
      using j by (rule skip_ws_brk_value)
    moreover have "parse_items m [] (?j @ brk ind lvl @ CHR '']'' # rest) = Some (JArr ([] @ vs), rest)"
      using JArr False m st by (intro parse_items_render) (auto simp: list_all_iff)
    ultimately show ?thesis
      using False m(1) c by (simp add: parse_value.simps(2))
  qed
next
  case (JObj kvs)
  show ?case
  proof (cases "kvs = []")
    case True
    then show ?thesis using JObj by (cases n) (auto simp: parse_value.simps(2))
  next
    case False
    let ?g = "\<lambda>kv. dump_str (fst kv) @ colon ind @ render ind (Suc lvl) (snd kv)"
    let ?j = "join (CHR '','' # brk ind (Suc lvl)) (map ?g kvs)"
    obtain m where m: "n = Suc m" "length ?j \<le> m"
      using JObj.prems(2) False by (cases n) auto
    have st: "starts_value (render ind (Suc lvl) v)" if "v \<in> snd ` set kvs" for v
      using that JObj.prems(1) by (intro starts_value_render) (auto simp: list_all_iff)
    have IH: "parse_value n (render ind (Suc lvl) v @ rest) = Some (v, rest)"
      if "v \<in> snd ` set kvs" "length (render ind (Suc lvl) v) \<le> n" "num_end rest" for v n rest
      using that JObj.IH JObj.prems(1) by (fastforce simp: list_all_iff snds.simps)
    obtain t where c: "?j = CHR 0x22 # t"
      using False by (cases kvs; cases "tl kvs") (auto simp: dump_str_def)
    then have "skip_ws (brk ind (Suc lvl) @ ?j @ brk ind lvl @ CHR ''}'' # rest)
        = ?j @ brk ind lvl @ CHR ''}'' # rest"
      by (intro skip_ws_brk_value) (simp add: starts_value_def)
    moreover have "parse_members m [] (?j @ brk ind lvl @ CHR ''}'' # rest) = Some (JObj ([] @ kvs), rest)"
      using JObj.prems(1) False m st IH by (intro parse_members_render) auto
    ultimately show ?thesis
      using False m(1) c by (simp add: parse_value.simps(2))
  qed
next
  case (JStr t)
  then show ?case by (cases n) (auto simp: parse_value.simps(2) dump_str_def parse_string_dump)
next
  case JNull
  then show ?case by (cases n) (auto simp: parse_value.simps(2) parse_atom_def literal_def)
next
  case (JBool b)
  then show ?case by (cases n; cases b) (auto simp: parse_value.simps(2) parse_atom_def literal_def)
qed

lemma skip_ws_all: "list_all is_ws w \<Longrightarrow> skip_ws w = []"
  by (simp add: list_all_iff)

lemma num_end_ws: "list_all is_ws w \<Longrightarrow> num_end w"
  by (cases w) (auto simp: num_end_def num_char_def is_ws_def is_digit_def)

lemma loads_render:
  assumes "wf_json v" "list_all is_ws w"
  shows "json_loads (render ind 0 v @ w) = Some v"
proof -
  have "skip_ws (render ind 0 v @ w) = render ind 0 v @ w"
    using starts_value_render [OF assms(1)] by simp
  moreover have "parse_value (Suc (length (render ind 0 v @ w))) (render ind 0 v @ w) = Some (v, w)"
    using assms num_end_ws by (intro parse_value_render) auto
  ultimately show ?thesis
    using assms(2) by (simp add: json_loads_def list_all_iff)
qed

section \<open>No proper prefix of a dictionary loads\<close>

lemma parse_mono:
  "(\<forall>s x. parse_value n s = Some x \<longrightarrow> parse_value (Suc n) s = Some x) \<and>
   (\<forall>acc s x. parse_members n acc s = Some x \<longrightarrow> parse_members (Suc n) acc s = Some x) \<and>
   (\<forall>acc s x. parse_items n acc s = Some x \<longrightarrow> parse_items (Suc n) acc s = Some x)"
proof (induction n)
  case (Suc n)
  note V = Suc.IH [THEN conjunct1, rule_format]
    and M = Suc.IH [THEN conjunct2, THEN conjunct1, rule_format]
    and I = Suc.IH [THEN conjunct2, THEN conjunct2, rule_format]
  have "parse_value (Suc (Suc n)) s = Some x" if "parse_value (Suc n) s = Some x" for s x
  proof -
    from that obtain c s' where s: "s = c # s'"
      by (auto simp: parse_value_Suc)
    show ?thesis
      using that M [where acc = "[]" and x = x] I [where acc = "[]" and x = x]
      by (cases x) (auto simp: s parse_value_Suc)
  qed
  moreover have "parse_members (Suc (Suc n)) acc s = Some x" if "parse_members (Suc n) acc s = Some x" for acc s x
  proof -
    from that obtain s0 k r1 r2 w r3 d r4 where p: "s = CHR 0x22 # s0" "parse_string s0 = Some (k, r1)"
      "skip_ws r1 = CHR '':'' # r2" "parse_value n (skip_ws r2) = Some (w, r3)" "skip_ws r3 = d # r4"
      "d = CHR '','' \<and> parse_members n (AList.update k w acc) (skip_ws r4) = Some x \<or>
       d = CHR ''}'' \<and> x = (JObj (AList.update k w acc), r4)"
      by (auto simp: parse_members_Suc)
    show ?thesis
      using p V [OF p(4)] M by (cases x) (auto simp: parse_members.simps(2) [of "Suc n"])
  qed
  moreover have "parse_items (Suc (Suc n)) acc s = Some x" if "parse_items (Suc n) acc s = Some x" for acc s x
  proof -
    from that obtain w r3 d r4 where p: "parse_value n s = Some (w, r3)" "skip_ws r3 = d # r4"
      "d = CHR '','' \<and> parse_items n (acc @ [w]) (skip_ws r4) = Some x \<or> d = CHR '']'' \<and> x = (JArr (acc @ [w]), r4)"
      by (auto simp: parse_items_Suc)
    show ?thesis
      using p V [OF p(1)] I by (cases x) (auto simp: parse_items.simps(2) [of "Suc n"])
  qed
  ultimately show ?case by blast
qed simp

lemma parse_value_mono:
  assumes "n \<le> m" "parse_value n s = Some x"
  shows "parse_value m s = Some x"
  using assms by (induction m rule: dec_induct) (use parse_mono in blast)+

lemma loads_prefix:
  assumes v: "wf_json (JObj kvs)" and p: "p @ q = render ind 0 (JObj kvs)" and q: "q \<noteq> []"
  shows "json_loads p = None"
proof (cases p)
  case Nil
  then show ?thesis by (simp add: json_loads_def)
next
  case (Cons c p')
  then have c: "c = CHR ''{''"
    using p by (cases "kvs = []") auto
  have ws: "skip_ws p = p"
    using c Cons by (simp add: is_ws_def)
  have False if pv: "parse_value (Suc (length p)) p = Some (w, r)" for w r
  proof -
    obtain d t where t: "skip_ws p' = d # t" "d = CHR ''}'' \<and> w = JObj [] \<and> r = t
        \<or> d \<noteq> CHR ''}'' \<and> parse_members (length p) [] (d # t) = Some (w, r)"
      using pv Cons c by (auto simp: parse_value_Suc)
    have "parse_value (Suc (length p)) (p @ q) = Some (w, r @ q)"
      using t(2) Cons c skip_ws_append [OF t(1), of q]
        parse_append [THEN conjunct2, THEN conjunct1, rule_format, of "length p" "[]" "d # t" w r q]
      by (auto simp: parse_value_Suc)
    then have "parse_value (Suc (length (p @ q))) (p @ q) = Some (w, r @ q)"
      by (rule parse_value_mono [rotated]) simp
    moreover have "parse_value (Suc (length (p @ q))) (p @ q) = Some (JObj kvs, [])"
      using parse_value_render [OF v, of ind 0 "Suc (length (p @ q))" "[]"] p by (simp add: num_end_def)
    ultimately show False using q by simp
  qed
  then show ?thesis
    using ws by (auto simp: json_loads_def split: option.splits)
qed

section \<open>Two values on one line\<close>

text \<open>After a complete dictionary only white space may follow: a second value is an error.\<close>

lemma loads_extra_data:
  assumes "wf_json (JObj kvs)" "\<not> is_ws c" "\<not> num_char c"
  shows "json_loads (render ind 0 (JObj kvs) @ c # r) = None"
proof -
  let ?s = "render ind 0 (JObj kvs) @ c # r"
  have "skip_ws ?s = ?s"
    using starts_value_render [OF assms(1)] by simp
  moreover have "parse_value (Suc (length ?s)) ?s = Some (JObj kvs, c # r)"
    using assms by (intro parse_value_render) (auto simp: num_end_def)
  ultimately show ?thesis
    using assms(2) by (simp add: json_loads_def)
qed

section \<open>Dumps are printable ASCII\<close>

definition printable :: "char \<Rightarrow> bool" where
  "printable c \<longleftrightarrow> 32 \<le> (of_char c :: nat) \<and> (of_char c :: nat) \<le> 126"

lemma printable_lits [simp]:
  "printable (CHR 0x22)" "printable (CHR '':'')" "printable (CHR '','')" "printable (CHR ''['')"
  "printable (CHR '']'')" "printable (CHR ''{'')" "printable (CHR ''}'')" "printable (CHR ''-'')"
  "printable (CHR ''+'')" "printable (CHR ''.'')" "printable (CHR ''e'')" "printable (CHR ''E'')"
  "printable (CHR ''0'')" "printable (CHR ''n'')" "printable (CHR ''u'')" "printable (CHR ''l'')"
  "printable (CHR ''t'')" "printable (CHR ''r'')" "printable (CHR ''f'')" "printable (CHR ''a'')"
  "printable (CHR ''s'')"
  by (simp_all add: printable_def)

lemma printable_hex_char: "d < 16 \<Longrightarrow> printable (hex_char d)"
  by (simp add: printable_def hex_char_def)

lemma printable_digit: "is_digit c \<Longrightarrow> printable c"
  by (simp add: printable_def is_digit_def)

lemma printable_esc: "list_all printable (esc_char c)"
proof -
  have "(of_char c :: nat) div 16 < 16"
    using of_char_cases_256 [of c] by (simp add: div_less_iff_less_mult)
  then show ?thesis
    by (simp add: esc_char_def Let_def printable_hex_char) (simp add: printable_def)
qed

lemma printable_dump_str: "list_all printable (dump_str s)"
  using printable_esc by (induction s) (auto simp: dump_str_def list_all_iff)

lemma list_all_takeWhile: "list_all P (takeWhile P s)"
  by (auto simp: list_all_iff dest: set_takeWhileD)

lemma printable_parse_number: "parse_number s = Some (JFloat l, r) \<Longrightarrow> list_all printable l"
proof -
  assume "parse_number s = Some (JFloat l, r)"
  then obtain i r1 f r2 x r3 where l: "lex_int s = Some (i, r1)" "lex_frac r1 = (f, r2)"
    "lex_exp r2 = (x, r3)" "l = i @ f @ x"
    by (auto simp: parse_number_def split: option.splits prod.splits if_splits)
  have tw: "list_all printable (takeWhile is_digit y)" for y
    using list_all_takeWhile [of is_digit y] printable_digit by (auto simp: list_all_iff)
  have "list_all printable i"
    using l(1) tw by (auto simp: lex_int_def lex_sign_def printable_digit split: list.splits if_splits)
  moreover have "list_all printable f"
    using l(2) tw by (auto simp: lex_frac_def printable_digit split: list.splits if_splits)
  moreover have "list_all printable x"
    using l(3) tw by (auto simp: lex_exp_def printable_digit Let_def split: list.splits if_splits)
  ultimately show ?thesis using l(4) by simp
qed

lemma list_all_join: "list_all P sep \<Longrightarrow> list_all (list_all P) xs \<Longrightarrow> list_all P (join sep xs)"
  by (induction sep xs rule: join.induct) auto

lemma printable_render: "wf_json v \<Longrightarrow> list_all printable (render None lvl v)"
proof (induction v arbitrary: lvl)
  case (JInt i)
  then show ?case
    using show_nat_digits printable_digit by (auto simp: show_int_def list_all_iff)
next
  case (JFloat l)
  then show ?case
    using printable_parse_number by (auto simp: float_lexeme_def)
next
  case (JArr vs)
  then have "list_all (list_all printable) (map (render None (Suc lvl)) vs)"
    by (auto simp: list_all_iff)
  then show ?case
    by (auto simp: brk_def intro!: list_all_join)
next
  case (JObj kvs)
  then have "list_all (list_all printable)
      (map (\<lambda>kv. dump_str (fst kv) @ colon None @ render None (Suc lvl) (snd kv)) kvs)"
    using printable_dump_str by (fastforce simp: list_all_iff colon_def snds.simps)
  then show ?case
    by (auto simp: brk_def intro!: list_all_join)
qed (auto simp: printable_dump_str)

section \<open>Sorted keys\<close>

lemma wf_sort_keys [simp]: "wf_json (sort_keys v) = wf_json v"
proof (induction v)
  case (JObj kvs)
  have "keys (map (\<lambda>kv. (fst kv, sort_keys (snd kv))) kvs) = keys kvs"
    by simp
  then show ?case
    using JObj by (fastforce simp: list_all_iff distinct_keys_sort snds.simps simp del: map_map)
qed (auto simp: list_all_iff)

lemma insort_key_map: "(\<And>y. g (f y) = g y) \<Longrightarrow> map f (insort_key g x xs) = insort_key g (f x) (map f xs)"
  by (induction xs) auto

lemma sort_key_map: "(\<And>y. g (f y) = g y) \<Longrightarrow> map f (sort_key g xs) = sort_key g (map f xs)"
  by (induction xs) (auto simp: insort_key_map)

lemma sort_keys_idem [simp]: "sort_keys (sort_keys v) = sort_keys v"
proof (induction v)
  case (JObj kvs)
  let ?f = "\<lambda>kv. (fst kv, sort_keys (snd kv))"
  have "map ?f (sort_key fst (map ?f kvs)) = sort_key fst (map ?f (map ?f kvs))"
    by (rule sort_key_map) simp
  also have "map ?f (map ?f kvs) = map ?f kvs"
    using JObj by (fastforce simp: snds.simps)
  finally show ?case
    by (simp add: sort_key_id_if_sorted)
qed (auto simp: map_idI)

lemma canonical_sort_keys [simp]: "canonical (sort_keys v) = canonical v"
  by (simp add: canonical_def)

lemma loads_canonical: "wf_json v \<Longrightarrow> list_all is_ws w \<Longrightarrow> json_loads (canonical v @ w) = Some (sort_keys v)"
  unfolding canonical_def by (rule loads_render) simp_all

lemma loads_indent2: "wf_json v \<Longrightarrow> list_all is_ws w \<Longrightarrow> json_loads (dumps_indent2 v @ w) = Some (sort_keys v)"
  unfolding dumps_indent2_def by (rule loads_render) simp_all

lemma canonical_printable: "wf_json v \<Longrightarrow> list_all printable (canonical v)"
  by (simp add: canonical_def printable_render)

lemma canonical_no_nl: "wf_json v \<Longrightarrow> nl \<notin> set (canonical v)"
  using canonical_printable [of v] by (auto simp: list_all_iff printable_def)

text \<open>The dictionary a dumped dictionary loads as, and the effect of \<open>pop\<close> on it.\<close>

definition sorted_dict :: "json dict \<Rightarrow> json dict" where
  "sorted_dict d = sort_key fst (map (\<lambda>kv. (fst kv, sort_keys (snd kv))) d)"

lemma sort_keys_JObj: "sort_keys (JObj d) = JObj (sorted_dict d)"
  by (simp add: sorted_dict_def)

lemma canonical_sorted_dict [simp]: "canonical (JObj (sorted_dict d)) = canonical (JObj d)"
  using canonical_sort_keys [of "JObj d"] by (simp add: sort_keys_JObj del: sort_keys.simps canonical_sort_keys)

lemma sorted_dict_pop: "k \<notin> set (keys d) \<Longrightarrow> AList.delete k (sorted_dict (d @ [(k, v)])) = sorted_dict d"
  unfolding sorted_dict_def by (simp add: delete_sort_snoc)

lemma map_of_sorted_dict: "distinct (keys d) \<Longrightarrow> map_of (sorted_dict d) k = map_option sort_keys (map_of d k)"
proof -
  assume "distinct (keys d)"
  then have "map_of (sorted_dict d) = map_of (map (\<lambda>kv. (fst kv, sort_keys (snd kv))) d)"
    unfolding sorted_dict_def by (intro map_of_sort_key) (simp add: comp_def)
  moreover have "map_of (map (\<lambda>kv. (fst kv, sort_keys (snd kv))) d) k = map_option sort_keys (map_of d k)"
    by (induction d) auto
  ultimately show ?thesis by simp
qed

lemma loads_dict:
  "wf_json (JObj d) \<Longrightarrow> list_all is_ws w \<Longrightarrow> json_loads (canonical (JObj d) @ w) = Some (JObj (sorted_dict d))"
  using loads_canonical [of "JObj d" w] by (simp add: sort_keys_JObj del: sort_keys.simps)

lemma loads_dict_prefix:
  "wf_json (JObj d) \<Longrightarrow> p @ q = canonical (JObj d) \<Longrightarrow> q \<noteq> [] \<Longrightarrow> json_loads p = None"
  using loads_prefix [of "sorted_dict d" p q None] wf_sort_keys [of "JObj d"]
  by (simp add: canonical_def sort_keys_JObj del: sort_keys.simps wf_sort_keys)

lemma loads_dict_extra:
  "wf_json (JObj d) \<Longrightarrow> json_loads (canonical (JObj d) @ CHR ''{'' # r) = None"
  using loads_extra_data [of "sorted_dict d" "CHR ''{''" None r] wf_sort_keys [of "JObj d"]
  by (simp add: canonical_def sort_keys_JObj is_ws_def num_char_def is_digit_def
      del: sort_keys.simps wf_sort_keys)

lemma canonical_dict_hd: "\<exists>t. canonical (JObj d) = CHR ''{'' # t"
  by (simp add: canonical_def)

section \<open>The fuel is enough\<close>

lemma parse_string_length: "parse_string s = Some (t, r) \<Longrightarrow> length r < length s"
proof (induction s arbitrary: t r rule: length_induct)
  case (1 s)
  then obtain c s' where s: "s = c # s'" by (cases s) auto
  have IH: "length r' < length y" if "push_char x (parse_string y) = Some (t', r')" "length y < length s" for x y t' r'
    using that 1(1) by (auto simp: push_char_def)
  have "length r < length s" if bs: "c = CHR 0x5C"
  proof -
    obtain e s1 where s1: "s' = e # s1" using 1(2) s bs by (auto split: list.splits)
    show ?thesis
    proof (cases "e = CHR ''u''")
      case True
      then obtain h1 h2 h3 h4 s2 x where
        u: "s1 = h1 # h2 # h3 # h4 # s2" "push_char x (parse_string s2) = Some (t, r)"
        using 1(2) s bs s1 by (auto split: list.splits option.splits if_splits)
      then show ?thesis using IH [OF u(2)] s s1 by simp
    next
      case False
      then obtain d where d: "push_char d (parse_string s1) = Some (t, r)"
        using 1(2) s bs s1 by (auto split: option.splits)
      then show ?thesis using IH [OF d] s s1 by simp
    qed
  qed
  moreover have "length r < length s" if "c \<noteq> CHR 0x5C"
    using 1(2) s that IH [of c s' t r] by (auto split: if_splits)
  ultimately show ?case by blast
qed

lemma skip_ws_length: "length (skip_ws s) \<le> length s"
  by (rule length_dropWhile_le)

lemma parse_number_length: "parse_number s = Some (v, r) \<Longrightarrow> length r < length s"
proof -
  assume "parse_number s = Some (v, r)"
  then obtain i r1 f r2 x where l: "lex_int s = Some (i, r1)" "lex_frac r1 = (f, r2)" "lex_exp r2 = (x, r)"
    by (auto simp: parse_number_def split: option.splits prod.splits if_splits)
  have dw: "length (dropWhile is_digit y) \<le> length y" for y by (rule length_dropWhile_le)
  have "length r1 < length s"
    using l(1) dw by (auto simp: lex_int_def lex_sign_def le_imp_less_Suc less_SucI split: list.splits if_splits)
  moreover have "length r2 \<le> length r1"
    using l(2) dw by (auto simp: lex_frac_def le_SucI split: list.splits if_splits)
  moreover have "length r \<le> length r2"
    using l(3) dw by (auto simp: lex_exp_def Let_def le_SucI split: list.splits if_splits)
  ultimately show ?thesis by simp
qed

lemma parse_atom_length: "parse_atom s = Some (v, r) \<Longrightarrow> length r < length s"
  by (cases "parse_number s")
    (auto simp: parse_atom_def literal_Some parse_number_length split: list.splits if_splits dest: parse_number_length)

lemma parse_length:
  "(\<forall>s v r. parse_value n s = Some (v, r) \<longrightarrow> length r < length s) \<and>
   (\<forall>acc s v r. parse_members n acc s = Some (v, r) \<longrightarrow> length r < length s) \<and>
   (\<forall>acc s v r. parse_items n acc s = Some (v, r) \<longrightarrow> length r < length s)"
proof (induction n)
  case (Suc n)
  note V = Suc.IH [THEN conjunct1, rule_format]
    and M = Suc.IH [THEN conjunct2, THEN conjunct1, rule_format]
    and I = Suc.IH [THEN conjunct2, THEN conjunct2, rule_format]
  have sk: "length r < length s" if "skip_ws s = d # r" for s r d
    using skip_ws_length [of s] that by simp
  have "length r < length s" if "parse_value (Suc n) s = Some (v, r)" for s v r
    using that by (auto simp: parse_value_Suc dest!: parse_string_length parse_atom_length M I sk)
  moreover have "length r < length s" if "parse_members (Suc n) acc s = Some (v, r)" for acc s v r
  proof -
    from that obtain s0 k r1 r2 w r3 d r4 where p: "s = CHR 0x22 # s0" "parse_string s0 = Some (k, r1)"
      "skip_ws r1 = CHR '':'' # r2" "parse_value n (skip_ws r2) = Some (w, r3)" "skip_ws r3 = d # r4"
      "parse_members n (AList.update k w acc) (skip_ws r4) = Some (v, r) \<or> r = r4"
      by (auto simp: parse_members_Suc)
    have "length r \<le> length r4"
      using p(6) M [of _ "skip_ws r4" v r] skip_ws_length [of r4] by fastforce
    then show ?thesis
      using p(1) parse_string_length [OF p(2)] sk [OF p(3)] V [OF p(4)] skip_ws_length [of r2] sk [OF p(5)]
      by simp
  qed
  moreover have "length r < length s" if "parse_items (Suc n) acc s = Some (v, r)" for acc s v r
  proof -
    from that obtain w r3 d r4 where p: "parse_value n s = Some (w, r3)" "skip_ws r3 = d # r4"
      "parse_items n (acc @ [w]) (skip_ws r4) = Some (v, r) \<or> r = r4"
      by (auto simp: parse_items_Suc)
    have "length r \<le> length r4"
      using p(3) I [of _ "skip_ws r4" v r] skip_ws_length [of r4] by fastforce
    then show ?thesis
      using V [OF p(1)] sk [OF p(2)] by simp
  qed
  ultimately show ?case by blast
qed simp

lemma parse_members_mono:
  assumes "n \<le> m" "parse_members n acc s = Some x"
  shows "parse_members m acc s = Some x"
  using assms by (induction m rule: dec_induct) (use parse_mono in blast)+

lemma parse_items_mono:
  assumes "n \<le> m" "parse_items n acc s = Some x"
  shows "parse_items m acc s = Some x"
  using assms by (induction m rule: dec_induct) (use parse_mono in blast)+

text \<open>The fuel a successful parse needs is at most the number of characters it consumes.\<close>

lemma parse_fuel:
  "(\<forall>s v r. parse_value n s = Some (v, r) \<longrightarrow> parse_value (length s - length r) s = Some (v, r)) \<and>
   (\<forall>acc s v r. parse_members n acc s = Some (v, r) \<longrightarrow> parse_members (length s - length r) acc s = Some (v, r)) \<and>
   (\<forall>acc s v r. parse_items n acc s = Some (v, r) \<longrightarrow> parse_items (length s - length r) acc s = Some (v, r))"
proof (induction n)
  case (Suc n)
  note V = Suc.IH [THEN conjunct1, rule_format]
    and M = Suc.IH [THEN conjunct2, THEN conjunct1, rule_format]
    and I = Suc.IH [THEN conjunct2, THEN conjunct2, rule_format]
    and lV = parse_length [THEN conjunct1, rule_format]
    and lM = parse_length [THEN conjunct2, THEN conjunct1, rule_format]
    and lI = parse_length [THEN conjunct2, THEN conjunct2, rule_format]
  have sk: "Suc (length r) \<le> length s" if "skip_ws s = d # r" for s r d
    using skip_ws_length [of s] that by simp
  have "parse_value (length s - length r) s = Some (v, r)" if pv: "parse_value (Suc n) s = Some (v, r)" for s v r
  proof -
    obtain k where k: "length s - length r = Suc k"
      using lV [OF pv] by (metis Suc_diff_Suc)
    obtain c s' where s: "s = c # s'"
      using pv by (auto simp: parse_value_Suc)
    have "parse_members k [] (d # t) = Some (v, r)" if "skip_ws s' = d # t" "parse_members n [] (d # t) = Some (v, r)" for d t
      by (rule parse_members_mono [OF _ M [OF that(2)]]) (use k s sk [OF that(1)] in auto)
    moreover have "parse_items k [] (d # t) = Some (v, r)" if "skip_ws s' = d # t" "parse_items n [] (d # t) = Some (v, r)" for d t
      by (rule parse_items_mono [OF _ I [OF that(2)]]) (use k s sk [OF that(1)] in auto)
    ultimately show ?thesis
      using pv s unfolding k by (auto simp: parse_value_Suc)
  qed
  moreover have "parse_members (length s - length r) acc s = Some (v, r)"
    if pm: "parse_members (Suc n) acc s = Some (v, r)" for acc s v r
  proof -
    obtain m where m: "length s - length r = Suc m"
      using lM [OF pm] by (metis Suc_diff_Suc)
    from pm obtain s0 k r1 r2 w r3 d r4 where p: "s = CHR 0x22 # s0" "parse_string s0 = Some (k, r1)"
      "skip_ws r1 = CHR '':'' # r2" "parse_value n (skip_ws r2) = Some (w, r3)" "skip_ws r3 = d # r4"
      "d = CHR '','' \<and> parse_members n (AList.update k w acc) (skip_ws r4) = Some (v, r) \<or>
       d = CHR ''}'' \<and> v = JObj (AList.update k w acc) \<and> r = r4"
      by (auto simp: parse_members_Suc)
    note len = p(1) parse_string_length [OF p(2)] sk [OF p(3)] skip_ws_length [of r2] lV [OF p(4)] sk [OF p(5)]
      skip_ws_length [of r4]
    have r: "length r \<le> length r4"
      using p(6) lM [of n _ "skip_ws r4" v r] skip_ws_length [of r4] by fastforce
    have "parse_value m (skip_ws r2) = Some (w, r3)"
      by (rule parse_value_mono [OF _ V [OF p(4)]]) (use len r m in auto)
    moreover have "parse_members m a (skip_ws r4) = Some (v, r)" if "parse_members n a (skip_ws r4) = Some (v, r)" for a
      by (rule parse_members_mono [OF _ M [OF that]]) (use len r m in auto)
    ultimately show ?thesis
      using p(6) unfolding m by (auto simp: parse_members.simps(2) p(1-3,5))
  qed
  moreover have "parse_items (length s - length r) acc s = Some (v, r)"
    if pi: "parse_items (Suc n) acc s = Some (v, r)" for acc s v r
  proof -
    obtain m where m: "length s - length r = Suc m"
      using lI [OF pi] by (metis Suc_diff_Suc)
    from pi obtain w r3 d r4 where p: "parse_value n s = Some (w, r3)" "skip_ws r3 = d # r4"
      "d = CHR '','' \<and> parse_items n (acc @ [w]) (skip_ws r4) = Some (v, r) \<or>
       d = CHR '']'' \<and> v = JArr (acc @ [w]) \<and> r = r4"
      by (auto simp: parse_items_Suc)
    note len = lV [OF p(1)] sk [OF p(2)] skip_ws_length [of r4]
    have r: "length r \<le> length r4"
      using p(3) lI [of n _ "skip_ws r4" v r] skip_ws_length [of r4] by fastforce
    have "parse_value m s = Some (w, r3)"
      by (rule parse_value_mono [OF _ V [OF p(1)]]) (use len r m in auto)
    moreover have "parse_items m a (skip_ws r4) = Some (v, r)" if "parse_items n a (skip_ws r4) = Some (v, r)" for a
      by (rule parse_items_mono [OF _ I [OF that]]) (use len r m in auto)
    ultimately show ?thesis
      using p(3) unfolding m by (auto simp: parse_items.simps(2) p(2))
  qed
  ultimately show ?case by blast
qed simp

lemma json_loads_fuel:
  assumes "parse_value n (skip_ws s) = Some x"
  shows "parse_value (Suc (length s)) (skip_ws s) = Some x"
proof -
  obtain v r where x: "x = (v, r)" by (cases x)
  let ?k = "length (skip_ws s) - length r"
  have "parse_value ?k (skip_ws s) = Some (v, r)"
    using assms parse_fuel x by blast
  moreover have "?k \<le> Suc (length s)"
    using skip_ws_length [of s] by linarith
  ultimately show ?thesis
    unfolding x by (rule parse_value_mono [rotated])
qed

end
