(* ===== verification/Journal.thy ===== *)
theory Journal
  imports Json_Facts
begin

unbundle bit_operations_syntax

text \<open>
  The durable journal (\<^verbatim>\<open>aegis_shield/core/journal.py\<close>): a base image, an append-only log of
  hash-chained JSON records, an in-memory index of byte offsets and an overlay from block
  numbers to index positions. The files of a namespace directory are values of the record
  \<open>ns\<close>; the object \<open>DurableJournal\<close> is the record \<open>journal\<close>, which owns
  its files. This theory holds the definitions; the theories after it hold the properties.
\<close>

section \<open>Files and objects\<close>

text \<open>
  A namespace directory: \<^verbatim>\<open>metadata.json\<close>, \<^verbatim>\<open>base.img\<close>, \<^verbatim>\<open>journal.jsonl\<close> and the preserved
  torn tails \<^verbatim>\<open>journal.jsonl.torn-<offset>\<close>.
\<close>

record ns =
  f_metadata :: string
  f_base :: bytes
  f_log :: string
  f_sidecars :: "(string \<times> string) list"

record journal_record =
  jr_sequence :: int
  jr_block :: int
  jr_data :: bytes
  jr_previous_hash :: string
  jr_record_hash :: string

record record_index =
  ri_sequence :: int
  ri_block :: int
  ri_blocks :: int
  ri_offset :: nat
  ri_digest :: bytes

record tail_recovery =
  tr_bytes_discarded :: nat
  tr_reason :: string
  tr_sidecar :: string

text \<open>
  \<open>j_snapshots\<close> is the directory \<^verbatim>\<open>snapshots/\<close>: a name maps to the files of the copy, or to
  \<open>None\<close> for a directory whose log was never written because copying failed.
\<close>

record journal =
  j_files :: ns
  j_snapshots :: "(string \<times> ns option) list"
  device_id :: string
  blocks :: int
  block_size :: int
  overlay :: "int \<Rightarrow> nat option"
  index :: "record_index list"
  last_hash :: string
  next_sequence :: int
  log_size :: nat
  recovered_tail :: "tail_recovery option"

definition record_hash_of_index :: "record_index \<Rightarrow> string" where
  "record_hash_of_index e = hex_of (ri_digest e)"

definition last_sequence :: "journal \<Rightarrow> int" where
  "last_sequence j = next_sequence j - 1"

definition check_range :: "int \<Rightarrow> int \<Rightarrow> int \<Rightarrow> unit res" where
  "check_range nb block count =
     (if block < 0 \<or> count < 1 \<or> block + count > nb
      then Inl (ValueError ''block range outside virtual namespace'') else Inr ())"

section \<open>Records\<close>

text \<open>The body \<open>append\<close> builds, its hash, and the line it writes.\<close>

definition record_body :: "int \<Rightarrow> int \<Rightarrow> bytes \<Rightarrow> string \<Rightarrow> int \<Rightarrow> json dict" where
  "record_body start_block count data prev seq =
     [(''block'', JInt start_block), (''blocks'', JInt count), (''crc32'', JInt (crc32 data)),
      (''data_b64'', JStr (b64encode data)), (''previous_hash'', JStr prev), (''sequence'', JInt seq)]"

definition record_hash :: "int \<Rightarrow> int \<Rightarrow> bytes \<Rightarrow> string \<Rightarrow> int \<Rightarrow> string" where
  "record_hash start_block count data prev seq =
     sha256_hex (canonical (JObj (record_body start_block count data prev seq)))"

definition record_line :: "int \<Rightarrow> int \<Rightarrow> bytes \<Rightarrow> string \<Rightarrow> int \<Rightarrow> string" where
  "record_line start_block count data prev seq =
     canonical (JObj (record_body start_block count data prev seq
       @ [(''record_hash'', JStr (record_hash start_block count data prev seq))])) @ [nl]"

text \<open>
  The fields \<open>_replay\<close> takes from one line; \<open>None\<close> when any of these steps raises, which
  the source treats alike.
\<close>

record parsed_record =
  pr_value :: "json dict"
  pr_stored_hash :: json
  pr_data :: bytes
  pr_previous_hash :: json
  pr_sequence :: int
  pr_crc :: int
  pr_blocks :: int
  pr_block :: int

definition res_option :: "'a res \<Rightarrow> 'a option" where
  "res_option r = (case r of Inl _ \<Rightarrow> None | Inr x \<Rightarrow> Some x)"

definition b64_field :: "json dict \<Rightarrow> bytes option" where
  "b64_field d = (case map_of d ''data_b64'' of Some (JStr t) \<Rightarrow> b64decode t | _ \<Rightarrow> None)"

definition parse_record :: "string \<Rightarrow> parsed_record option" where
  "parse_record raw =
     (case json_loads raw of
        Some (JObj d) \<Rightarrow>
          (let val = AList.delete ''record_hash'' d in
           case (map_of d ''record_hash'', b64_field val, map_of val ''previous_hash'',
                 res_option (dict_int val ''sequence''), res_option (dict_int val ''crc32''),
                 res_option (py_int (case map_of val ''blocks'' of None \<Rightarrow> JInt 1 | Some b \<Rightarrow> b)),
                 res_option (dict_int val ''block'')) of
             (Some stored, Some data, Some prev, Some seq, Some crc, Some n, Some block) \<Rightarrow>
               Some \<lparr>pr_value = val, pr_stored_hash = stored, pr_data = data, pr_previous_hash = prev,
                     pr_sequence = seq, pr_crc = crc, pr_blocks = n, pr_block = block\<rparr>
           | _ \<Rightarrow> None)
      | _ \<Rightarrow> None)"

section \<open>Replay\<close>

text \<open>The locals of \<open>_replay\<close> and the two fields it fills in as it goes.\<close>

record replay_state =
  expected_hash :: string
  expected_sequence :: int
  rs_offset :: nat
  line_number :: nat
  rs_index :: "record_index list"
  rs_overlay :: "int \<Rightarrow> nat option"

definition replay_init :: replay_state where
  "replay_init = \<lparr>expected_hash = zero_hash, expected_sequence = 1, rs_offset = 0, line_number = 0,
                  rs_index = [], rs_overlay = Map.empty\<rparr>"

definition corrupt :: "replay_state \<Rightarrow> string \<Rightarrow> 'a res" where
  "corrupt st reason = Inl (JournalCorruptionError reason (int (line_number st)))"

definition check_record :: "int \<Rightarrow> int \<Rightarrow> replay_state \<Rightarrow> parsed_record \<Rightarrow> unit res" where
  "check_record nb bs st p =
     (if pr_stored_hash p \<noteq> JStr (sha256_hex (canonical (JObj (pr_value p)))) then corrupt st ''hash mismatch''
      else if pr_previous_hash p \<noteq> JStr (expected_hash st) then corrupt st ''chain mismatch''
      else if pr_sequence p \<noteq> expected_sequence st then corrupt st ''sequence mismatch''
      else if crc32 (pr_data p) \<noteq> pr_crc p then corrupt st ''CRC mismatch''
      else if pr_blocks p < 1 \<or> int (length (pr_data p)) \<noteq> pr_blocks p * bs
        then corrupt st ''record size mismatch''
      else check_range nb (pr_block p) (pr_blocks p))"

text \<open>\<open>for block_offset in range(count): overlay[block + block_offset] = position\<close>.\<close>

fun claim_blocks :: "(int \<Rightarrow> nat option) \<Rightarrow> int list \<Rightarrow> nat \<Rightarrow> (int \<Rightarrow> nat option)" where
  "claim_blocks ov [] pos = ov"
| "claim_blocks ov (b # bs) pos = claim_blocks (ov(b \<mapsto> pos)) bs pos"

definition block_list :: "int \<Rightarrow> int \<Rightarrow> int list" where
  "block_list block count = [block .. block + count - 1]"

definition accept_record :: "nat \<Rightarrow> replay_state \<Rightarrow> parsed_record \<Rightarrow> replay_state" where
  "accept_record line_offset st p =
     (let h = (case pr_stored_hash p of JStr s \<Rightarrow> s | _ \<Rightarrow> []);
          pos = length (rs_index st)
      in st\<lparr>rs_index := rs_index st @
              [\<lparr>ri_sequence = expected_sequence st, ri_block = pr_block p, ri_blocks = pr_blocks p,
                ri_offset = line_offset, ri_digest = (case fromhex h of Some b \<Rightarrow> b | None \<Rightarrow> [])\<rparr>],
            rs_overlay := claim_blocks (rs_overlay st) (block_list (pr_block p) (pr_blocks p)) pos,
            expected_hash := h,
            expected_sequence := expected_sequence st + 1\<rparr>)"

text \<open>
  The loop over \<open>readline()\<close>. It returns the state at the end of the file, or, with
  \<open>True\<close>, the state before a final line that is structurally incomplete.
\<close>

fun replay_loop :: "int \<Rightarrow> int \<Rightarrow> nat \<Rightarrow> string list \<Rightarrow> replay_state \<Rightarrow> (replay_state \<times> bool) res" where
  "replay_loop nb bs file_size [] st = Inr (st, False)"
| "replay_loop nb bs file_size (raw # rest) st =
     (let line_offset = rs_offset st;
          st1 = st\<lparr>rs_offset := line_offset + length raw, line_number := Suc (line_number st)\<rparr>
      in if strip raw = [] then replay_loop nb bs file_size rest st1
         else (case parse_record raw of
             None \<Rightarrow>
               if file_size \<le> rs_offset st1 then Inr (st1\<lparr>rs_offset := line_offset\<rparr>, True)
               else corrupt st1 ''invalid journal record''
           | Some p \<Rightarrow>
               bind_res (check_record nb bs st1 p)
                 (\<lambda>_. replay_loop nb bs file_size rest (accept_record line_offset st1 p))))"

definition discard_torn_tail :: "nat \<Rightarrow> string \<Rightarrow> ns \<Rightarrow> tail_recovery \<times> ns" where
  "discard_torn_tail off reason fs =
     (let torn = drop off (f_log fs);
          sidecar = ''journal.jsonl.torn-'' @ show_nat off
      in (\<lparr>tr_bytes_discarded = length torn, tr_reason = reason, tr_sidecar = sidecar\<rparr>,
          fs\<lparr>f_sidecars := AList.update sidecar torn (f_sidecars fs), f_log := take off (f_log fs)\<rparr>))"

text \<open>The assignments after the loop, and the truncation of a torn tail the loop asked for.\<close>

definition finish_replay :: "journal \<Rightarrow> replay_state \<times> bool \<Rightarrow> journal" where
  "finish_replay j r =
     (case r of (st, torn) \<Rightarrow>
        let j1 = j\<lparr>overlay := rs_overlay st, index := rs_index st, last_hash := expected_hash st,
                   next_sequence := expected_sequence st, log_size := rs_offset st\<rparr>
        in if torn
           then (case discard_torn_tail (rs_offset st) ''incomplete final record'' (j_files j) of
                   (tr, fs) \<Rightarrow> j1\<lparr>j_files := fs, recovered_tail := Some tr\<rparr>)
           else j1)"

definition replay :: "journal \<Rightarrow> journal res" where
  "replay j =
     (let log = f_log (j_files j) in
      bind_res (replay_loop (blocks j) (block_size j) (length log) (lines_of log) replay_init)
        (\<lambda>r. Inr (finish_replay j r)))"

section \<open>Opening and provisioning\<close>

definition journal_format :: string where
  "journal_format = ''aegis-reference-journal-v1''"

definition read_metadata :: "string \<Rightarrow> (string \<times> int \<times> int) res" where
  "read_metadata text =
     (case json_loads text of
        None \<Rightarrow> Inl (ValueError ''metadata is not JSON'')
      | Some (JObj d) \<Rightarrow>
          if map_of d ''format'' \<noteq> Some (JStr journal_format) then Inl (ValueError ''unsupported journal format'')
          else bind_res (dict_item d ''device_id'') (\<lambda>dev.
                 bind_res (case py_str dev of Some s \<Rightarrow> Inr s | None \<Rightarrow> Inl (TypeError ''device_id'')) (\<lambda>device.
                 bind_res (dict_int d ''blocks'') (\<lambda>nb.
                 bind_res (dict_int d ''block_size'') (\<lambda>bs. Inr (device, nb, bs)))))
      | Some _ \<Rightarrow> Inl (AttributeError ''get''))"

definition open_journal :: "ns \<Rightarrow> (string \<times> ns option) list \<Rightarrow> journal res" where
  "open_journal fs snaps =
     bind_res (read_metadata (f_metadata fs)) (\<lambda>(device, nb, bs).
       if int (length (f_base fs)) \<noteq> nb * bs
       then Inl (JournalCorruptionError ''base image size does not match metadata'' 0)
       else replay \<lparr>j_files = fs, j_snapshots = snaps, device_id = device, blocks = nb, block_size = bs,
                    overlay = Map.empty, index = [], last_hash = zero_hash, next_sequence = 1,
                    log_size = 0, recovered_tail = None\<rparr>)"

definition metadata_json :: "string \<Rightarrow> int \<Rightarrow> int \<Rightarrow> json" where
  "metadata_json device nb bs =
     JObj [(''format'', JStr journal_format), (''device_id'', JStr device),
           (''blocks'', JInt nb), (''block_size'', JInt bs)]"

text \<open>\<open>dir_exists\<close>: the target directory is there already; \<open>fresh_uuid\<close>: what \<open>uuid4()\<close> returns.\<close>

definition provision :: "bool \<Rightarrow> string \<Rightarrow> int \<Rightarrow> int \<Rightarrow> string option \<Rightarrow> journal res" where
  "provision dir_exists fresh_uuid nb bs dev =
     (if nb < 1 \<or> bs < 512 \<or> bs AND (bs - 1) \<noteq> 0
      then Inl (ValueError ''blocks must be positive and block_size a power of two >= 512'')
      else if dir_exists then Inl (FileExistsError ''namespace'')
      else (let device = (case dev of Some d \<Rightarrow> if d = [] then fresh_uuid else d | None \<Rightarrow> fresh_uuid) in
            open_journal \<lparr>f_metadata = canonical (metadata_json device nb bs) @ [nl],
                          f_base = replicate (nat (nb * bs)) 0, f_log = [], f_sidecars = []\<rparr> []))"

section \<open>Reading\<close>

text \<open>
  \<open>_payload_at\<close> reads the line at the indexed offset back from the file and checks it
  again before it hands the payload out.
\<close>

definition payload_at :: "journal \<Rightarrow> nat \<Rightarrow> bytes res" where
  "payload_at j position =
     (if length (index j) \<le> position then Inl IndexError
      else (let entry = index j ! position;
                raw = readline (drop (ri_offset entry) (f_log (j_files j)));
                parsed = (case json_loads raw of
                            Some (JObj d) \<Rightarrow> map_option (\<lambda>data. (d, data)) (b64_field d)
                          | _ \<Rightarrow> None)
            in case parsed of
                 None \<Rightarrow> Inl (JournalCorruptionError ''journal record could not be read back'' (ri_sequence entry))
               | Some (d, data) \<Rightarrow>
                   bind_res (dict_int d ''sequence'') (\<lambda>seq.
                     if seq \<noteq> ri_sequence entry
                     then Inl (JournalCorruptionError ''journal record is not at its indexed offset'' (ri_sequence entry))
                     else bind_res (dict_int d ''crc32'') (\<lambda>crc.
                       if crc32 data \<noteq> crc
                       then Inl (JournalCorruptionError ''CRC mismatch reading record'' (ri_sequence entry))
                       else if int (length data) \<noteq> ri_blocks entry * block_size j
                       then Inl (JournalCorruptionError ''record has unexpected length'' (ri_sequence entry))
                       else Inr data))))"

definition block_from :: "journal \<Rightarrow> nat \<Rightarrow> int \<Rightarrow> bytes res" where
  "block_from j position block =
     (if length (index j) \<le> position then Inl IndexError
      else bind_res (payload_at j position) (\<lambda>data.
        let start = (block - ri_block (index j ! position)) * block_size j
        in Inr (py_slice data start (start + block_size j))))"

definition previous_hash_at :: "journal \<Rightarrow> nat \<Rightarrow> string res" where
  "previous_hash_at j position =
     (if position = 0 then Inr zero_hash
      else if length (index j) < position then Inl IndexError
      else Inr (record_hash_of_index (index j ! (position - 1))))"

definition record_at :: "journal \<Rightarrow> nat \<Rightarrow> journal_record res" where
  "record_at j position =
     (if length (index j) \<le> position then Inl IndexError
      else (let entry = index j ! position in
            bind_res (payload_at j position) (\<lambda>data.
            bind_res (previous_hash_at j position) (\<lambda>prev.
              Inr \<lparr>jr_sequence = ri_sequence entry, jr_block = ri_block entry, jr_data = data,
                   jr_previous_hash = prev,
                   jr_record_hash = record_hash_of_index entry\<rparr>))))"

fun map_res :: "('a \<Rightarrow> 'b res) \<Rightarrow> 'a list \<Rightarrow> 'b list res" where
  "map_res f [] = Inr []"
| "map_res f (x # xs) = bind_res (f x) (\<lambda>y. bind_res (map_res f xs) (\<lambda>ys. Inr (y # ys)))"

text \<open>\<open>list(journal.iter_records())\<close>.\<close>

definition iter_records :: "journal \<Rightarrow> journal_record list res" where
  "iter_records j = map_res (record_at j) [0 ..< length (index j)]"

text \<open>
  The reverse scan of a point-in-time read: the newest position below \<open>p\<close> whose record is
  not after the target sequence and covers the block.
\<close>

fun scan_back :: "record_index list \<Rightarrow> int \<Rightarrow> int \<Rightarrow> nat \<Rightarrow> nat option" where
  "scan_back idx at_sequence current 0 = None"
| "scan_back idx at_sequence current (Suc p) =
     (let entry = idx ! p in
      if at_sequence < ri_sequence entry then scan_back idx at_sequence current p
      else if ri_block entry \<le> current \<and> current < ri_block entry + ri_blocks entry then Some p
      else scan_back idx at_sequence current p)"

definition base_block :: "int \<Rightarrow> bytes \<Rightarrow> int \<Rightarrow> bytes" where
  "base_block bs base current = take (nat bs) (drop (nat (current * bs)) base)"

definition read_block :: "journal \<Rightarrow> int option \<Rightarrow> int \<Rightarrow> bytes res" where
  "read_block j at_sequence current =
     (case (case at_sequence of
              None \<Rightarrow> overlay j current
            | Some n \<Rightarrow> scan_back (index j) n current (length (index j))) of
        Some position \<Rightarrow> block_from j position current
      | None \<Rightarrow> Inr (base_block (block_size j) (f_base (j_files j)) current))"

definition journal_read :: "journal \<Rightarrow> int \<Rightarrow> int \<Rightarrow> int option \<Rightarrow> bytes res" where
  "journal_read j block count at_sequence =
     bind_res (check_range (blocks j) block count) (\<lambda>_.
       if (case at_sequence of None \<Rightarrow> False | Some n \<Rightarrow> \<not> (0 \<le> n \<and> n \<le> last_sequence j))
       then Inl (ValueError ''invalid sequence'')
       else bind_res (map_res (read_block j at_sequence) (block_list block count)) (\<lambda>parts. Inr (concat parts)))"

section \<open>Appending\<close>

definition journal_append :: "int \<Rightarrow> bytes \<Rightarrow> (journal, int) oper" where
  "journal_append start_block data j =
     (if data = [] then (Inl (ValueError ''write must be a non-empty multiple of block_size''), j)
      else if block_size j = 0 then (Inl ZeroDivisionError, j)
      else if int (length data) mod block_size j \<noteq> 0
      then (Inl (ValueError ''write must be a non-empty multiple of block_size''), j)
      else (let count = int (length data) div block_size j in
            case check_range (blocks j) start_block count of
              Inl e \<Rightarrow> (Inl e, j)
            | Inr _ \<Rightarrow>
                (let h = record_hash start_block count data (last_hash j) (next_sequence j);
                     serialized = record_line start_block count data (last_hash j) (next_sequence j);
                     position = length (index j)
                 in (Inr (next_sequence j),
                     j\<lparr>j_files := (j_files j)\<lparr>f_log := f_log (j_files j) @ serialized\<rparr>,
                       log_size := log_size j + length serialized,
                       index := index j @
                         [\<lparr>ri_sequence = next_sequence j, ri_block = start_block, ri_blocks = count,
                           ri_offset = log_size j, ri_digest = (case fromhex h of Some b \<Rightarrow> b | None \<Rightarrow> [])\<rparr>],
                       overlay := claim_blocks (overlay j) (block_list start_block count) position,
                       last_hash := h,
                       next_sequence := next_sequence j + 1\<rparr>))))"

definition append_block :: "int \<Rightarrow> bytes \<Rightarrow> (journal, int) oper" where
  "append_block block data j =
     (if int (length data) \<noteq> block_size j
      then (Inl (ValueError ''write must contain exactly one logical block''), j)
      else journal_append block data j)"

section \<open>Snapshots and compaction\<close>

definition name_alphabet :: string where
  "name_alphabet = ''abcdefghijklmnopqrstuvwxyzABCDEFGHIJKLMNOPQRSTUVWXYZ0123456789-_''"

text \<open>The lines \<open>snapshot\<close> keeps: up to the first record after the target sequence.\<close>

fun kept_lines :: "int \<Rightarrow> string list \<Rightarrow> string res" where
  "kept_lines at_sequence [] = Inr []"
| "kept_lines at_sequence (raw # rest) =
     (if strip raw = [] then kept_lines at_sequence rest
      else (case json_loads raw of
          Some (JObj d) \<Rightarrow>
            bind_res (dict_int d ''sequence'') (\<lambda>seq.
              if at_sequence < seq then Inr []
              else bind_res (kept_lines at_sequence rest) (\<lambda>ls.
                Inr ((if last raw = nl then raw else raw @ [nl]) @ ls)))
        | Some _ \<Rightarrow> Inl (TypeError ''record is not a dictionary'')
        | None \<Rightarrow> Inl (ValueError ''record is not JSON'')))"

definition put_snapshot :: "string \<Rightarrow> ns option \<Rightarrow> journal \<Rightarrow> journal" where
  "put_snapshot name fs j = j\<lparr>j_snapshots := AList.update name fs (j_snapshots j)\<rparr>"

definition snapshot :: "string \<Rightarrow> int option \<Rightarrow> (journal, string) oper" where
  "snapshot name at_sequence j =
     (if name = [] \<or> \<not> list_all (\<lambda>c. c \<in> set name_alphabet) name
      then (Inl (ValueError ''snapshot name may contain only letters, digits, dash, and underscore''), j)
      else if (case at_sequence of None \<Rightarrow> False | Some n \<Rightarrow> \<not> (0 \<le> n \<and> n \<le> last_sequence j))
      then (Inl (ValueError ''invalid snapshot sequence''), j)
      else if map_of (j_snapshots j) name \<noteq> None then (Inl (FileExistsError name), j)
      else (let fs = j_files j in
            case (case at_sequence of
                    None \<Rightarrow> Inr (f_log fs)
                  | Some n \<Rightarrow> kept_lines n (lines_of (f_log fs))) of
              Inl e \<Rightarrow> (Inl e, put_snapshot name None j)
            | Inr log \<Rightarrow>
                (let copy = \<lparr>f_metadata = f_metadata fs, f_base = f_base fs, f_log = log, f_sidecars = []\<rparr> in
                 case open_journal copy [] of
                   Inl e \<Rightarrow> (Inl e, put_snapshot name (Some copy) j)
                 | Inr opened \<Rightarrow> (Inr name, put_snapshot name (Some (j_files opened)) j))))"

definition compact_chunk_blocks :: int where
  "compact_chunk_blocks = 256"

text \<open>
  \<open>for start in range(0, blocks, chunk): write(read(start, min(chunk, blocks - start)))\<close>,
  as recursion on the number of chunks that are left.
\<close>

fun materialise :: "journal \<Rightarrow> nat \<Rightarrow> int \<Rightarrow> bytes res" where
  "materialise j 0 start = Inr []"
| "materialise j (Suc n) start =
     (if blocks j \<le> start then Inr []
      else bind_res (journal_read j start (min compact_chunk_blocks (blocks j - start)) None) (\<lambda>part.
        bind_res (materialise j n (start + compact_chunk_blocks)) (\<lambda>rest. Inr (part @ rest))))"

definition journal_compact :: "string \<Rightarrow> (journal, unit) oper" where
  "journal_compact snapshot_name = bind_op (snapshot snapshot_name None) (\<lambda>_ j.
     case materialise j (nat (blocks j)) 0 of
       Inl e \<Rightarrow> (Inl e, j)
     | Inr base \<Rightarrow>
         (Inr (), j\<lparr>j_files := (j_files j)\<lparr>f_base := base, f_log := []\<rparr>,
                    overlay := Map.empty, index := [], last_hash := zero_hash, next_sequence := 1,
                    log_size := 0\<rparr>))"

end
