(* ===== verification/Hash_Chain.thy ===== *)
theory Hash_Chain
  imports Json_Facts
begin

text \<open>
  The hash chain that the journal and the audit log share: a record is a dictionary, its
  digest is the SHA-256 of the canonical text of the dictionary, and every record carries the
  digest of the one before it. The locale \<open>hash_chain\<close> is the interface of a chained file:
  two chains with the same head have the same records unless two of the texts that were
  hashed collide.
\<close>

section \<open>Loaded values\<close>

text \<open>No dictionary that \<open>json.loads\<close> returns has a key twice.\<close>

fun dup_free :: "json \<Rightarrow> bool" where
  "dup_free (JArr vs) = list_all dup_free vs"
| "dup_free (JObj kvs) = (distinct (keys kvs) \<and> list_all (\<lambda>kv. dup_free (snd kv)) kvs)"
| "dup_free _ = True"

text \<open>Every float literal in the value has the form \<open>json.dumps\<close> writes.\<close>

fun plain_floats :: "json \<Rightarrow> bool" where
  "plain_floats (JFloat l) = float_lexeme l"
| "plain_floats (JArr vs) = list_all plain_floats vs"
| "plain_floats (JObj kvs) = list_all (\<lambda>kv. plain_floats (snd kv)) kvs"
| "plain_floats _ = True"

lemma wf_json_iff: "wf_json v \<longleftrightarrow> dup_free v \<and> plain_floats v"
  by (induction v) (fastforce simp: list_all_iff)+

lemma update_keeps_all:
  "P v \<Longrightarrow> list_all (\<lambda>kv. P (snd kv)) d \<Longrightarrow> list_all (\<lambda>kv. P (snd kv)) (AList.update k v d)"
  by (induction d) auto

lemma delete_keeps_all: "list_all P d \<Longrightarrow> list_all P (AList.delete k d)"
  by (auto simp: AList.delete_eq list_all_iff)

lemma dup_free_atom: "parse_atom s = Some (v, r) \<Longrightarrow> dup_free v"
  by (cases "parse_number s")
    (auto simp: parse_atom_def literal_def parse_number_def split: list.splits if_splits option.splits prod.splits)

lemma parse_dup_free:
  "(\<forall>s v r. parse_value n s = Some (v, r) \<longrightarrow> dup_free v) \<and>
   (\<forall>acc s v r. dup_free (JObj acc) \<longrightarrow> parse_members n acc s = Some (v, r) \<longrightarrow> dup_free v) \<and>
   (\<forall>acc s v r. list_all dup_free acc \<longrightarrow> parse_items n acc s = Some (v, r) \<longrightarrow> dup_free v)"
proof (induction n)
  case (Suc n)
  note V = Suc.IH [THEN conjunct1, rule_format]
    and M = Suc.IH [THEN conjunct2, THEN conjunct1, rule_format]
    and I = Suc.IH [THEN conjunct2, THEN conjunct2, rule_format]
  have "dup_free v" if "parse_value (Suc n) s = Some (v, r)" for s v r
    using that M [of "[]"] I [of "[]"] by (auto simp: parse_value_Suc dest: dup_free_atom)
  moreover have "dup_free v" if acc: "dup_free (JObj acc)" and "parse_members (Suc n) acc s = Some (v, r)" for acc s v r
  proof -
    from that obtain k w r2 r3 r4 where p: "parse_value n (skip_ws r2) = Some (w, r3)"
      "parse_members n (AList.update k w acc) (skip_ws r4) = Some (v, r) \<or> v = JObj (AList.update k w acc)"
      by (auto simp: parse_members_Suc) blast+
    have "dup_free (JObj (AList.update k w acc))"
      using acc V [OF p(1)] by (simp add: AList.distinct_update update_keeps_all)
    then show ?thesis using p(2) M by blast
  qed
  moreover have "dup_free v" if acc: "list_all dup_free acc" and "parse_items (Suc n) acc s = Some (v, r)" for acc s v r
  proof -
    from that obtain w r3 r4 where p: "parse_value n s = Some (w, r3)"
      "parse_items n (acc @ [w]) (skip_ws r4) = Some (v, r) \<or> v = JArr (acc @ [w])"
      by (auto simp: parse_items_Suc)
    then show ?thesis using acc V [OF p(1)] I [of "acc @ [w]"] by auto
  qed
  ultimately show ?case by blast
qed simp

lemma loads_dup_free: "json_loads s = Some v \<Longrightarrow> dup_free v"
  using parse_dup_free by (auto simp: json_loads_def split: option.splits if_splits) blast

lemma dup_free_delete: "dup_free (JObj d) \<Longrightarrow> dup_free (JObj (AList.delete k d))"
  by (simp add: AList.distinct_delete delete_keeps_all)

lemma wf_json_delete: "wf_json (JObj d) \<Longrightarrow> wf_json (JObj (AList.delete k d))"
  by (simp add: AList.distinct_delete delete_keeps_all)

text \<open>The canonical text determines what the dictionary maps its keys to.\<close>

lemma canonical_inject:
  assumes "wf_json (JObj d)" "wf_json (JObj e)" "canonical (JObj d) = canonical (JObj e)"
  shows "sorted_dict d = sorted_dict e"
  using loads_dict [OF assms(1), of "[]"] loads_dict [OF assms(2), of "[]"] assms(3) by simp

section \<open>Chains\<close>

locale hash_chain =
  fixes txtof :: "'r \<Rightarrow> string" and prev :: "'r \<Rightarrow> string" and content :: "'r \<Rightarrow> 'c" and ok :: "'r \<Rightarrow> bool"
  assumes text_content: "ok r \<Longrightarrow> ok q \<Longrightarrow> txtof r = txtof q \<Longrightarrow> content r = content q"
    and text_prev: "ok r \<Longrightarrow> ok q \<Longrightarrow> txtof r = txtof q \<Longrightarrow> prev r = prev q"
begin

fun chain :: "string \<Rightarrow> 'r list \<Rightarrow> bool" where
  "chain h [] = True"
| "chain h (r # rs) = (prev r = h \<and> chain (sha256_hex (txtof r)) rs)"

fun head :: "string \<Rightarrow> 'r list \<Rightarrow> string" where
  "head h [] = h"
| "head h (r # rs) = head (sha256_hex (txtof r)) rs"

lemma head_snoc [simp]: "head h (rs @ [r]) = sha256_hex (txtof r)"
  by (induction rs arbitrary: h) auto

lemma chain_snoc [simp]: "chain h (rs @ [r]) \<longleftrightarrow> chain h rs \<and> prev r = head h rs"
  by (induction rs arbitrary: h) auto

lemma chain_append: "chain h (rs @ qs) \<longleftrightarrow> chain h rs \<and> chain (head h rs) qs"
  by (induction rs arbitrary: h) auto

text \<open>
  Two chains with the same head. Either their lengths agree, or no text that was hashed may
  have the digest the chain starts from.
\<close>

lemma chain_unique:
  assumes "chain h rs" "chain h qs" "head h rs = head h qs"
    and "length rs = length qs \<or> h \<notin> sha256_hex ` txtof ` set (rs @ qs)"
    and "inj_on sha256_hex (txtof ` set (rs @ qs))" "list_all ok rs" "list_all ok qs"
  shows "map content rs = map content qs"
  using assms
proof (induction rs arbitrary: qs rule: rev_induct)
  case Nil
  then show ?case
    by (cases qs rule: rev_cases) auto
next
  case (snoc r rs)
  show ?case
  proof (cases qs rule: rev_cases)
    case Nil
    then show ?thesis using snoc.prems by auto
  next
    case (snoc qs' q)
    have "sha256_hex (txtof r) = sha256_hex (txtof q)"
      using snoc snoc.prems(3) by simp
    then have eq: "txtof r = txtof q"
      using snoc.prems(5) snoc by (auto dest: inj_onD)
    have okrq: "ok r" "ok q" using snoc.prems(6,7) snoc by auto
    have "map content rs = map content qs'"
    proof (rule snoc.IH)
      show "inj_on sha256_hex (txtof ` set (rs @ qs'))"
        using snoc.prems(5) snoc by (auto intro: inj_on_subset)
      show "length rs = length qs' \<or> h \<notin> sha256_hex ` txtof ` set (rs @ qs')"
        using snoc.prems(4) snoc by auto
      show "head h rs = head h qs'"
        using snoc.prems(1,2) snoc text_prev [OF okrq eq] by simp
    qed (use snoc.prems snoc in auto)
    then show ?thesis
      using snoc text_content [OF okrq eq] by simp
  qed
qed

lemma last_content:
  assumes "rs \<noteq> []" "qs \<noteq> []" "head h rs = head h qs" "inj_on sha256_hex (txtof ` set (rs @ qs))"
    and "list_all ok rs" "list_all ok qs"
  shows "content (last rs) = content (last qs)"
proof -
  obtain rs' r where r: "rs = rs' @ [r]" using assms(1) by (cases rs rule: rev_cases) auto
  obtain qs' q where q: "qs = qs' @ [q]" using assms(2) by (cases qs rule: rev_cases) auto
  have "txtof r = txtof q"
    using assms(3,4) r q by (auto dest: inj_onD)
  then show ?thesis using text_content [of r q] assms(5,6) r q by simp
qed

end

text \<open>
  The two chained files use the same records: the dictionary that was hashed, with the digest
  of the record before it under the key \<open>previous_hash\<close>.
\<close>

definition record_text :: "json dict \<Rightarrow> string" where
  "record_text d = canonical (JObj d)"

fun str_or_empty :: "json option \<Rightarrow> string" where
  "str_or_empty (Some (JStr s)) = s"
| "str_or_empty _ = []"

definition record_prev :: "json dict \<Rightarrow> string" where
  "record_prev d = str_or_empty (map_of d ''previous_hash'')"

definition record_ok :: "json dict \<Rightarrow> bool" where
  "record_ok d \<longleftrightarrow> wf_json (JObj d)"

lemma str_or_empty_sort: "str_or_empty (map_option sort_keys v) = str_or_empty v"
  by (cases v rule: str_or_empty.cases) simp_all

lemma record_prev_sorted: "record_ok d \<Longrightarrow> record_prev (sorted_dict d) = record_prev d"
  unfolding record_prev_def by (subst map_of_sorted_dict) (simp_all only: str_or_empty_sort record_ok_def wf_json.simps)

interpretation rec: hash_chain record_text record_prev sorted_dict record_ok
proof
  fix r q
  assume ok: "record_ok r" "record_ok q" and eq: "record_text r = record_text q"
  show s: "sorted_dict r = sorted_dict q"
    using ok eq unfolding record_ok_def record_text_def by (rule canonical_inject)
  show "record_prev r = record_prev q"
    using s record_prev_sorted [OF ok(1)] record_prev_sorted [OF ok(2)] by simp
qed

end
