(* ===== verification/Journal_Replay.thy ===== *)
theory Journal_Replay
  imports Journal Hash_Chain
begin

text \<open>
  What a log means. A history is a list of writes; \<open>log_lines\<close> is the text that appending
  them one after the other leaves in \<^verbatim>\<open>journal.jsonl\<close> and \<open>log_state\<close> the index, overlay
  and chain head they leave in memory. Replaying the text gives that state back
  (\<open>replay_history\<close>), the relation \<open>journal_rel\<close> says that an open journal stands for a
  history, and the theory shows what \<open>open_journal\<close> does with the log a power cut leaves.
\<close>

section \<open>Histories\<close>

type_synonym jwrite = "int \<times> bytes"

definition wcount :: "int \<Rightarrow> jwrite \<Rightarrow> int" where
  "wcount bs w = int (length (snd w)) div bs"

definition valid_write :: "int \<Rightarrow> int \<Rightarrow> jwrite \<Rightarrow> bool" where
  "valid_write nb bs w \<longleftrightarrow> snd w \<noteq> [] \<and> int (length (snd w)) mod bs = 0 \<and> 0 \<le> fst w \<and> fst w + wcount bs w \<le> nb"

definition line_of :: "int \<Rightarrow> replay_state \<Rightarrow> jwrite \<Rightarrow> string" where
  "line_of bs st w = record_line (fst w) (wcount bs w) (snd w) (expected_hash st) (expected_sequence st)"

definition hash_of :: "int \<Rightarrow> replay_state \<Rightarrow> jwrite \<Rightarrow> string" where
  "hash_of bs st w = record_hash (fst w) (wcount bs w) (snd w) (expected_hash st) (expected_sequence st)"

definition entry_of :: "int \<Rightarrow> replay_state \<Rightarrow> jwrite \<Rightarrow> record_index" where
  "entry_of bs st w =
     \<lparr>ri_sequence = expected_sequence st, ri_block = fst w, ri_blocks = wcount bs w, ri_offset = rs_offset st,
      ri_digest = (case fromhex (hash_of bs st w) of Some b \<Rightarrow> b | None \<Rightarrow> [])\<rparr>"

definition step_write :: "int \<Rightarrow> replay_state \<Rightarrow> jwrite \<Rightarrow> replay_state" where
  "step_write bs st w =
     \<lparr>expected_hash = hash_of bs st w, expected_sequence = expected_sequence st + 1,
      rs_offset = rs_offset st + length (line_of bs st w), line_number = Suc (line_number st),
      rs_index = rs_index st @ [entry_of bs st w],
      rs_overlay = claim_blocks (rs_overlay st) (block_list (fst w) (wcount bs w)) (length (rs_index st))\<rparr>"

lemma step_write_simps [simp]:
  "expected_hash (step_write bs st w) = hash_of bs st w"
  "expected_sequence (step_write bs st w) = expected_sequence st + 1"
  "rs_offset (step_write bs st w) = rs_offset st + length (line_of bs st w)"
  "line_number (step_write bs st w) = Suc (line_number st)"
  "rs_index (step_write bs st w) = rs_index st @ [entry_of bs st w]"
  "rs_overlay (step_write bs st w) =
     claim_blocks (rs_overlay st) (block_list (fst w) (wcount bs w)) (length (rs_index st))"
  by (simp_all add: step_write_def)

lemma replay_init_simps [simp]:
  "expected_hash replay_init = zero_hash" "expected_sequence replay_init = 1" "rs_offset replay_init = 0"
  "line_number replay_init = 0" "rs_index replay_init = []" "rs_overlay replay_init = Map.empty"
  by (simp_all add: replay_init_def)

fun log_lines :: "int \<Rightarrow> replay_state \<Rightarrow> jwrite list \<Rightarrow> string list" where
  "log_lines bs st [] = []"
| "log_lines bs st (w # ws) = line_of bs st w # log_lines bs (step_write bs st w) ws"

abbreviation log_state :: "int \<Rightarrow> jwrite list \<Rightarrow> replay_state" where
  "log_state bs ws \<equiv> foldl (step_write bs) replay_init ws"

abbreviation log_text :: "int \<Rightarrow> jwrite list \<Rightarrow> string" where
  "log_text bs ws \<equiv> concat (log_lines bs replay_init ws)"

lemma log_lines_append:
  "log_lines bs st (ws @ vs) = log_lines bs st ws @ log_lines bs (foldl (step_write bs) st ws) vs"
  by (induction ws arbitrary: st) auto

lemma log_text_snoc: "log_text bs (ws @ [w]) = log_text bs ws @ line_of bs (log_state bs ws) w"
  by (simp add: log_lines_append)

section \<open>One record\<close>

abbreviation body_of :: "int \<Rightarrow> replay_state \<Rightarrow> jwrite \<Rightarrow> json dict" where
  "body_of bs st w \<equiv> record_body (fst w) (wcount bs w) (snd w) (expected_hash st) (expected_sequence st)"

abbreviation full_record :: "int \<Rightarrow> replay_state \<Rightarrow> jwrite \<Rightarrow> json dict" where
  "full_record bs st w \<equiv> body_of bs st w @ [(''record_hash'', JStr (hash_of bs st w))]"

lemma line_of_eq: "line_of bs st w = canonical (JObj (full_record bs st w)) @ [nl]"
  by (simp add: line_of_def record_line_def hash_of_def)

lemma wf_record: "wf_json (JObj (full_record bs st w))" "wf_json (JObj (body_of bs st w))"
  by (simp_all add: record_body_def)

lemma record_no_nl: "nl \<notin> set (canonical (JObj (full_record bs st w)))"
  by (rule canonical_no_nl) (rule wf_record)

lemma canonical_nonblank: "strip (canonical (JObj d) @ r) \<noteq> []"
proof -
  obtain t where "canonical (JObj d) = CHR ''{'' # t"
    using canonical_dict_hd by blast
  moreover have "dropWhile is_space (rev (CHR ''{'' # u)) \<noteq> []" for u
    by (simp add: dropWhile_eq_Nil_conv is_space_def)
  ultimately show ?thesis
    by (simp add: strip_def is_space_def)
qed

definition parsed_of :: "int \<Rightarrow> replay_state \<Rightarrow> jwrite \<Rightarrow> parsed_record" where
  "parsed_of bs st w =
     \<lparr>pr_value = sorted_dict (body_of bs st w), pr_stored_hash = JStr (hash_of bs st w), pr_data = snd w,
      pr_previous_hash = JStr (expected_hash st), pr_sequence = expected_sequence st,
      pr_crc = crc32 (snd w), pr_blocks = wcount bs w, pr_block = fst w\<rparr>"

lemma parse_record_line:
  assumes "list_all is_ws r"
  shows "parse_record (canonical (JObj (full_record bs st w)) @ r) = Some (parsed_of bs st w)"
proof -
  let ?d = "full_record bs st w" and ?b = "body_of bs st w"
  have keys: "distinct (keys ?d)" "distinct (keys ?b)" "''record_hash'' \<notin> set (keys ?b)"
    by (simp_all add: record_body_def)
  have load: "json_loads (canonical (JObj ?d) @ r) = Some (JObj (sorted_dict ?d))"
    using wf_record(1) assms by (rule loads_dict)
  have "map_of ?d ''record_hash'' = Some (JStr (hash_of bs st w))"
    by (simp add: record_body_def)
  then have look_d: "map_of (sorted_dict ?d) ''record_hash'' = Some (JStr (hash_of bs st w))"
    unfolding map_of_sorted_dict [OF keys(1)] by simp
  have look_b: "map_of (sorted_dict ?b) ''block'' = Some (JInt (fst w))"
    "map_of (sorted_dict ?b) ''blocks'' = Some (JInt (wcount bs w))"
    "map_of (sorted_dict ?b) ''crc32'' = Some (JInt (crc32 (snd w)))"
    "map_of (sorted_dict ?b) ''data_b64'' = Some (JStr (b64encode (snd w)))"
    "map_of (sorted_dict ?b) ''previous_hash'' = Some (JStr (expected_hash st))"
    "map_of (sorted_dict ?b) ''sequence'' = Some (JInt (expected_sequence st))"
    unfolding map_of_sorted_dict [OF keys(2)] by (simp_all add: record_body_def)
  have pop: "AList.delete ''record_hash'' (sorted_dict ?d) = sorted_dict ?b"
    by (rule sorted_dict_pop [OF keys(3)])
  show ?thesis
    unfolding parse_record_def load
    by (simp add: Let_def pop look_d look_b parsed_of_def b64_field_def dict_int_def dict_item_def res_option_def)
qed

lemma check_record_parsed:
  assumes "0 < bs" "valid_write nb bs w"
  shows "check_record nb bs (st\<lparr>rs_offset := a, line_number := b\<rparr>) (parsed_of bs st w) = Inr ()"
proof -
  have pos: "1 \<le> wcount bs w" "wcount bs w * bs = int (length (snd w))"
  proof -
    show eq: "wcount bs w * bs = int (length (snd w))"
      using assms(2) by (simp add: wcount_def valid_write_def mod_0_imp_dvd)
    have "0 < wcount bs w * bs"
      using assms(2) unfolding eq by (simp add: valid_write_def)
    then show "1 \<le> wcount bs w"
      using assms(1) by (simp add: zero_less_mult_iff)
  qed
  then show ?thesis
    using assms(2)
    by (simp add: check_record_def parsed_of_def hash_of_def record_hash_def check_range_def valid_write_def)
qed

lemma accept_record_parsed:
  "accept_record (rs_offset st) (st\<lparr>rs_offset := rs_offset st + length (line_of bs st w), line_number := Suc (line_number st)\<rparr>)
     (parsed_of bs st w) = step_write bs st w"
  by (simp add: accept_record_def step_write_def parsed_of_def entry_of_def Let_def)

lemma replay_one:
  assumes "0 < bs" "valid_write nb bs w"
  shows "replay_loop nb bs n (line_of bs st w # rest) st = replay_loop nb bs n rest (step_write bs st w)"
proof -
  have "strip (line_of bs st w) \<noteq> []"
    unfolding line_of_eq by (rule canonical_nonblank)
  moreover have "parse_record (line_of bs st w) = Some (parsed_of bs st w)"
    unfolding line_of_eq by (rule parse_record_line) (simp add: is_ws_def)
  ultimately show ?thesis
    by (simp add: Let_def check_record_parsed [OF assms] accept_record_parsed)
qed

lemma replay_history:
  assumes "0 < bs" "list_all (valid_write nb bs) ws"
  shows "replay_loop nb bs n (log_lines bs st ws @ rest) st = replay_loop nb bs n rest (foldl (step_write bs) st ws)"
  using assms by (induction ws arbitrary: st) (auto simp: replay_one simp del: replay_loop.simps)

section \<open>A journal that stands for a history\<close>

definition journal_rel :: "journal \<Rightarrow> jwrite list \<Rightarrow> bool" where
  "journal_rel j ws \<longleftrightarrow>
     0 < block_size j \<and> list_all (valid_write (blocks j) (block_size j)) ws \<and>
     read_metadata (f_metadata (j_files j)) = Inr (device_id j, blocks j, block_size j) \<and>
     int (length (f_base (j_files j))) = blocks j * block_size j \<and>
     f_log (j_files j) = log_text (block_size j) ws \<and>
     overlay j = rs_overlay (log_state (block_size j) ws) \<and>
     index j = rs_index (log_state (block_size j) ws) \<and>
     last_hash j = expected_hash (log_state (block_size j) ws) \<and>
     next_sequence j = expected_sequence (log_state (block_size j) ws) \<and>
     log_size j = rs_offset (log_state (block_size j) ws)"

lemma log_state_sequence: "expected_sequence (log_state bs ws) = int (length ws) + 1"
  by (induction ws rule: rev_induct) auto

lemma log_state_offset: "rs_offset (log_state bs ws) = length (log_text bs ws)"
  by (induction ws rule: rev_induct) (auto simp: log_lines_append)

lemma log_state_line_number: "line_number (log_state bs ws) = length ws"
  by (induction ws rule: rev_induct) auto

lemma length_log_index: "length (rs_index (log_state bs ws)) = length ws"
  by (induction ws rule: rev_induct) auto

lemma line_of_shape: "\<exists>l. line_of bs st w = l @ [nl] \<and> nl \<notin> set l"
  using line_of_eq record_no_nl by blast

lemma lines_of_log: "lines_of (concat (log_lines bs st ws) @ r) = log_lines bs st ws @ lines_of r"
proof (rule lines_of_append)
  show "\<forall>l \<in> set (log_lines bs st ws). \<exists>l'. l = l' @ [nl] \<and> nl \<notin> set l'"
    by (induction ws arbitrary: st) (auto simp: line_of_shape)
qed

text \<open>The journal object \<open>__init__\<close> builds before it replays.\<close>

definition blank_journal :: "journal \<Rightarrow> ns \<Rightarrow> (string \<times> ns option) list \<Rightarrow> journal" where
  "blank_journal j fs snaps =
     \<lparr>j_files = fs, j_snapshots = snaps, device_id = device_id j, blocks = blocks j, block_size = block_size j,
      overlay = Map.empty, index = [], last_hash = zero_hash, next_sequence = 1,
      log_size = 0, recovered_tail = None\<rparr>"

lemma open_journal_rel:
  assumes "journal_rel j ws" "f_metadata fs = f_metadata (j_files j)" "f_base fs = f_base (j_files j)"
  shows "open_journal fs snaps = replay (blank_journal j fs snaps)"
  using assms by (simp add: open_journal_def journal_rel_def blank_journal_def)

lemma replay_blank_history:
  assumes "journal_rel j ws" "f_log fs = log_text (block_size j) ws @ r"
  shows "replay (blank_journal j fs snaps) =
    bind_res (replay_loop (blocks j) (block_size j) (length (f_log fs)) (lines_of r) (log_state (block_size j) ws))
      (\<lambda>x. Inr (finish_replay (blank_journal j fs snaps) x))"
proof -
  have "0 < block_size j" "list_all (valid_write (blocks j) (block_size j)) ws"
    using assms(1) by (simp_all add: journal_rel_def)
  then show ?thesis
    using assms(2) by (simp add: replay_def blank_journal_def lines_of_log replay_history)
qed

text \<open>Opening the files of a journal again gives the journal back.\<close>

lemma reopen:
  assumes "journal_rel j ws"
  shows "open_journal (j_files j) snaps = Inr (j\<lparr>j_snapshots := snaps, recovered_tail := None\<rparr>)"
proof -
  have "replay (blank_journal j (j_files j) snaps) = Inr (j\<lparr>j_snapshots := snaps, recovered_tail := None\<rparr>)"
    using assms replay_blank_history [OF assms, of "j_files j" "[]" snaps]
    by (simp add: journal_rel_def blank_journal_def finish_replay_def)
  then show ?thesis
    using open_journal_rel [OF assms] by simp
qed

text \<open>What \<open>append\<close> writes for a write, and when it accepts one.\<close>

lemma journal_append_cases:
  assumes "0 < block_size j"
  shows "journal_append b d j =
    (if valid_write (blocks j) (block_size j) (b, d) then
       (Inr (next_sequence j),
        j\<lparr>j_files := (j_files j)\<lparr>f_log := f_log (j_files j)
              @ record_line b (wcount (block_size j) (b, d)) d (last_hash j) (next_sequence j)\<rparr>,
          log_size := log_size j + length (record_line b (wcount (block_size j) (b, d)) d (last_hash j) (next_sequence j)),
          index := index j @
             [\<lparr>ri_sequence = next_sequence j, ri_block = b, ri_blocks = wcount (block_size j) (b, d), ri_offset = log_size j,
               ri_digest = (case fromhex (record_hash b (wcount (block_size j) (b, d)) d (last_hash j) (next_sequence j))
                            of Some x \<Rightarrow> x | None \<Rightarrow> [])\<rparr>],
          overlay := claim_blocks (overlay j) (block_list b (wcount (block_size j) (b, d))) (length (index j)),
          last_hash := record_hash b (wcount (block_size j) (b, d)) d (last_hash j) (next_sequence j),
          next_sequence := next_sequence j + 1\<rparr>)
     else (Inl (if d = [] \<or> int (length d) mod block_size j \<noteq> 0
                then ValueError ''write must be a non-empty multiple of block_size''
                else ValueError ''block range outside virtual namespace''), j))"
proof -
  have pos: "0 < int (length d) div block_size j" if "d \<noteq> []" "int (length d) mod block_size j = 0"
  proof -
    have "int (length d) div block_size j * block_size j = int (length d)"
      using that(2) by (simp add: mod_0_imp_dvd)
    moreover have "0 < int (length d)" using that(1) by simp
    ultimately show ?thesis
      using assms by (metis mult_less_0_iff not_less_iff_gr_or_eq zero_less_mult_pos2)
  qed
  show ?thesis
    using assms pos
    by (auto simp: journal_append_def valid_write_def wcount_def check_range_def Let_def)
qed

text \<open>The line \<open>append\<close> would write for \<open>w\<close> next.\<close>

definition next_line :: "journal \<Rightarrow> jwrite \<Rightarrow> string" where
  "next_line j w = record_line (fst w) (wcount (block_size j) w) (snd w) (last_hash j) (next_sequence j)"

lemma next_line_rel: "journal_rel j ws \<Longrightarrow> next_line j w = line_of (block_size j) (log_state (block_size j) ws) w"
  by (simp add: next_line_def line_of_def journal_rel_def)

lemma append_rel:
  assumes "journal_rel j ws" "valid_write (blocks j) (block_size j) (b, d)"
  shows "fst (journal_append b d j) = Inr (int (length ws) + 1)"
    "journal_rel (snd (journal_append b d j)) (ws @ [(b, d)])"
proof -
  have bs: "0 < block_size j" using assms(1) by (simp add: journal_rel_def)
  show "fst (journal_append b d j) = Inr (int (length ws) + 1)"
    using assms by (simp add: journal_append_cases [OF bs] journal_rel_def log_state_sequence)
  show "journal_rel (snd (journal_append b d j)) (ws @ [(b, d)])"
    using assms
    by (simp add: journal_append_cases [OF bs] journal_rel_def log_lines_append line_of_def hash_of_def entry_of_def)
qed

lemma append_frame [simp]:
  "blocks (snd (journal_append b d j)) = blocks j"
  "block_size (snd (journal_append b d j)) = block_size j"
  "device_id (snd (journal_append b d j)) = device_id j"
  "j_snapshots (snd (journal_append b d j)) = j_snapshots j"
  "recovered_tail (snd (journal_append b d j)) = recovered_tail j"
  "f_base (j_files (snd (journal_append b d j))) = f_base (j_files j)"
  "f_metadata (j_files (snd (journal_append b d j))) = f_metadata (j_files j)"
  by (auto simp: journal_append_def Let_def split: sum.splits)

section \<open>The log after a power cut\<close>

text \<open>
  A crash inside \<open>append\<close> leaves the log with a prefix of the line. A prefix that is short of
  the closing brace is set aside and the journal is the one before the write.
\<close>

lemma parse_record_prefix:
  assumes "p @ q = canonical (JObj (full_record bs st w))" "q \<noteq> []"
  shows "parse_record p = None"
  using loads_dict_prefix [OF wf_record(1) assms] by (simp add: parse_record_def)

text \<open>Any unreadable text after the last record is set aside in a side file, if it is the last line.\<close>

definition set_aside :: "journal \<Rightarrow> string \<Rightarrow> (string \<times> ns option) list \<Rightarrow> journal" where
  "set_aside j t snaps =
     j\<lparr>j_snapshots := snaps,
       recovered_tail := Some \<lparr>tr_bytes_discarded = length t, tr_reason = ''incomplete final record'',
         tr_sidecar = ''journal.jsonl.torn-'' @ show_nat (log_size j)\<rparr>,
       j_files := (j_files j)\<lparr>f_sidecars :=
         AList.update (''journal.jsonl.torn-'' @ show_nat (log_size j)) t (f_sidecars (j_files j))\<rparr>\<rparr>"

lemma set_aside_rel: "journal_rel j ws \<Longrightarrow> journal_rel (set_aside j t snaps) ws"
  by (simp add: journal_rel_def set_aside_def)

lemma open_bad_tail:
  assumes rel: "journal_rel j ws" and t: "lines_of t = [t]" "strip t \<noteq> []" "parse_record t = None"
    and fs: "fs = (j_files j)\<lparr>f_log := f_log (j_files j) @ t\<rparr>"
  shows "open_journal fs snaps = Inr (set_aside j t snaps)"
proof -
  let ?bs = "block_size j" and ?st = "log_state (block_size j) ws"
  have log: "f_log (j_files j) = log_text ?bs ws" "log_size j = length (log_text ?bs ws)"
    using rel by (simp_all add: journal_rel_def log_state_offset)
  have "open_journal fs snaps = replay (blank_journal j fs snaps)"
    by (rule open_journal_rel [OF rel]) (simp_all add: fs)
  also have "\<dots> = bind_res (replay_loop (blocks j) ?bs (length (f_log fs)) (lines_of t) ?st)
      (\<lambda>x. Inr (finish_replay (blank_journal j fs snaps) x))"
    by (rule replay_blank_history [OF rel]) (simp add: fs log)
  also have "\<dots> = Inr (finish_replay (blank_journal j fs snaps)
      (?st\<lparr>line_number := Suc (line_number ?st), rs_offset := length (log_text ?bs ws)\<rparr>, True))"
    using t by (simp add: fs log log_state_offset)
  finally show ?thesis
    using rel by (simp add: finish_replay_def blank_journal_def discard_torn_tail_def fs log log_state_offset Let_def
        journal_rel_def set_aside_def)
qed

lemma brace_nonblank: "strip (CHR ''{'' # u) \<noteq> []"
  by (simp add: strip_def is_space_def dropWhile_eq_Nil_conv)

lemma open_torn:
  assumes rel: "journal_rel j ws" and k: "0 < k" "Suc k < length (next_line j w)"
    and fs: "fs = (j_files j)\<lparr>f_log := f_log (j_files j) @ take k (next_line j w)\<rparr>"
  shows "open_journal fs snaps = Inr (set_aside j (take k (next_line j w)) snaps)"
proof -
  let ?bs = "block_size j" and ?st = "log_state (block_size j) ws"
  let ?c = "canonical (JObj (full_record ?bs ?st w))"
  have line: "next_line j w = ?c @ [nl]"
    using next_line_rel [OF rel] by (simp add: line_of_eq)
  define p where "p = take k (next_line j w)"
  have p: "p = take k ?c" "p @ drop k ?c = ?c" "drop k ?c \<noteq> []"
    using k line by (auto simp: p_def)
  then have "p \<noteq> []" "nl \<notin> set p"
    using k(1) record_no_nl [where bs = ?bs and st = ?st and w = w] by (auto dest: in_set_takeD)
  then have lines: "lines_of p = [p]" by (intro lines_of_partial)
  have none: "parse_record p = None"
    using p(2,3) by (rule parse_record_prefix)
  obtain t where "?c = CHR ''{'' # t" using canonical_dict_hd by blast
  then obtain u where "p = CHR ''{'' # u" using p(1) k(1) by (cases k) auto
  then have "strip p \<noteq> []" by (simp add: brace_nonblank)
  then show ?thesis
    using open_bad_tail [OF rel lines _ none] fs unfolding p_def by blast
qed

text \<open>
  If only the final line break is missing the record is complete: it is accepted, and the log
  is left without the line break.
\<close>

lemma open_missing_newline:
  assumes rel: "journal_rel j ws" and w: "valid_write (blocks j) (block_size j) (b, d)"
    and fs: "fs = (j_files j)\<lparr>f_log := f_log (j_files j) @ butlast (next_line j (b, d))\<rparr>"
  shows "open_journal fs snaps =
    Inr ((snd (journal_append b d j))\<lparr>j_snapshots := snaps, recovered_tail := None, j_files := fs,
           log_size := length (f_log fs)\<rparr>)"
proof -
  let ?bs = "block_size j" and ?st = "log_state (block_size j) ws"
  define c where "c = canonical (JObj (full_record ?bs ?st (b, d)))"
  have line: "next_line j (b, d) = c @ [nl]" "line_of ?bs ?st (b, d) = c @ [nl]"
    using next_line_rel [OF rel] by (simp_all add: line_of_eq c_def)
  have bs: "0 < ?bs" using rel by (simp add: journal_rel_def)
  have lines: "lines_of c = [c]"
    using record_no_nl canonical_dict_hd unfolding c_def by (intro lines_of_partial) (blast, metis list.distinct(1))
  have parse: "parse_record c = Some (parsed_of ?bs ?st (b, d))"
    using parse_record_line [where r = "[]" and bs = ?bs and st = ?st and w = "(b, d)"] by (simp add: c_def)
  have blank: "strip c \<noteq> []"
    using canonical_nonblank [where r = "[]"] by (simp add: c_def)
  have log: "f_log (j_files j) = log_text ?bs ws" "log_size j = length (log_text ?bs ws)"
    using rel by (simp_all add: journal_rel_def log_state_offset)
  let ?acc = "accept_record (rs_offset ?st)
      (?st\<lparr>rs_offset := rs_offset ?st + length c, line_number := Suc (line_number ?st)\<rparr>) (parsed_of ?bs ?st (b, d))"
  have acc: "?acc = (step_write ?bs ?st (b, d))\<lparr>rs_offset := rs_offset ?st + length c\<rparr>"
    by (simp add: accept_record_def step_write_def parsed_of_def entry_of_def Let_def)
  have "open_journal fs snaps = replay (blank_journal j fs snaps)"
    by (rule open_journal_rel [OF rel]) (simp_all add: fs)
  also have "\<dots> = bind_res (replay_loop (blocks j) ?bs (length (f_log fs)) (lines_of c) ?st)
      (\<lambda>x. Inr (finish_replay (blank_journal j fs snaps) x))"
    by (rule replay_blank_history [OF rel]) (simp add: fs log line)
  also have "\<dots> = Inr (finish_replay (blank_journal j fs snaps) (?acc, False))"
    using blank by (simp add: Let_def lines parse check_record_parsed [OF bs w])
  finally show ?thesis
    using rel w unfolding acc
    by (simp add: finish_replay_def blank_journal_def fs log log_state_offset line Let_def
        journal_append_cases [OF bs] journal_rel_def hash_of_def entry_of_def)
qed

end
