(* ===== verification/Journal_Store.thy ===== *)
theory Journal_Store
  imports Journal_Replay
begin

text \<open>
  What a journal stores. The abstract device is a byte image: a base and a list of writes
  applied one after the other. Whatever log a journal was opened on, its index and overlay
  stand for the writes the log records (\<open>reads_as\<close>), and a read, of the present or of the
  state after an earlier record, returns the bytes of the image.
\<close>

section \<open>The abstract device\<close>

definition splice :: "nat \<Rightarrow> 'a list \<Rightarrow> 'a list \<Rightarrow> 'a list" where
  "splice off d img = take off img @ d @ drop (off + length d) img"

definition apply_write :: "int \<Rightarrow> bytes \<Rightarrow> jwrite \<Rightarrow> bytes" where
  "apply_write bs img w = splice (nat (fst w * bs)) (snd w) img"

definition disk :: "int \<Rightarrow> bytes \<Rightarrow> jwrite list \<Rightarrow> bytes" where
  "disk bs base ws = foldl (apply_write bs) base ws"

definition extent :: "int \<Rightarrow> int \<Rightarrow> int \<Rightarrow> bytes \<Rightarrow> bytes" where
  "extent bs b n img = take (nat (n * bs)) (drop (nat (b * bs)) img)"

lemma disk_simps [simp]: "disk bs base [] = base" "disk bs base (ws @ [w]) = apply_write bs (disk bs base ws) w"
  by (simp_all add: disk_def)

lemma length_splice [simp]: "off + length d \<le> length img \<Longrightarrow> length (splice off d img) = length img"
  by (simp add: splice_def)

lemma splice_before: "lo + n \<le> off \<Longrightarrow> off \<le> length img \<Longrightarrow> take n (drop lo (splice off d img)) = take n (drop lo img)"
proof -
  assume a: "lo + n \<le> off" "off \<le> length img"
  have "take n (drop lo (splice off d img)) = drop lo (take (lo + n) (take off img))"
    unfolding splice_def using a by (subst take_drop) (simp add: add.commute)
  also have "\<dots> = take n (drop lo img)"
    using a by (simp add: take_drop min_def add.commute)
  finally show ?thesis .
qed

lemma splice_after:
  "off + length d \<le> lo \<Longrightarrow> off \<le> length img \<Longrightarrow> take n (drop lo (splice off d img)) = take n (drop lo img)"
  by (simp add: splice_def)

lemma splice_within:
  "off \<le> length img \<Longrightarrow> k + n \<le> length d \<Longrightarrow> take n (drop (off + k) (splice off d img)) = take n (drop k d)"
  by (simp add: splice_def)

lemma splice_same: "off \<le> length img \<Longrightarrow> take (length d) (drop off (splice off d img)) = d"
  by (simp add: splice_def)

text \<open>A valid write in bytes.\<close>

lemma valid_write_bytes:
  assumes "0 < bs" "valid_write nb bs w"
  shows "1 \<le> wcount bs w" "int (length (snd w)) = wcount bs w * bs" "0 \<le> fst w * bs"
    "fst w * bs + int (length (snd w)) \<le> nb * bs"
proof -
  show len: "int (length (snd w)) = wcount bs w * bs"
    using assms(2) by (simp add: wcount_def valid_write_def mod_0_imp_dvd)
  have "0 < wcount bs w * bs"
    using assms(2) unfolding len [symmetric] by (simp add: valid_write_def)
  then show "1 \<le> wcount bs w"
    using assms(1) by (simp add: zero_less_mult_iff)
  show "0 \<le> fst w * bs"
    using assms by (simp add: valid_write_def)
  have "(fst w + wcount bs w) * bs \<le> nb * bs"
    using assms by (intro mult_right_mono) (auto simp: valid_write_def)
  then show "fst w * bs + int (length (snd w)) \<le> nb * bs"
    unfolding len by (simp add: distrib_right)
qed

lemma length_apply_write:
  assumes "0 < bs" "valid_write nb bs w" "int (length img) = nb * bs"
  shows "length (apply_write bs img w) = length img"
  using valid_write_bytes [OF assms(1,2)] assms(3) unfolding apply_write_def by (intro length_splice) linarith

lemma length_disk:
  assumes "0 < bs" "list_all (valid_write nb bs) ws" "int (length base) = nb * bs"
  shows "length (disk bs base ws) = length base"
  using assms(2)
proof (induction ws rule: rev_induct)
  case (snoc w ws)
  then show ?case using length_apply_write [OF assms(1), of nb w "disk bs base ws"] assms(3) by simp
qed simp

text \<open>One block after one write.\<close>

lemma block_apply_write:
  assumes "0 < bs" "valid_write nb bs w" "int (length img) = nb * bs" "0 \<le> k" "k < nb"
  shows "extent bs k 1 (apply_write bs img w) =
    (if fst w \<le> k \<and> k < fst w + wcount bs w then extent bs (k - fst w) 1 (snd w) else extent bs k 1 img)"
proof -
  note w = valid_write_bytes [OF assms(1,2)]
  have off: "nat (fst w * bs) \<le> length img" using w(3,4) assms(3) by linarith
  have mono: "x * bs \<le> y * bs" if "x \<le> y" for x y
    using that assms(1) by simp
  consider (in_range) "fst w \<le> k" "k < fst w + wcount bs w" | (lower) "k < fst w" | (upper) "fst w + wcount bs w \<le> k"
    by linarith
  then show ?thesis
  proof cases
    case in_range
    have "(k - fst w + 1) * bs \<le> wcount bs w * bs" using in_range by (intro mono) linarith
    then have "nat ((k - fst w) * bs) + nat bs \<le> length (snd w)"
      using in_range assms(1) w(2) by (simp add: distrib_right nat_le_iff nat_add_distrib [symmetric])
    moreover have "nat (k * bs) = nat (fst w * bs) + nat ((k - fst w) * bs)"
      using in_range assms(1) w(3) by (simp add: nat_add_distrib [symmetric] left_diff_distrib)
    ultimately show ?thesis
      using in_range off by (simp add: extent_def apply_write_def splice_within)
  next
    case lower
    have "(k + 1) * bs \<le> fst w * bs" using lower by (intro mono) linarith
    then have "nat (k * bs) + nat bs \<le> nat (fst w * bs)"
      using assms(1,4) by (simp add: distrib_right nat_add_distrib [symmetric])
    then show ?thesis
      using lower off by (simp add: extent_def apply_write_def splice_before)
  next
    case upper
    have "(fst w + wcount bs w) * bs \<le> k * bs" using upper by (intro mono)
    then have "nat (fst w * bs) + length (snd w) \<le> nat (k * bs)"
      using w(2,3) by (simp add: distrib_right)
    then show ?thesis
      using upper off w(1) by (simp add: extent_def apply_write_def splice_after)
  qed
qed

text \<open>An extent is its blocks one after the other.\<close>

lemma concat_blocks:
  assumes "0 < bs" "0 \<le> b"
  shows "concat (map (\<lambda>k. extent bs k 1 img) [b .. b + int n - 1]) = extent bs b (int n) img"
proof (induction n)
  case (Suc n)
  have "[b .. b + int (Suc n) - 1] = [b .. b + int n - 1] @ [b + int n]"
    using upto_rec2 [of b "b + int n"] by (simp add: add_diff_eq)
  moreover have "nat (int (Suc n) * bs) = nat (int n * bs) + nat bs"
    "nat ((b + int n) * bs) = nat (b * bs) + nat (int n * bs)"
    using assms by (simp_all add: distrib_right nat_add_distrib [symmetric] add.commute)
  ultimately show ?case
    using Suc by (simp add: extent_def take_add del: of_nat_Suc) (simp add: add.commute)
qed (simp add: extent_def)


section \<open>Overlay and reverse scan\<close>

text \<open>The overlay after a list of writes, and the newest write of a list that covers a block.\<close>

fun claims :: "int \<Rightarrow> (int \<Rightarrow> nat option) \<Rightarrow> nat \<Rightarrow> jwrite list \<Rightarrow> (int \<Rightarrow> nat option)" where
  "claims bs ov n [] = ov"
| "claims bs ov n (w # ws) = claims bs (claim_blocks ov (block_list (fst w) (wcount bs w)) n) (Suc n) ws"

definition covers :: "int \<Rightarrow> jwrite \<Rightarrow> int \<Rightarrow> bool" where
  "covers bs w k \<longleftrightarrow> fst w \<le> k \<and> k < fst w + wcount bs w"

abbreviation newest :: "int \<Rightarrow> jwrite list \<Rightarrow> int \<Rightarrow> nat option" where
  "newest bs ws \<equiv> claims bs Map.empty 0 ws"

lemma claims_snoc:
  "claims bs ov n (ws @ [w]) = claim_blocks (claims bs ov n ws) (block_list (fst w) (wcount bs w)) (n + length ws)"
  by (induction ws arbitrary: ov n) auto

lemma claim_blocks_apply: "claim_blocks ov bl pos k = (if k \<in> set bl then Some pos else ov k)"
  by (induction bl arbitrary: ov) auto

lemma newest_snoc: "newest bs (ws @ [w]) k = (if covers bs w k then Some (length ws) else newest bs ws k)"
  by (auto simp: claims_snoc claim_blocks_apply block_list_def covers_def)

lemma newest_Some: "newest bs ws k = Some p \<Longrightarrow> p < length ws \<and> covers bs (ws ! p) k"
proof (induction ws rule: rev_induct)
  case (snoc w ws)
  then show ?case
    by (auto simp: newest_snoc nth_append split: if_splits)
qed simp

lemma scan_back_newest:
  assumes "length idx = length ws" "p \<le> length ws"
    and "\<And>i. i < length ws \<Longrightarrow> ri_sequence (idx ! i) = int i + 1 \<and> ri_block (idx ! i) = fst (ws ! i) \<and>
             ri_blocks (idx ! i) = wcount bs (ws ! i)"
  shows "scan_back idx n k p = newest bs (take (min p (nat n)) ws) k"
  using assms(2)
proof (induction p)
  case (Suc p)
  then have e: "ri_sequence (idx ! p) = int p + 1" "ri_block (idx ! p) = fst (ws ! p)"
    "ri_blocks (idx ! p) = wcount bs (ws ! p)" "p < length ws"
    using assms(3) [of p] by auto
  show ?case
  proof (cases "n < int p + 1")
    case True
    then have "min (Suc p) (nat n) = min p (nat n)" by linarith
    then show ?thesis using True Suc e by simp
  next
    case False
    then have "min (Suc p) (nat n) = Suc p" "min p (nat n) = p" by linarith+
    then show ?thesis
      using False Suc e by (simp add: take_Suc_conv_app_nth newest_snoc covers_def)
  qed
qed simp

text \<open>A block of the disk is the newest write that covers it, or the base.\<close>

lemma block_disk:
  assumes "0 < bs" "list_all (valid_write nb bs) ws" "int (length base) = nb * bs" "0 \<le> k" "k < nb"
  shows "extent bs k 1 (disk bs base ws) =
    (case newest bs ws k of None \<Rightarrow> extent bs k 1 base | Some p \<Rightarrow> extent bs (k - fst (ws ! p)) 1 (snd (ws ! p)))"
  using assms(2)
proof (induction ws rule: rev_induct)
  case (snoc w ws)
  have len: "int (length (disk bs base ws)) = nb * bs"
    using length_disk [OF assms(1) _ assms(3), of ws] snoc.prems assms(3) by simp
  show ?case
  proof (cases "covers bs w k")
    case True
    then show ?thesis
      using snoc.prems block_apply_write [OF assms(1) _ len assms(4,5)] by (simp add: newest_snoc covers_def)
  next
    case False
    moreover have "(ws @ [w]) ! p = ws ! p" if "newest bs ws k = Some p" for p
      using newest_Some [OF that] by (simp add: nth_append)
    ultimately show ?thesis
      using snoc block_apply_write [OF assms(1) _ len assms(4,5), of w]
      by (auto simp: newest_snoc covers_def split: option.splits)
  qed
qed simp

section \<open>Journals that stand for a history\<close>

text \<open>The record an index entry points at, as \<open>_payload_at\<close> reads it back.\<close>

definition stored :: "int \<Rightarrow> string \<Rightarrow> record_index \<Rightarrow> jwrite \<Rightarrow> bool" where
  "stored bs log e w \<longleftrightarrow>
     ri_block e = fst w \<and> ri_blocks e = wcount bs w \<and>
     (\<exists>d. json_loads (readline (drop (ri_offset e) log)) = Some (JObj d) \<and> b64_field d = Some (snd w) \<and>
          dict_int d ''sequence'' = Inr (ri_sequence e) \<and> dict_int d ''crc32'' = Inr (crc32 (snd w)))"

definition reads_as :: "journal \<Rightarrow> jwrite list \<Rightarrow> bool" where
  "reads_as j ws \<longleftrightarrow>
     0 < block_size j \<and> list_all (valid_write (blocks j) (block_size j)) ws \<and>
     int (length (f_base (j_files j))) = blocks j * block_size j \<and>
     overlay j = newest (block_size j) ws \<and> next_sequence j = int (length ws) + 1 \<and>
     map ri_sequence (index j) = map (\<lambda>i. int i + 1) [0 ..< length ws] \<and>
     list_all2 (stored (block_size j) (f_log (j_files j))) (index j) ws"

lemma reads_as_entry:
  assumes "reads_as j ws" "i < length ws"
  shows "ri_sequence (index j ! i) = int i + 1" "stored (block_size j) (f_log (j_files j)) (index j ! i) (ws ! i)"
    "length (index j) = length ws"
proof -
  show len: "length (index j) = length ws"
    using assms(1) by (auto simp: reads_as_def dest: list_all2_lengthD)
  have "map ri_sequence (index j) ! i = int i + 1"
    using assms by (simp add: reads_as_def)
  then show "ri_sequence (index j ! i) = int i + 1"
    using assms(2) len by simp
  show "stored (block_size j) (f_log (j_files j)) (index j ! i) (ws ! i)"
    using assms len by (simp add: reads_as_def list_all2_conv_all_nth)
qed

lemma payload_at_write:
  assumes "reads_as j ws" "i < length ws"
  shows "payload_at j i = Inr (snd (ws ! i))"
proof -
  have "valid_write (blocks j) (block_size j) (ws ! i)" "0 < block_size j"
    using assms by (simp_all add: reads_as_def list_all_length)
  then have "int (length (snd (ws ! i))) = wcount (block_size j) (ws ! i) * block_size j"
    using valid_write_bytes(2) by blast
  then show ?thesis
    using reads_as_entry [OF assms] assms(2) by (auto simp: payload_at_def stored_def Let_def)
qed

lemma block_from_write:
  assumes "reads_as j ws" "i < length ws" "covers (block_size j) (ws ! i) k"
  shows "block_from j i k = Inr (extent (block_size j) (k - fst (ws ! i)) 1 (snd (ws ! i)))"
proof -
  let ?w = "ws ! i" and ?bs = "block_size j"
  have w: "valid_write (blocks j) ?bs ?w" "0 < ?bs"
    using assms(1,2) by (simp_all add: reads_as_def list_all_length)
  note len = valid_write_bytes [OF w(2,1)]
  have b: "ri_block (index j ! i) = fst ?w" "length (index j) = length ws"
    using reads_as_entry [OF assms(1,2)] by (simp_all add: stored_def)
  have "0 \<le> (k - fst ?w) * ?bs"
    using assms(3) w(2) by (simp add: covers_def)
  moreover have "(k - fst ?w + 1) * ?bs \<le> wcount ?bs ?w * ?bs"
    using assms(3) w(2) by (intro mult_right_mono) (auto simp: covers_def)
  ultimately have "py_slice (snd ?w) ((k - fst ?w) * ?bs) ((k - fst ?w) * ?bs + ?bs) =
      take (nat ?bs) (drop (nat ((k - fst ?w) * ?bs)) (snd ?w))"
    using w(2) len(2) by (intro py_slice_in) (simp_all add: distrib_right)
  then show ?thesis
    using assms(2) b payload_at_write [OF assms(1,2)] by (simp add: block_from_def extent_def Let_def)
qed

text \<open>Reading a block, now or as of an earlier record.\<close>

definition seen :: "int option \<Rightarrow> jwrite list \<Rightarrow> jwrite list" where
  "seen at_sequence ws = (case at_sequence of None \<Rightarrow> ws | Some n \<Rightarrow> take (nat n) ws)"

lemma read_block_disk:
  assumes rel: "reads_as j ws" and k: "0 \<le> k" "k < blocks j"
  shows "read_block j s k = Inr (extent (block_size j) k 1 (disk (block_size j) (f_base (j_files j)) (seen s ws)))"
proof -
  let ?bs = "block_size j"
  have base: "0 < ?bs" "int (length (f_base (j_files j))) = blocks j * ?bs" "list_all (valid_write (blocks j) ?bs) ws"
    "overlay j = newest ?bs ws"
    using rel by (simp_all add: reads_as_def)
  then have seen: "list_all (valid_write (blocks j) ?bs) (seen s ws)"
    by (auto simp: seen_def list_all_iff split: option.splits dest: in_set_takeD)
  have len: "length (index j) = length ws"
    using rel by (auto simp: reads_as_def dest: list_all2_lengthD)
  have pos: "(case s of None \<Rightarrow> overlay j k | Some n \<Rightarrow> scan_back (index j) n k (length (index j))) = newest ?bs (seen s ws) k"
  proof (cases s)
    case (Some n)
    have "scan_back (index j) n k (length ws) = newest ?bs (take (min (length ws) (nat n)) ws) k"
      using reads_as_entry [OF rel] len by (intro scan_back_newest) (simp_all add: stored_def)
    then show ?thesis using Some len by (simp add: seen_def min_def split: if_splits)
  qed (simp add: base seen_def)
  have same: "p < length ws \<and> seen s ws ! p = ws ! p \<and> covers ?bs (ws ! p) k" if "newest ?bs (seen s ws) k = Some p" for p
    using newest_Some [OF that] by (auto simp: seen_def split: option.splits)
  show ?thesis
    unfolding read_block_def pos block_disk [OF base(1) seen base(2) k]
    using same block_from_write [OF rel] by (auto simp: extent_def base_block_def split: option.splits)
qed

lemma map_res_Inr: "(\<And>x. x \<in> set xs \<Longrightarrow> f x = Inr (g x)) \<Longrightarrow> map_res f xs = Inr (map g xs)"
  by (induction xs) auto

lemma journal_read_disk:
  assumes rel: "reads_as j ws"
  shows "journal_read j b n s =
    (if b < 0 \<or> n < 1 \<or> blocks j < b + n then Inl (ValueError ''block range outside virtual namespace'')
     else if (case s of None \<Rightarrow> False | Some m \<Rightarrow> m < 0 \<or> int (length ws) < m) then Inl (ValueError ''invalid sequence'')
     else Inr (extent (block_size j) b n (disk (block_size j) (f_base (j_files j)) (seen s ws))))"
proof -
  let ?img = "disk (block_size j) (f_base (j_files j)) (seen s ws)"
  have last: "last_sequence j = int (length ws)" and bs: "0 < block_size j"
    using rel by (simp_all add: reads_as_def last_sequence_def)
  have "map_res (read_block j s) (block_list b n) = Inr (map (\<lambda>k. extent (block_size j) k 1 ?img) (block_list b n))"
    if "0 \<le> b" "b + n \<le> blocks j"
    using that by (intro map_res_Inr read_block_disk [OF rel]) (auto simp: block_list_def)
  moreover have "concat (map (\<lambda>k. extent (block_size j) k 1 ?img) (block_list b n)) = extent (block_size j) b n ?img"
    if "0 \<le> b" "1 \<le> n"
    using concat_blocks [OF bs that(1), where n = "nat n"] that by (simp add: block_list_def)
  ultimately show ?thesis
    by (auto simp: journal_read_def check_range_def last split: option.splits)
qed

end
