(* ===== verification/Journal_Open.thy ===== *)
theory Journal_Open
  imports Journal_Store
begin

text \<open>
  Opening an arbitrary log. Whatever text \<^verbatim>\<open>journal.jsonl\<close> holds, a journal that opens on it
  reads as the writes its records carry, and the records it accepted form a hash chain.
\<close>

section \<open>The writes a log records\<close>

definition line_record :: "string \<Rightarrow> parsed_record option" where
  "line_record raw = (if strip raw = [] then None else parse_record raw)"

abbreviation records :: "string list \<Rightarrow> parsed_record list" where
  "records ls \<equiv> List.map_filter line_record ls"

definition write_of :: "parsed_record \<Rightarrow> jwrite" where
  "write_of p = (pr_block p, pr_data p)"

definition history :: "string \<Rightarrow> jwrite list" where
  "history log = map write_of (records (lines_of log))"

lemma line_record_simps:
  "strip raw = [] \<Longrightarrow> line_record raw = None"
  "strip raw \<noteq> [] \<Longrightarrow> line_record raw = parse_record raw"
  by (simp_all add: line_record_def)

lemma line_record_line_of: "line_record (line_of bs st w) = Some (parsed_of bs st w)"
proof -
  have "strip (line_of bs st w) \<noteq> []"
    unfolding line_of_eq by (rule canonical_nonblank)
  moreover have "parse_record (line_of bs st w) = Some (parsed_of bs st w)"
    unfolding line_of_eq by (rule parse_record_line) (simp add: is_ws_def)
  ultimately show ?thesis by (simp add: line_record_def)
qed

lemma history_log_lines: "map write_of (records (log_lines bs st ws)) = ws"
  by (induction ws arbitrary: st) (auto simp: line_record_line_of parsed_of_def write_of_def List.map_filter_simps)

lemma history_log_text: "history (log_text bs ws) = ws"
  using lines_of_log [where r = "[]" and bs = bs and st = replay_init and ws = ws] history_log_lines
  by (simp add: history_def)

section \<open>One accepted line\<close>

text \<open>What \<open>check_record\<close> has established when it lets a record through.\<close>

lemma check_record_Inr:
  assumes "check_record nb bs st p = Inr ()"
  shows "pr_stored_hash p = JStr (sha256_hex (canonical (JObj (pr_value p))))"
    "pr_previous_hash p = JStr (expected_hash st)" "pr_sequence p = expected_sequence st"
    "crc32 (pr_data p) = pr_crc p" "1 \<le> pr_blocks p" "int (length (pr_data p)) = pr_blocks p * bs"
    "0 \<le> pr_block p" "pr_block p + pr_blocks p \<le> nb"
  using assms by (auto simp: check_record_def corrupt_def check_range_def split: if_splits)

lemma checked_write:
  assumes "check_record nb bs st p = Inr ()" "0 < bs"
  shows "wcount bs (write_of p) = pr_blocks p" "valid_write nb bs (write_of p)"
proof -
  note c = check_record_Inr [OF assms(1)]
  show n: "wcount bs (write_of p) = pr_blocks p"
    using c(6) assms(2) by (simp add: wcount_def write_of_def)
  have "0 < int (length (pr_data p))"
    unfolding c(6) using c(5) assms(2) by simp
  then show "valid_write nb bs (write_of p)"
    using n c(6-8) by (auto simp: valid_write_def write_of_def)
qed

lemma parse_record_Some:
  assumes "parse_record raw = Some p"
  obtains d where "json_loads raw = Some (JObj d)" "pr_value p = AList.delete ''record_hash'' d"
    "b64_field d = Some (pr_data p)" "dict_int d ''sequence'' = Inr (pr_sequence p)"
    "dict_int d ''crc32'' = Inr (pr_crc p)" "map_of (pr_value p) ''previous_hash'' = Some (pr_previous_hash p)"
proof -
  have other: "map_of (AList.delete ''record_hash'' d) k = map_of d k" if "k \<noteq> ''record_hash''" for d :: "json dict" and k
    using that by (simp add: AList.delete_conv)
  from assms show thesis
    by (auto simp: parse_record_def b64_field_def dict_int_def dict_item_def other Let_def res_option_def that
        split: option.splits json.splits sum.splits)
qed

section \<open>The loop\<close>

text \<open>
  What the loop has established after the records \<open>ps\<close>: they are valid writes, the index
  points at them in the log and not beyond the offset reached, and they form a chain.
\<close>

definition scanned :: "int \<Rightarrow> int \<Rightarrow> string \<Rightarrow> replay_state \<Rightarrow> parsed_record list \<Rightarrow> bool" where
  "scanned nb bs log st ps \<longleftrightarrow>
     list_all (valid_write nb bs) (map write_of ps) \<and>
     rs_overlay st = newest bs (map write_of ps) \<and> expected_sequence st = int (length ps) + 1 \<and>
     map ri_sequence (rs_index st) = map (\<lambda>i. int i + 1) [0 ..< length ps] \<and>
     list_all2 (\<lambda>e p. stored bs log e (write_of p) \<and>
                  ri_offset e + length (readline (drop (ri_offset e) log)) \<le> rs_offset st) (rs_index st) ps \<and>
     map pr_sequence ps = map (\<lambda>i. int i + 1) [0 ..< length ps] \<and>
     rec.chain zero_hash (map pr_value ps) \<and> expected_hash st = rec.head zero_hash (map pr_value ps) \<and>
     list_all (\<lambda>p. dup_free (JObj (pr_value p))) ps"

lemma scanned_init: "scanned nb bs log replay_init []"
  by (simp add: scanned_def)

lemma scanned_skip: "scanned nb bs log st ps \<Longrightarrow> scanned nb bs log (st\<lparr>rs_offset := rs_offset st + n, line_number := m\<rparr>) ps"
  by (auto simp: scanned_def elim!: list_all2_mono)

lemma scanned_accept:
  assumes sc: "scanned nb bs log st ps" and bs: "0 < bs"
    and raw: "raw = readline (drop (rs_offset st) log)" "parse_record raw = Some p"
    and st1: "st1 = st\<lparr>rs_offset := rs_offset st + length raw, line_number := m\<rparr>"
    and ok: "check_record nb bs st1 p = Inr ()"
  shows "scanned nb bs log (accept_record (rs_offset st) st1 p) (ps @ [p])"
proof -
  note c = check_record_Inr [OF ok] and w = checked_write [OF ok bs]
  obtain d where d: "json_loads raw = Some (JObj d)" "pr_value p = AList.delete ''record_hash'' d"
    "b64_field d = Some (pr_data p)" "dict_int d ''sequence'' = Inr (pr_sequence p)"
    "dict_int d ''crc32'' = Inr (pr_crc p)" "map_of (pr_value p) ''previous_hash'' = Some (pr_previous_hash p)"
    using raw(2) by (rule parse_record_Some)
  have dup: "dup_free (JObj (pr_value p))"
    unfolding d(2) using loads_dup_free [OF d(1)] by (rule dup_free_delete)
  have link: "record_prev (pr_value p) = expected_hash st" "record_text (pr_value p) = canonical (JObj (pr_value p))"
    using c(2) d(6) st1 by (simp_all add: record_prev_def record_text_def)
  have entry: "stored bs log \<lparr>ri_sequence = expected_sequence st, ri_block = pr_block p, ri_blocks = pr_blocks p,
      ri_offset = rs_offset st, ri_digest = dg\<rparr> (write_of p)" for dg
    using d c(3,4) w(1) raw(1) st1 by (simp add: stored_def write_of_def)
  have len: "length (rs_index st) = length ps"
    using sc by (auto simp: scanned_def dest: list_all2_lengthD)
  let ?e = "\<lparr>ri_sequence = expected_sequence st, ri_block = pr_block p, ri_blocks = pr_blocks p, ri_offset = rs_offset st,
      ri_digest = (case fromhex (sha256_hex (canonical (JObj (pr_value p)))) of Some b \<Rightarrow> b | None \<Rightarrow> [])\<rparr>"
  have acc: "accept_record (rs_offset st) st1 p =
      \<lparr>expected_hash = sha256_hex (canonical (JObj (pr_value p))), expected_sequence = expected_sequence st + 1,
       rs_offset = rs_offset st + length raw, line_number = m, rs_index = rs_index st @ [?e],
       rs_overlay = claim_blocks (rs_overlay st) (block_list (pr_block p) (pr_blocks p)) (length ps)\<rparr>"
    by (simp add: accept_record_def c(1) st1 len Let_def)
  have old: "list_all2 (\<lambda>e p. stored bs log e (write_of p) \<and>
      ri_offset e + length (readline (drop (ri_offset e) log)) \<le> rs_offset st + length raw) (rs_index st) ps"
    using sc by (auto simp: scanned_def elim!: list_all2_mono)
  have ov: "newest bs (map write_of (ps @ [p])) =
      claim_blocks (newest bs (map write_of ps)) (block_list (pr_block p) (pr_blocks p)) (length ps)"
    using w(1) by (simp add: claims_snoc) (simp add: write_of_def)
  show ?thesis
    unfolding acc scanned_def ov using sc entry old raw(1) w(2) link dup c(3) st1
    by (simp add: scanned_def list_all2_appendI)
qed

lemma drop_readline: "drop off log \<noteq> [] \<Longrightarrow>
  lines_of (drop off log) = readline (drop off log) # lines_of (drop (off + length (readline (drop off log))) log)"
  using lines_of_step [of "drop off log"] by (simp add: add.commute)

lemma length_readline_le: "length (readline s) \<le> length s"
proof (cases "s = []")
  case False
  have "length (concat (lines_of s)) = length s" by simp
  then show ?thesis
    unfolding lines_of_step [OF False] by simp
qed (simp add: readline_def)

lemma map_filter_Cons: "List.map_filter f (x # xs) = (case f x of None \<Rightarrow> [] | Some y \<Rightarrow> [y]) @ List.map_filter f xs"
  by (simp add: List.map_filter_simps split: option.splits)

lemma replay_loop_scanned:
  assumes "replay_loop nb bs (length log) ls st = Inr (st', torn)" "ls = lines_of (drop (rs_offset st) log)"
    and "scanned nb bs log st ps" "0 < bs" "rs_offset st \<le> length log"
  shows "scanned nb bs log st' (ps @ records ls) \<and> rs_offset st' \<le> length log \<and> (\<not> torn \<longrightarrow> rs_offset st' = length log)"
  using assms(1-3,5)
proof (induction ls arbitrary: st ps)
  case Nil
  then show ?case by (auto simp: List.map_filter_simps eq_commute [of "[]"])
next
  case (Cons raw ls)
  let ?st1 = "st\<lparr>rs_offset := rs_offset st + length raw, line_number := Suc (line_number st)\<rparr>"
  have ne: "drop (rs_offset st) log \<noteq> []" using Cons.prems(2) by auto
  have raw: "raw = readline (drop (rs_offset st) log)" and ls: "ls = lines_of (drop (rs_offset st + length raw) log)"
    using Cons.prems(2) drop_readline [OF ne] by simp_all
  have le: "rs_offset st + length raw \<le> length log"
    using length_readline_le [of "drop (rs_offset st) log"] ne raw by simp
  consider (blank) "strip raw = []" | (torn) "strip raw \<noteq> []" "parse_record raw = None"
    | (rec) p where "strip raw \<noteq> []" "parse_record raw = Some p"
    by fastforce
  then show ?case
  proof cases
    case blank
    have "scanned nb bs log st' (ps @ records ls) \<and> rs_offset st' \<le> length log \<and> (\<not> torn \<longrightarrow> rs_offset st' = length log)"
      using Cons.prems(1) blank ls le scanned_skip [OF Cons.prems(3)]
      by (intro Cons.IH [of ?st1]) (simp_all add: Let_def)
    then show ?thesis using blank by (simp add: map_filter_Cons line_record_simps)
  next
    case torn
    then have end_of_log: "length log \<le> rs_offset st + length raw" and
      r: "st' = st\<lparr>line_number := Suc (line_number st)\<rparr>" "torn"
      using Cons.prems(1) by (auto simp: Let_def corrupt_def split: if_splits)
    have "ls = []" using ls end_of_log by simp
    moreover have "scanned nb bs log st' ps"
      using scanned_skip [OF Cons.prems(3), where n = 0 and m = "Suc (line_number st)"] r by simp
    ultimately show ?thesis
      using torn r Cons.prems(4) by (simp add: map_filter_Cons line_record_simps List.map_filter_simps)
  next
    case (rec p)
    then have ok: "check_record nb bs ?st1 p = Inr ()"
      and go: "replay_loop nb bs (length log) ls (accept_record (rs_offset st) ?st1 p) = Inr (st', torn)"
      using Cons.prems(1) by (auto simp: Let_def bind_res_Inr_conv)
    have off: "rs_offset (accept_record (rs_offset st) ?st1 p) = rs_offset st + length raw"
      by (simp add: accept_record_def Let_def)
    have "scanned nb bs log st' ((ps @ [p]) @ records ls) \<and> rs_offset st' \<le> length log \<and>
        (\<not> torn \<longrightarrow> rs_offset st' = length log)"
      using scanned_accept [OF Cons.prems(3) assms(4) raw rec(2) refl ok] ls le
      by (intro Cons.IH [OF go]) (simp_all add: off)
    then show ?thesis using rec by (simp add: map_filter_Cons line_record_simps)
  qed
qed

section \<open>Every journal that opens\<close>

lemma readline_Cons: "readline (c # s) = (if c = nl then [c] else c # readline s)"
  by (simp add: readline_def)

lemma readline_take: "length (readline s) \<le> n \<Longrightarrow> readline (take n s) = readline s"
proof (induction s arbitrary: n)
  case (Cons c s)
  then show ?case by (cases n) (auto simp: readline_Cons split: if_splits)
qed simp

lemma stored_take:
  assumes "stored bs log e w" "ri_offset e + length (readline (drop (ri_offset e) log)) \<le> n"
  shows "stored bs (take n log) e w"
proof -
  have "readline (drop (ri_offset e) (take n log)) = readline (drop (ri_offset e) log)"
    using assms(2) readline_take [of "drop (ri_offset e) log" "n - ri_offset e"] by (simp add: drop_take)
  then show ?thesis using assms(1) by (simp add: stored_def)
qed

lemma open_journal_Inr:
  assumes "open_journal fs snaps = Inr j"
  obtains st torn j0 where
    "replay_loop (blocks j) (block_size j) (length (f_log fs)) (lines_of (f_log fs)) replay_init = Inr (st, torn)"
    "j = finish_replay j0 (st, torn)" "j_files j0 = fs" "int (length (f_base fs)) = blocks j * block_size j"
    "read_metadata (f_metadata fs) = Inr (device_id j, blocks j, block_size j)" "j_snapshots j = snaps"
proof -
  from assms obtain dev nb bs st torn where
    m: "read_metadata (f_metadata fs) = Inr (dev, nb, bs)" "int (length (f_base fs)) = nb * bs"
    "replay_loop nb bs (length (f_log fs)) (lines_of (f_log fs)) replay_init = Inr (st, torn)"
    "j = finish_replay \<lparr>j_files = fs, j_snapshots = snaps, device_id = dev, blocks = nb, block_size = bs,
           overlay = Map.empty, index = [], last_hash = zero_hash, next_sequence = 1,
           log_size = 0, recovered_tail = None\<rparr> (st, torn)"
    by (auto simp: open_journal_def replay_def bind_res_Inr_conv Let_def split: if_splits)
  have f: "blocks (finish_replay j0 r) = blocks j0" "block_size (finish_replay j0 r) = block_size j0"
    "device_id (finish_replay j0 r) = device_id j0" "j_snapshots (finish_replay j0 r) = j_snapshots j0" for j0 r
    by (simp_all add: finish_replay_def Let_def split: prod.splits)
  show thesis
    by (rule that [OF _ m(4)]) (use m in \<open>simp_all add: f\<close>)
qed

lemma open_journal_records:
  fixes fs :: ns
  defines "ps \<equiv> records (lines_of (f_log fs))"
  assumes op: "open_journal fs snaps = Inr j" and bs: "0 < block_size j"
  shows "reads_as j (map write_of ps)" "last_hash j = rec.head zero_hash (map pr_value ps)"
    "rec.chain zero_hash (map pr_value ps)" "list_all (\<lambda>p. dup_free (JObj (pr_value p))) ps"
    "f_base (j_files j) = f_base fs" "f_log (j_files j) = take (log_size j) (f_log fs)"
    "f_metadata (j_files j) = f_metadata fs" "map pr_sequence ps = map (\<lambda>i. int i + 1) [0 ..< length ps]"
proof -
  from op obtain st torn j0 where
    o: "replay_loop (blocks j) (block_size j) (length (f_log fs)) (lines_of (f_log fs)) replay_init = Inr (st, torn)"
    "j = finish_replay j0 (st, torn)" "j_files j0 = fs" "int (length (f_base fs)) = blocks j * block_size j"
    by (rule open_journal_Inr)
  have sc: "scanned (blocks j) (block_size j) (f_log fs) st ps"
    and le: "\<not> torn \<longrightarrow> rs_offset st = length (f_log fs)"
    using replay_loop_scanned [OF o(1) _ scanned_init bs] by (simp_all add: ps_def)
  have fin: "overlay j = rs_overlay st" "index j = rs_index st" "last_hash j = expected_hash st"
    "next_sequence j = expected_sequence st" "log_size j = rs_offset st"
    unfolding o(2) by (simp_all add: finish_replay_def discard_torn_tail_def Let_def)
  show files: "f_base (j_files j) = f_base fs" "f_log (j_files j) = take (log_size j) (f_log fs)"
    "f_metadata (j_files j) = f_metadata fs"
    using le o(3) unfolding o(2) by (simp_all add: finish_replay_def discard_torn_tail_def Let_def)
  have "list_all2 (\<lambda>e p. stored (block_size j) (f_log (j_files j)) e (write_of p)) (rs_index st) ps"
    using sc unfolding files(2) fin(5) by (auto simp: scanned_def elim!: list_all2_mono intro: stored_take)
  then show "reads_as j (map write_of ps)"
    using sc bs o(4) files(1) by (simp add: reads_as_def scanned_def fin list.rel_map)
  show "last_hash j = rec.head zero_hash (map pr_value ps)"
    "rec.chain zero_hash (map pr_value ps)" "list_all (\<lambda>p. dup_free (JObj (pr_value p))) ps"
    "map pr_sequence ps = map (\<lambda>i. int i + 1) [0 ..< length ps]"
    using sc by (simp_all add: scanned_def fin)
qed

lemma open_reads_as:
  assumes "open_journal fs snaps = Inr j" "0 < block_size j"
  shows "reads_as j (history (f_log fs))"
  using open_journal_records(1) [OF assms] by (simp add: history_def)

lemma rel_reads_as:
  assumes "journal_rel j ws"
  shows "reads_as j ws"
proof -
  have bs: "0 < block_size j" and log: "f_log (j_files j) = log_text (block_size j) ws"
    using assms by (simp_all add: journal_rel_def)
  have "reads_as (j\<lparr>j_snapshots := [], recovered_tail := None\<rparr>) ws"
    using open_reads_as [OF reopen [OF assms, of "[]"]] bs log history_log_text by simp
  then show ?thesis by (simp add: reads_as_def)
qed

section \<open>Tamper evidence\<close>

text \<open>The write and the sequence of a record are functions of its sorted dictionary.\<close>

definition value_write :: "json dict \<Rightarrow> jwrite" where
  "value_write d =
     (case (dict_int d ''block'', b64_field d) of (Inr b, Some x) \<Rightarrow> (b, x) | _ \<Rightarrow> (0, []))"

lemma py_int_sort_keys [simp]: "py_int (sort_keys v) = py_int v"
  by (cases v) simp_all

lemma b64_field_sorted: "distinct (keys d) \<Longrightarrow> b64_field (sorted_dict d) = b64_field d"
  by (cases "map_of d ''data_b64''") (auto simp: b64_field_def map_of_sorted_dict split: json.splits)

lemma dict_int_sorted: "distinct (keys d) \<Longrightarrow> dict_int (sorted_dict d) k = dict_int d k"
  by (cases "map_of d k") (simp_all add: dict_int_def dict_item_def map_of_sorted_dict)

lemma record_of_value:
  assumes "parse_record raw = Some p" "dup_free (JObj (pr_value p))"
  shows "write_of p = value_write (sorted_dict (pr_value p))"
    "dict_int (sorted_dict (pr_value p)) ''sequence'' = Inr (pr_sequence p)"
proof -
  have "dict_int (pr_value p) ''block'' = Inr (pr_block p)" "b64_field (pr_value p) = Some (pr_data p)"
    and s: "dict_int (pr_value p) ''sequence'' = Inr (pr_sequence p)"
    using assms(1)
    by (auto simp: parse_record_def Let_def res_option_def split: option.splits json.splits sum.splits)
  then show "write_of p = value_write (sorted_dict (pr_value p))"
    using assms(2) by (simp add: value_write_def write_of_def b64_field_sorted dict_int_sorted)
  show "dict_int (sorted_dict (pr_value p)) ''sequence'' = Inr (pr_sequence p)"
    using assms(2) s by (simp add: dict_int_sorted)
qed

lemma records_parse: "p \<in> set (records ls) \<Longrightarrow> \<exists>raw. parse_record raw = Some p"
  by (auto simp: List.map_filter_def line_record_def split: if_splits)

lemma history_values:
  assumes "list_all (\<lambda>p. dup_free (JObj (pr_value p))) (records (lines_of log))"
  shows "history log = map value_write (map sorted_dict (map pr_value (records (lines_of log))))"
  using assms records_parse record_of_value(1) by (fastforce simp: history_def list_all_iff)

lemma last_sequence_record:
  assumes "map pr_sequence ps = map (\<lambda>i. int i + 1) [0 ..< length ps]" "ps \<noteq> []"
  shows "pr_sequence (last ps) = int (length ps)"
proof -
  have "pr_sequence (last ps) = last (map pr_sequence ps)" using assms(2) by (simp add: last_map)
  also have "\<dots> = int (length ps)" unfolding assms(1) using assms(2) by (cases ps) (simp_all add: last_map)
  finally show ?thesis .
qed

text \<open>
  Two logs with records that open to the same chain head carry the same writes, unless two
  of the record texts that were hashed collide under SHA-256.
\<close>

lemma tamper_evidence:
  fixes fs fs' :: ns
  defines "ps \<equiv> records (lines_of (f_log fs))" and "qs \<equiv> records (lines_of (f_log fs'))"
  assumes op: "open_journal fs snaps = Inr j" "open_journal fs' snaps' = Inr j'"
    and bs: "0 < block_size j" "0 < block_size j'" and hd: "last_hash j = last_hash j'"
    and ne: "ps \<noteq> []" "qs \<noteq> []"
    and fl: "list_all (\<lambda>p. plain_floats (JObj (pr_value p))) (ps @ qs)"
    and cf: "inj_on sha256_hex ((\<lambda>p. canonical (JObj (pr_value p))) ` set (ps @ qs))"
  shows "history (f_log fs) = history (f_log fs')"
proof -
  note a = open_journal_records [OF op(1) bs(1), folded ps_def] and b = open_journal_records [OF op(2) bs(2), folded qs_def]
  have ok: "list_all record_ok (map pr_value ps)" "list_all record_ok (map pr_value qs)"
    using fl a(4) b(4) by (auto simp: record_ok_def wf_json_iff list_all_iff simp del: wf_json.simps)
  have inj: "inj_on sha256_hex (record_text ` set (map pr_value ps @ map pr_value qs))"
    using cf by (simp add: record_text_def image_Un image_image)
  have heads: "rec.head zero_hash (map pr_value ps) = rec.head zero_hash (map pr_value qs)"
    using hd a(2) b(2) by simp
  have "sorted_dict (pr_value (last ps)) = sorted_dict (pr_value (last qs))"
    using rec.last_content [OF _ _ heads inj ok] ne by (simp add: last_map)
  moreover have "dict_int (sorted_dict (pr_value (last ps))) ''sequence'' = Inr (pr_sequence (last ps))"
    "dict_int (sorted_dict (pr_value (last qs))) ''sequence'' = Inr (pr_sequence (last qs))"
    using a(4) b(4) ne records_parse record_of_value(2) unfolding ps_def qs_def list_all_iff by (meson last_in_set)+
  ultimately have "length ps = length qs"
    using last_sequence_record [OF a(8) ne(1)] last_sequence_record [OF b(8) ne(2)] by simp
  then have "map sorted_dict (map pr_value ps) = map sorted_dict (map pr_value qs)"
    using a(3) b(3) heads inj ok by (intro rec.chain_unique) simp_all
  then show ?thesis
    using history_values a(4) b(4) unfolding ps_def qs_def by metis
qed

text \<open>The records of a log that \<open>append\<close> wrote.\<close>

lemma records_log_lines:
  "p \<in> set (records (log_lines bs st ws)) \<Longrightarrow> \<exists>st w. p = parsed_of bs st w"
  by (induction ws arbitrary: st) (auto simp: line_record_line_of List.map_filter_simps)

lemma plain_floats_parsed: "plain_floats (JObj (pr_value (parsed_of bs st w)))"
  using wf_sort_keys [of "JObj (body_of bs st w)"] wf_record(2) [of w bs st]
  by (simp add: sort_keys_JObj parsed_of_def wf_json_iff del: sort_keys.simps wf_json.simps wf_sort_keys plain_floats.simps)

lemma plain_floats_log: "list_all (\<lambda>p. plain_floats (JObj (pr_value p))) (records (lines_of (log_text bs ws)))"
  using lines_of_log [where r = "[]" and bs = bs and st = replay_init and ws = ws] records_log_lines plain_floats_parsed
  by (fastforce simp: list_all_iff simp del: plain_floats.simps)

end
