(* ===== verification/Journal_Ops.thy ===== *)
theory Journal_Ops
  imports Journal_Open
begin

text \<open>
  Provisioning, snapshots and compaction on a journal that stands for a history, the refusal
  to open a damaged log, and the interface \<open>block_device\<close> that the journal provides to its
  clients.
\<close>

section \<open>Provisioning\<close>

lemma read_metadata_json:
  "list_all is_ws r \<Longrightarrow> read_metadata (canonical (metadata_json device nb bs) @ r) = Inr (device, nb, bs)"
proof -
  assume r: "list_all is_ws r"
  let ?d = "[(''format'', JStr journal_format), (''device_id'', JStr device), (''blocks'', JInt nb), (''block_size'', JInt bs)]"
  have "json_loads (canonical (JObj ?d) @ r) = Some (JObj (sorted_dict ?d))"
    using r by (intro loads_dict) simp
  moreover have "distinct (keys ?d)" by simp
  note map_of_sorted_dict [OF this]
  ultimately show ?thesis
    by (simp add: read_metadata_def metadata_json_def dict_item_def dict_int_def)
qed

lemma provision_rel:
  assumes "1 \<le> nb" "512 \<le> bs" "bs AND (bs - 1) = 0"
  obtains j where "provision False uuid nb bs dev = Inr j" "journal_rel j []" "blocks j = nb" "block_size j = bs"
    "f_base (j_files j) = replicate (nat (nb * bs)) 0" "j_snapshots j = []"
proof -
  let ?device = "case dev of Some d \<Rightarrow> if d = [] then uuid else d | None \<Rightarrow> uuid"
  let ?fs = "\<lparr>f_metadata = canonical (metadata_json ?device nb bs) @ [nl], f_base = replicate (nat (nb * bs)) 0,
               f_log = [], f_sidecars = []\<rparr> :: ns"
  let ?j = "\<lparr>j_files = ?fs, j_snapshots = [], device_id = ?device, blocks = nb, block_size = bs,
             overlay = Map.empty, index = [], last_hash = zero_hash, next_sequence = 1, log_size = 0,
             recovered_tail = None\<rparr> :: journal"
  have len: "int (nat (nb * bs)) = nb * bs" using assms by simp
  have rel: "journal_rel ?j []"
    using assms len by (simp add: journal_rel_def read_metadata_json is_ws_def)
  have "provision False uuid nb bs dev = open_journal ?fs []"
    using assms by (simp add: provision_def Let_def)
  also have "\<dots> = Inr ?j"
    using reopen [OF rel, of "[]"] by simp
  finally show thesis using rel by (intro that [of ?j]) simp_all
qed

section \<open>Snapshots\<close>

lemma loads_line_of:
  "json_loads (line_of bs st w) = Some (JObj (sorted_dict (full_record bs st w)))"
  unfolding line_of_eq by (rule loads_dict [OF wf_record(1)]) (simp add: is_ws_def)

lemma sequence_line_of:
  "dict_int (sorted_dict (full_record bs st w)) ''sequence'' = Inr (expected_sequence st)"
proof -
  have "distinct (keys (full_record bs st w))" by (simp add: record_body_def)
  then show ?thesis
    unfolding dict_int_sorted [OF \<open>distinct _\<close>] by (simp add: dict_int_def dict_item_def record_body_def)
qed

lemma kept_lines_log:
  "kept_lines n (log_lines bs st ws) = Inr (concat (log_lines bs st (take (nat (n - expected_sequence st + 1)) ws)))"
proof (induction ws arbitrary: st)
  case (Cons w ws)
  have nb: "strip (line_of bs st w) \<noteq> []"
    unfolding line_of_eq by (rule canonical_nonblank)
  have last: "last (line_of bs st w) = nl"
    unfolding line_of_eq by simp
  show ?case
  proof (cases "n < expected_sequence st")
    case True
    then show ?thesis using nb by (simp add: loads_line_of sequence_line_of)
  next
    case False
    then have "nat (n - expected_sequence st + 1) = Suc (nat (n - expected_sequence (step_write bs st w) + 1))"
      by simp
    then show ?thesis using False nb last Cons by (simp add: loads_line_of sequence_line_of)
  qed
qed simp

lemma rel_prefix:
  assumes "journal_rel j ws" "fs = \<lparr>f_metadata = f_metadata (j_files j), f_base = f_base (j_files j),
      f_log = log_text (block_size j) (take n ws), f_sidecars = sc\<rparr>"
  obtains j' where "open_journal fs snaps = Inr j'" "journal_rel j' (take n ws)" "j_files j' = fs"
    "blocks j' = blocks j" "block_size j' = block_size j"
proof -
  let ?st = "log_state (block_size j) (take n ws)"
  let ?j = "j\<lparr>j_files := fs, j_snapshots := snaps, recovered_tail := None, overlay := rs_overlay ?st,
      index := rs_index ?st, last_hash := expected_hash ?st, next_sequence := expected_sequence ?st, log_size := rs_offset ?st\<rparr>"
  have "list_all (valid_write (blocks j) (block_size j)) (take n ws)"
    using assms(1) by (auto simp: journal_rel_def list_all_iff dest: in_set_takeD)
  then have rel: "journal_rel ?j (take n ws)"
    using assms by (simp add: journal_rel_def)
  then show thesis
    using reopen [OF rel, of snaps] by (intro that [of ?j]) simp_all
qed

definition good_name :: "string \<Rightarrow> bool" where
  "good_name name \<longleftrightarrow> name \<noteq> [] \<and> set name \<subseteq> set name_alphabet"

lemma snapshot_rel:
  assumes rel: "journal_rel j ws" and name: "good_name name" "map_of (j_snapshots j) name = None"
    and s: "case s of None \<Rightarrow> True | Some n \<Rightarrow> 0 \<le> n \<and> n \<le> int (length ws)"
  defines "copy \<equiv> \<lparr>f_metadata = f_metadata (j_files j), f_base = f_base (j_files j),
      f_log = log_text (block_size j) (seen s ws), f_sidecars = []\<rparr> :: ns"
  shows "snapshot name s j = (Inr name, put_snapshot name (Some copy) j)"
    "\<exists>j'. open_journal copy snaps = Inr j' \<and> journal_rel j' (seen s ws) \<and> blocks j' = blocks j \<and>
          block_size j' = block_size j \<and> f_base (j_files j') = f_base (j_files j)"
proof -
  let ?n = "case s of None \<Rightarrow> length ws | Some n \<Rightarrow> nat n"
  have take: "seen s ws = take ?n ws" by (simp add: seen_def split: option.splits)
  have log: "f_log (j_files j) = log_text (block_size j) ws"
    using rel by (simp add: journal_rel_def)
  have last: "last_sequence j = int (length ws)"
    using rel by (simp add: journal_rel_def last_sequence_def log_state_sequence)
  have "(case s of None \<Rightarrow> Inr (f_log (j_files j)) | Some n \<Rightarrow> kept_lines n (lines_of (f_log (j_files j)))) = Inr (f_log copy)"
    using lines_of_log [where r = "[]" and bs = "block_size j" and st = replay_init and ws = ws]
    by (simp add: copy_def log kept_lines_log seen_def split: option.splits)
  moreover obtain j1 where j1: "open_journal copy [] = Inr j1" "j_files j1 = copy"
    using rel by (rule rel_prefix [where n = ?n]) (simp_all add: copy_def take)
  ultimately show "snapshot name s j = (Inr name, put_snapshot name (Some copy) j)"
    using name s by (auto simp: snapshot_def good_name_def list_all_iff last copy_def Let_def split: option.splits)
  obtain j' where "open_journal copy snaps = Inr j'" "journal_rel j' (take ?n ws)" "j_files j' = copy"
    "blocks j' = blocks j" "block_size j' = block_size j"
    using rel by (rule rel_prefix [where n = ?n and snaps = snaps]) (simp_all add: copy_def take)
  then show "\<exists>j'. open_journal copy snaps = Inr j' \<and> journal_rel j' (seen s ws) \<and> blocks j' = blocks j \<and>
      block_size j' = block_size j \<and> f_base (j_files j') = f_base (j_files j)"
    unfolding take by (auto simp: copy_def)
qed

section \<open>Compaction\<close>

lemma extent_all: "0 \<le> nb * bs \<Longrightarrow> int (length img) = nb * bs \<Longrightarrow> extent bs 0 nb img = img"
  by (simp add: extent_def)

lemma blocks_ext:
  assumes "0 < bs" "0 \<le> nb" "int (length x) = nb * bs" "int (length y) = nb * bs"
    and "\<And>k. 0 \<le> k \<Longrightarrow> k < nb \<Longrightarrow> extent bs k 1 x = extent bs k 1 y"
  shows "x = y"
proof -
  have "concat (map (\<lambda>k. extent bs k 1 x) [0 .. nb - 1]) = concat (map (\<lambda>k. extent bs k 1 y) [0 .. nb - 1])"
    using assms(5) by (intro arg_cong [where f = concat] map_cong) auto
  then have "extent bs 0 nb x = extent bs 0 nb y"
    using concat_blocks [OF assms(1), of 0 x "nat nb"] concat_blocks [OF assms(1), of 0 y "nat nb"] assms(2) by simp
  then show ?thesis using extent_all assms(1-4) by simp
qed

text \<open>Writing a history again over its own result changes nothing.\<close>

lemma disk_idem:
  assumes "0 < bs" "0 \<le> nb" "list_all (valid_write nb bs) ws" "int (length base) = nb * bs"
  shows "disk bs (disk bs base ws) ws = disk bs base ws"
proof -
  have len: "int (length (disk bs base ws)) = nb * bs"
    using length_disk [OF assms(1,3,4)] assms(4) by simp
  then have len2: "int (length (disk bs (disk bs base ws) ws)) = nb * bs"
    using length_disk [OF assms(1,3) len] by simp
  show ?thesis
    using assms(1,2) len2 len
    by (rule blocks_ext) (simp add: block_disk [OF assms(1,3) len] block_disk [OF assms(1,3,4)] split: option.splits)
qed

lemma blocks_nonneg: "reads_as j ws \<Longrightarrow> 0 \<le> blocks j"
  unfolding reads_as_def by (metis mult_neg_pos not_le of_nat_0_le_iff)

lemma materialise_disk:
  assumes rel: "reads_as j ws" and "0 \<le> start" "blocks j \<le> start + 256 * int n"
  shows "materialise j n start =
    Inr (drop (nat (start * block_size j)) (disk (block_size j) (f_base (j_files j)) ws))"
  using assms(2,3)
proof (induction n arbitrary: start)
  case 0
  let ?img = "disk (block_size j) (f_base (j_files j)) ws"
  have bs: "0 < block_size j" and len: "int (length ?img) = blocks j * block_size j"
    using rel length_disk [of "block_size j" "blocks j" ws] by (simp_all add: reads_as_def)
  have "blocks j * block_size j \<le> start * block_size j" using 0 bs by simp
  then show ?case using len by simp
next
  case (Suc n)
  let ?img = "disk (block_size j) (f_base (j_files j)) ws" and ?bs = "block_size j"
  have bs: "0 < ?bs" and len: "int (length ?img) = blocks j * ?bs"
    using rel length_disk [of ?bs "blocks j" ws] by (simp_all add: reads_as_def)
  have drop_end: "drop (nat (x * ?bs)) ?img = []" if "blocks j \<le> x" for x
  proof -
    have "blocks j * ?bs \<le> x * ?bs" using that bs by simp
    then show ?thesis using len by simp
  qed
  show ?case
  proof (cases "blocks j \<le> start")
    case True
    then show ?thesis using drop_end by simp
  next
    case False
    define cnt where "cnt = min 256 (blocks j - start)"
    have cnt: "1 \<le> cnt" "start + cnt \<le> blocks j" using False by (auto simp: cnt_def)
    have part: "journal_read j start cnt None = Inr (extent ?bs start cnt ?img)"
      using journal_read_disk [OF rel, of start cnt None] cnt Suc.prems(1) by (simp add: seen_def)
    have rest: "materialise j n (start + 256) = Inr (drop (nat ((start + 256) * ?bs)) ?img)"
      using Suc.prems by (intro Suc.IH) auto
    have "drop (nat ((start + 256) * ?bs)) ?img = drop (nat ((start + cnt) * ?bs)) ?img"
      using drop_end [of "start + 256"] drop_end [of "start + cnt"] by (cases "blocks j - start < 256") (auto simp: cnt_def min_def)
    moreover have "nat ((start + cnt) * ?bs) = nat (start * ?bs) + nat (cnt * ?bs)"
      using bs Suc.prems(1) cnt(1) by (simp add: distrib_right nat_add_distrib)
    moreover have "take (nat (cnt * ?bs)) (drop (nat (start * ?bs)) ?img)
        @ drop (nat (start * ?bs) + nat (cnt * ?bs)) ?img = drop (nat (start * ?bs)) ?img"
      using append_take_drop_id [of "nat (cnt * ?bs)" "drop (nat (start * ?bs)) ?img"] by (simp add: add.commute)
    ultimately show ?thesis
      using False part rest by (simp add: compact_chunk_blocks_def cnt_def [symmetric] extent_def)
  qed
qed

lemma compact_rel:
  assumes rel: "journal_rel j ws" and name: "good_name name" "map_of (j_snapshots j) name = None"
  defines "img \<equiv> disk (block_size j) (f_base (j_files j)) ws"
  shows "fst (journal_compact name j) = Inr ()" "journal_rel (snd (journal_compact name j)) []"
    "f_base (j_files (snd (journal_compact name j))) = img"
    "map_of (j_snapshots (snd (journal_compact name j))) name =
       Some (Some \<lparr>f_metadata = f_metadata (j_files j), f_base = f_base (j_files j), f_log = f_log (j_files j), f_sidecars = []\<rparr>)"
    "blocks (snd (journal_compact name j)) = blocks j" "block_size (snd (journal_compact name j)) = block_size j"
proof -
  have log: "f_log (j_files j) = log_text (block_size j) ws"
    using rel by (simp add: journal_rel_def)
  let ?copy = "\<lparr>f_metadata = f_metadata (j_files j), f_base = f_base (j_files j), f_log = f_log (j_files j), f_sidecars = []\<rparr> :: ns"
  let ?j1 = "put_snapshot name (Some ?copy) j"
  have snap: "snapshot name None j = (Inr name, ?j1)"
    using snapshot_rel(1) [OF rel name, of None] by (simp add: seen_def log)
  have r1: "reads_as ?j1 ws"
    using rel_reads_as [OF rel] by (simp add: reads_as_def put_snapshot_def)
  have "materialise ?j1 (nat (blocks ?j1)) 0 = Inr img"
    using materialise_disk [OF r1, of 0 "nat (blocks ?j1)"] blocks_nonneg [OF r1] by (simp add: img_def put_snapshot_def)
  then have c: "journal_compact name j = (Inr (), ?j1\<lparr>j_files := (j_files j)\<lparr>f_base := img, f_log := []\<rparr>,
      overlay := Map.empty, index := [], last_hash := zero_hash, next_sequence := 1, log_size := 0\<rparr>)"
    using snap by (simp add: journal_compact_def bind_op_def) (simp add: put_snapshot_def)
  show "fst (journal_compact name j) = Inr ()" "f_base (j_files (snd (journal_compact name j))) = img"
    "blocks (snd (journal_compact name j)) = blocks j" "block_size (snd (journal_compact name j)) = block_size j"
    "map_of (j_snapshots (snd (journal_compact name j))) name = Some (Some ?copy)"
    by (simp_all add: c put_snapshot_def update_conv)
  have "int (length img) = blocks j * block_size j"
    using length_disk [of "block_size j" "blocks j" ws "f_base (j_files j)"] rel by (simp add: img_def journal_rel_def)
  then show "journal_rel (snd (journal_compact name j)) []"
    using rel by (simp add: c put_snapshot_def journal_rel_def)
qed

text \<open>A crash between the two renames of \<open>compact\<close>: the new base with the old log.\<close>

lemma compact_crash:
  assumes rel: "journal_rel j ws"
  defines "img \<equiv> disk (block_size j) (f_base (j_files j)) ws"
  shows "\<exists>j'. open_journal ((j_files j)\<lparr>f_base := img\<rparr>) snaps = Inr j' \<and> journal_rel j' ws \<and>
    f_base (j_files j') = img \<and> blocks j' = blocks j \<and> block_size j' = block_size j \<and>
    disk (block_size j) (f_base (j_files j')) ws = img"
proof -
  have rd: "reads_as j ws" using rel by (rule rel_reads_as)
  have len: "int (length img) = blocks j * block_size j"
    using length_disk [of "block_size j" "blocks j" ws "f_base (j_files j)"] rd by (simp add: img_def reads_as_def)
  let ?j = "j\<lparr>j_files := (j_files j)\<lparr>f_base := img\<rparr>\<rparr>"
  have r: "journal_rel ?j ws" using rel len by (simp add: journal_rel_def)
  have "disk (block_size j) img ws = img"
    unfolding img_def using rd blocks_nonneg [OF rd] by (intro disk_idem) (auto simp: reads_as_def)
  then show ?thesis
    using reopen [OF r, of snaps] r by (auto simp: journal_rel_def)
qed

section \<open>Damage that is refused\<close>

text \<open>An unreadable line before the end of the log.\<close>

lemma open_damaged_middle:
  assumes rel: "journal_rel j ws" and l: "nl \<notin> set l" "strip (l @ [nl]) \<noteq> []" "parse_record (l @ [nl]) = None"
    and r: "r \<noteq> []" and fs: "fs = (j_files j)\<lparr>f_log := f_log (j_files j) @ l @ nl # r\<rparr>"
  shows "open_journal fs snaps = Inl (JournalCorruptionError ''invalid journal record'' (int (length ws) + 1))"
proof -
  let ?bs = "block_size j" and ?st = "log_state (block_size j) ws"
  have log: "f_log (j_files j) = log_text ?bs ws"
    using rel by (simp add: journal_rel_def)
  have "open_journal fs snaps = replay (blank_journal j fs snaps)"
    by (rule open_journal_rel [OF rel]) (simp_all add: fs)
  also have "\<dots> = bind_res (replay_loop (blocks j) ?bs (length (f_log fs)) (lines_of (l @ nl # r)) ?st)
      (\<lambda>x. Inr (finish_replay (blank_journal j fs snaps) x))"
    by (rule replay_blank_history [OF rel]) (simp add: fs log)
  also have "\<dots> = Inl (JournalCorruptionError ''invalid journal record'' (int (length ws) + 1))"
    using l r unfolding lines_of_line [OF l(1)]
    by (simp add: fs log log_state_offset corrupt_def log_state_line_number Let_def)
  finally show ?thesis .
qed

text \<open>A line that parses but fails a check, wherever it stands, is refused with that check's error.\<close>

lemma open_rejected_record:
  assumes rel: "journal_rel j ws" and l: "lines_of (l @ r) = l # rest" "strip l \<noteq> []" "parse_record l = Some p"
    and bad: "check_record (blocks j) (block_size j)
      ((log_state (block_size j) ws)\<lparr>rs_offset := log_size j + length l, line_number := Suc (length ws)\<rparr>) p = Inl e"
    and fs: "fs = (j_files j)\<lparr>f_log := f_log (j_files j) @ l @ r\<rparr>"
  shows "open_journal fs snaps = Inl e"
proof -
  let ?bs = "block_size j" and ?st = "log_state (block_size j) ws"
  have log: "f_log (j_files j) = log_text ?bs ws" "log_size j = rs_offset ?st"
    using rel by (simp_all add: journal_rel_def)
  have "open_journal fs snaps = replay (blank_journal j fs snaps)"
    by (rule open_journal_rel [OF rel]) (simp_all add: fs)
  also have "\<dots> = bind_res (replay_loop (blocks j) ?bs (length (f_log fs)) (lines_of (l @ r)) ?st)
      (\<lambda>x. Inr (finish_replay (blank_journal j fs snaps) x))"
    by (rule replay_blank_history [OF rel]) (simp add: fs log)
  also have "\<dots> = Inl e"
    using l bad by (simp add: log log_state_line_number Let_def)
  finally show ?thesis .
qed

text \<open>The line \<open>append\<close> writes for a write is a function of the state alone.\<close>

lemma append_log:
  assumes "0 < block_size j" "valid_write (blocks j) (block_size j) (b, d)"
  shows "j_files (snd (journal_append b d j)) = (j_files j)\<lparr>f_log := f_log (j_files j) @ next_line j (b, d)\<rparr>"
    "fst (journal_append b d j) = Inr (next_sequence j)"
  using assms by (simp_all add: journal_append_cases next_line_def)

text \<open>
  A power cut that loses only the line break of a record: the journal opens with the record,
  the next write is accepted and acknowledged, and opening the result sets both records aside.
\<close>

lemma newline_tear:
  assumes rel: "journal_rel j ws" and w: "valid_write (blocks j) (block_size j) (b, d)"
    "valid_write (blocks j) (block_size j) (b2, d2)"
    and fs: "fs = (j_files j)\<lparr>f_log := f_log (j_files j) @ butlast (next_line j (b, d))\<rparr>"
  shows "\<exists>j1 q. open_journal fs snaps = Inr j1 \<and> fst (journal_append b2 d2 j1) = Inr q \<and>
    (\<exists>t. open_journal (j_files (snd (journal_append b2 d2 j1))) snaps = Inr (set_aside j t snaps))"
proof -
  let ?bs = "block_size j" and ?st = "log_state (block_size j) ws"
  define c where "c = canonical (JObj (full_record ?bs ?st (b, d)))"
  have line: "next_line j (b, d) = c @ [nl]"
    using next_line_rel [OF rel] by (simp add: line_of_eq c_def)
  have bs: "0 < ?bs" using rel by (simp add: journal_rel_def)
  define j1 where "j1 = (snd (journal_append b d j))\<lparr>j_snapshots := snaps, recovered_tail := None, j_files := fs,
      log_size := length (f_log fs)\<rparr>"
  have op: "open_journal fs snaps = Inr j1"
    unfolding j1_def by (rule open_missing_newline [OF rel w(1) fs])
  have dims: "blocks j1 = blocks j" "block_size j1 = ?bs" "j_files j1 = fs"
    by (simp_all add: j1_def)
  define c2 where "c2 = butlast (next_line j1 (b2, d2))"
  obtain d2' where line2: "next_line j1 (b2, d2) = c2 @ [nl]" "c2 = canonical (JObj d2')" "wf_json (JObj d2')"
    by (rule that [of "record_body b2 (wcount ?bs (b2, d2)) d2 (last_hash j1) (next_sequence j1)
        @ [(''record_hash'', JStr (record_hash b2 (wcount ?bs (b2, d2)) d2 (last_hash j1) (next_sequence j1)))]"])
      (simp_all add: next_line_def record_line_def dims c2_def record_body_def)
  obtain t where t: "c2 = CHR ''{'' # t" using canonical_dict_hd line2(2) by blast
  let ?t = "c @ c2 @ [nl]"
  have log: "j_files (snd (journal_append b2 d2 j1)) = (j_files j)\<lparr>f_log := f_log (j_files j) @ ?t\<rparr>"
    using append_log(1) [of j1 b2 d2] bs w(2) by (simp add: dims line2(1) fs line)
  have "nl \<notin> set (c @ c2)"
    using record_no_nl [where bs = ?bs and st = ?st and w = "(b, d)"] canonical_no_nl [OF line2(3)]
    by (simp add: c_def line2(2))
  then have lines: "lines_of ?t = [?t]"
    using lines_of_line [of "c @ c2" "[]"] by simp
  have "json_loads ?t = None"
    unfolding t c_def
    using loads_dict_extra [OF wf_record(1) [of "(b, d)" ?bs ?st], of "t @ [nl]"] by simp
  then have none: "parse_record ?t = None"
    by (simp add: parse_record_def)
  have blank: "strip ?t \<noteq> []"
    unfolding c_def by (rule canonical_nonblank)
  have "fst (journal_append b2 d2 j1) = Inr (next_sequence j1)"
    using append_log(2) [of j1 b2 d2] bs w(2) by (simp add: dims)
  then show ?thesis
    using op open_bad_tail [OF rel lines blank none log] by blast
qed

section \<open>The journal as a block device\<close>

text \<open>
  What a client may rely on: a state has an image, reads return its bytes, an accepted write
  replaces them and nothing else, and a refused write changes nothing.
\<close>

locale block_device =
  fixes inv :: "'s \<Rightarrow> bool" and img :: "'s \<Rightarrow> bytes" and nb bs :: "'s \<Rightarrow> int"
    and rd :: "'s \<Rightarrow> int \<Rightarrow> int \<Rightarrow> bytes res" and wr :: "int \<Rightarrow> bytes \<Rightarrow> 's \<Rightarrow> int res \<times> 's"
  assumes size: "inv s \<Longrightarrow> 0 < bs s \<and> int (length (img s)) = nb s * bs s"
    and rd_img: "inv s \<Longrightarrow> 0 \<le> b \<Longrightarrow> 1 \<le> n \<Longrightarrow> b + n \<le> nb s \<Longrightarrow> rd s b n = Inr (extent (bs s) b n (img s))"
    and wr_inv: "inv s \<Longrightarrow> inv (snd (wr b d s))"
    and wr_frame: "nb (snd (wr b d s)) = nb s" "bs (snd (wr b d s)) = bs s"
    and wr_img: "inv s \<Longrightarrow> valid_write (nb s) (bs s) (b, d) \<Longrightarrow> img (snd (wr b d s)) = apply_write (bs s) (img s) (b, d)"
    and wr_ack: "inv s \<Longrightarrow> (\<exists>q. fst (wr b d s) = Inr q) \<longleftrightarrow> valid_write (nb s) (bs s) (b, d)"
begin

lemma extent_write_same:
  assumes "inv s" "valid_write (nb s) (bs s) (b, d)"
  shows "extent (bs s) b (wcount (bs s) (b, d)) (apply_write (bs s) (img s) (b, d)) = d"
proof -
  have bs: "0 < bs s" and len: "int (length (img s)) = nb s * bs s" using size [OF assms(1)] by auto
  note w = valid_write_bytes [OF bs assms(2)]
  have "nat (wcount (bs s) (b, d) * bs s) = length d"
    using w(2) by (metis nat_int snd_conv)
  moreover have "nat (b * bs s) \<le> length (img s)"
    using w(3,4) len by simp
  ultimately show ?thesis
    by (simp add: extent_def apply_write_def splice_same)
qed

lemma read_after_write:
  assumes "inv s" "fst (wr b d s) = Inr q"
  shows "rd (snd (wr b d s)) b (wcount (bs s) (b, d)) = Inr d"
proof -
  have v: "valid_write (nb s) (bs s) (b, d)" using wr_ack assms by blast
  have bs: "0 < bs s" using size [OF assms(1)] by auto
  have "1 \<le> wcount (bs s) (b, d)" using valid_write_bytes(1) [OF bs v] .
  then show ?thesis
    using v rd_img [OF wr_inv [OF assms(1)]] wr_img [OF assms(1) v] extent_write_same [OF assms(1) v]
    by (simp add: wr_frame valid_write_def)
qed

lemma read_elsewhere:
  assumes "inv s" "fst (wr b d s) = Inr q" "0 \<le> c" "1 \<le> n" "c + n \<le> nb s"
    and "c + n \<le> b \<or> b + wcount (bs s) (b, d) \<le> c"
  shows "rd (snd (wr b d s)) c n = rd s c n"
proof -
  have v: "valid_write (nb s) (bs s) (b, d)" using wr_ack assms by blast
  have bs: "0 < bs s" and len: "int (length (img s)) = nb s * bs s" using size [OF assms(1)] by auto
  note w = valid_write_bytes [OF bs v]
  have off: "nat (b * bs s) \<le> length (img s)" using w(3,4) len by simp
  have "extent (bs s) c n (apply_write (bs s) (img s) (b, d)) = extent (bs s) c n (img s)"
    using assms(6)
  proof
    assume "c + n \<le> b"
    then have "(c + n) * bs s \<le> b * bs s" using bs by (intro mult_right_mono) auto
    then have "nat (c * bs s) + nat (n * bs s) \<le> nat (b * bs s)"
      using assms(3,4) bs by (simp add: distrib_right nat_add_distrib [symmetric])
    then show ?thesis using off by (simp add: extent_def apply_write_def splice_before)
  next
    assume "b + wcount (bs s) (b, d) \<le> c"
    then have "(b + wcount (bs s) (b, d)) * bs s \<le> c * bs s" using bs by (intro mult_right_mono) auto
    then have "nat (b * bs s) + length d \<le> nat (c * bs s)"
      using w(2,3) by (simp add: distrib_right)
    then show ?thesis using off by (simp add: extent_def apply_write_def splice_after)
  qed
  then show ?thesis
    using assms rd_img [OF wr_inv [OF assms(1)]] wr_img [OF assms(1) v] rd_img [OF assms(1)] by (simp add: wr_frame)
qed

end

text \<open>The image of a journal, and the journals that \<open>provision\<close>, \<open>append\<close> and \<open>compact\<close> lead to.\<close>

definition jimage :: "journal \<Rightarrow> bytes" where
  "jimage j = disk (block_size j) (f_base (j_files j)) (history (f_log (j_files j)))"

definition jinv :: "journal \<Rightarrow> bool" where
  "jinv j \<longleftrightarrow> (\<exists>ws. journal_rel j ws)"

lemma jimage_rel: "journal_rel j ws \<Longrightarrow> jimage j = disk (block_size j) (f_base (j_files j)) ws"
  by (simp add: jimage_def journal_rel_def history_log_text)

interpretation jdev: block_device jinv jimage blocks block_size "\<lambda>j b n. journal_read j b n None" journal_append
proof
  fix s :: journal and b n d
  assume inv: "jinv s"
  then obtain ws where rel: "journal_rel s ws" by (auto simp: jinv_def)
  then have rd: "reads_as s ws" and bs: "0 < block_size s" and img: "jimage s = disk (block_size s) (f_base (j_files s)) ws"
    using rel_reads_as jimage_rel by (auto simp: journal_rel_def)
  show "0 < block_size s \<and> int (length (jimage s)) = blocks s * block_size s"
    using rd length_disk [of "block_size s" "blocks s" ws "f_base (j_files s)"] by (simp add: reads_as_def img)
  show "journal_read s b n None = Inr (extent (block_size s) b n (jimage s))" if "0 \<le> b" "1 \<le> n" "b + n \<le> blocks s"
    using that journal_read_disk [OF rd, of b n None] by (simp add: img seen_def)
  show "jinv (snd (journal_append b d s))"
  proof (cases "valid_write (blocks s) (block_size s) (b, d)")
    case True
    then show ?thesis using append_rel(2) [OF rel True] by (auto simp: jinv_def)
  next
    case False
    then show ?thesis using inv by (simp add: journal_append_cases [OF bs])
  qed
  show "jimage (snd (journal_append b d s)) = apply_write (block_size s) (jimage s) (b, d)"
    if v: "valid_write (blocks s) (block_size s) (b, d)"
    using jimage_rel [OF append_rel(2) [OF rel v]] by (simp add: img)
  show "(\<exists>q. fst (journal_append b d s) = Inr q) \<longleftrightarrow> valid_write (blocks s) (block_size s) (b, d)"
    by (simp add: journal_append_cases [OF bs])
qed simp_all

end
