(* ===== verification/Journal_Spec.thy ===== *)
theory Journal_Spec
  imports Journal_Ops
begin

text \<open>
  The properties of the durable journal. \<open>reachable\<close> holds the journals that a run can
  produce: a provisioned one, and what \<open>append\<close>, \<open>snapshot\<close>, \<open>compact\<close>, an orderly
  restart and a restart after a power cut inside \<open>append\<close> make of a reachable one. The directory of
  snapshots is open to others: it may change in any way in between.
\<close>

section \<open>Reachable journals\<close>

inductive reachable :: "journal \<Rightarrow> bool" where
  provisioned: "provision False uuid nb bs dev = Inr j \<Longrightarrow> reachable j"
| appended: "reachable j \<Longrightarrow> reachable (snd (journal_append b d j))"
| snapshotted: "reachable j \<Longrightarrow> reachable (snd (snapshot name s j))"
| compacted: "reachable j \<Longrightarrow> reachable (snd (journal_compact name j))"
| reopened: "reachable j \<Longrightarrow> open_journal (j_files j) snaps = Inr j' \<Longrightarrow> reachable j'"
| torn: "reachable j \<Longrightarrow> 0 < k \<Longrightarrow> Suc k < length (next_line j w) \<Longrightarrow>
    open_journal ((j_files j)\<lparr>f_log := f_log (j_files j) @ take k (next_line j w)\<rparr>) snaps = Inr j' \<Longrightarrow> reachable j'"
| relisted: "reachable j \<Longrightarrow> reachable (j\<lparr>j_snapshots := snaps\<rparr>)"

lemma provision_Inr:
  assumes "provision ex uuid nb bs dev = Inr j"
  shows "journal_rel j []"
proof -
  have p: "1 \<le> nb" "512 \<le> bs" "bs AND (bs - 1) = 0" "ex = False"
    using assms by (auto simp: provision_def split: if_splits)
  show ?thesis
    using provision_rel [OF p(1-3), of uuid dev] assms p(4) by auto
qed

lemma put_snapshot_rel: "journal_rel (put_snapshot n v j) ws = journal_rel j ws"
  by (simp add: journal_rel_def put_snapshot_def)

lemma snapshot_keeps_rel: "journal_rel j ws \<Longrightarrow> journal_rel (snd (snapshot name s j)) ws"
  by (auto simp: snapshot_def Let_def put_snapshot_rel split: sum.splits)

lemma snapshot_files: "j_files (snd (snapshot name s j)) = j_files j"
  by (auto simp: snapshot_def Let_def put_snapshot_def split: sum.splits)

lemma snapshot_ok:
  assumes "journal_rel j ws" "fst (snapshot name s j) = Inr r"
  shows "good_name name" "map_of (j_snapshots j) name = None"
  using assms(2) by (auto simp: snapshot_def good_name_def list_all_iff split: if_splits)

lemma compact_keeps_inv:
  assumes "journal_rel j ws"
  shows "\<exists>vs. journal_rel (snd (journal_compact name j)) vs"
proof (cases "snapshot name None j")
  case (Pair r j1)
  show ?thesis
  proof (cases r)
    case (Inl e)
    then show ?thesis
      using Pair snapshot_keeps_rel [OF assms, of name None] by (auto simp: journal_compact_def bind_op_def)
  next
    case (Inr x)
    then show ?thesis
      using compact_rel(2) [OF assms] snapshot_ok [OF assms, of name None] Pair by auto
  qed
qed

lemma reachable_jinv: "reachable j \<Longrightarrow> jinv j"
proof (induction rule: reachable.induct)
  case (provisioned uuid nb bs dev j)
  then show ?case unfolding jinv_def using provision_Inr by blast
next
  case (appended j b d)
  then show ?case using jdev.wr_inv by blast
next
  case (snapshotted j name s)
  then show ?case unfolding jinv_def using snapshot_keeps_rel by blast
next
  case (compacted j name)
  then show ?case unfolding jinv_def using compact_keeps_inv by blast
next
  case (reopened j snaps j')
  then obtain ws where rel: "journal_rel j ws" by (auto simp: jinv_def)
  then have "j' = j\<lparr>j_snapshots := snaps, recovered_tail := None\<rparr>"
    using reopen [OF rel, of snaps] reopened by simp
  then show ?case using rel by (auto simp: jinv_def journal_rel_def)
next
  case (torn j k w snaps j')
  then obtain ws where rel: "journal_rel j ws" by (auto simp: jinv_def)
  then have "j' = set_aside j (take k (next_line j w)) snaps"
    using open_torn [OF rel torn(2,3) refl, of snaps] torn(4) by simp
  then show ?case using set_aside_rel [OF rel] by (auto simp: jinv_def)
next
  case (relisted j snaps)
  then show ?case by (auto simp: jinv_def journal_rel_def)
qed

abbreviation hist :: "journal \<Rightarrow> jwrite list" where
  "hist j \<equiv> history (f_log (j_files j))"

lemma rel_hist: "journal_rel j ws \<Longrightarrow> hist j = ws"
  by (simp add: journal_rel_def history_log_text)

lemma reachable_rel: "reachable j \<Longrightarrow> journal_rel j (hist j)"
  using reachable_jinv rel_hist unfolding jinv_def by metis

lemma reachable_reads: "reachable j \<Longrightarrow> reads_as j (hist j)"
  using reachable_rel rel_reads_as by blast

lemma reachable_last: "reachable j \<Longrightarrow> last_sequence j = int (length (hist j))"
  using reachable_reads by (auto simp: reads_as_def last_sequence_def)

text \<open>A journal to state examples on: four blocks of 512 bytes, one written.\<close>

definition sample0 :: journal where
  "sample0 = projr (provision False ''id'' 4 512 (Some ''dev''))"

abbreviation page :: "byte \<Rightarrow> bytes" where
  "page x \<equiv> replicate 512 x"

definition sample1 :: journal where
  "sample1 = snd (journal_append 1 (page 7) sample0)"

lemma sample0_facts: "reachable sample0" "journal_rel sample0 []" "blocks sample0 = 4" "block_size sample0 = 512"
  "j_snapshots sample0 = []"
proof -
  obtain j where j: "provision False ''id'' 4 512 (Some ''dev'') = Inr j" "journal_rel j []" "blocks j = 4"
    "block_size j = 512" "j_snapshots j = []"
    by (rule provision_rel [of 4 512]) (simp_all, blast)
  then show "reachable sample0" "journal_rel sample0 []" "blocks sample0 = 4" "block_size sample0 = 512" "j_snapshots sample0 = []"
    using reachable.provisioned [OF j(1)] by (simp_all add: sample0_def)
qed

lemma sample1_facts: "reachable sample1" "journal_rel sample1 [(1, page 7)]" "blocks sample1 = 4" "block_size sample1 = 512"
  "j_snapshots sample1 = []" "hist sample1 = [(1, page 7)]"
proof -
  have v: "valid_write (blocks sample0) (block_size sample0) (1, page 7)"
    by (simp add: valid_write_def wcount_def sample0_facts)
  show rel: "journal_rel sample1 [(1, page 7)]"
    using append_rel(2) [OF sample0_facts(2) v] by (simp add: sample1_def)
  show "reachable sample1" unfolding sample1_def by (rule reachable.appended) (rule sample0_facts)
  show "blocks sample1 = 4" "block_size sample1 = 512" "j_snapshots sample1 = []"
    by (simp_all add: sample1_def sample0_facts)
  show "hist sample1 = [(1, page 7)]"
    using rel by (rule rel_hist)
qed

lemma sample_write: "valid_write (blocks sample1) (block_size sample1) (0, page 9 @ page 8)"
  by (simp add: valid_write_def wcount_def sample1_facts)

lemma sample_open: "open_journal (j_files sample1) (j_snapshots sample1) = Inr (sample1\<lparr>recovered_tail := None\<rparr>)"
  using reopen [OF sample1_facts(2), of "j_snapshots sample1"] by simp

lemma sample_ack: "fst (journal_append 0 (page 9 @ page 8) sample1) = Inr 2"
  using append_rel(1) [OF sample1_facts(2) sample_write] by simp

section \<open>Durability and reads\<close>

text \<open>
  C1. Opening the files of any journal that a run can produce succeeds and gives the same
  journal: same index, overlay, chain head, next sequence and files.
\<close>

theorem journal_reopen:
  assumes "reachable j"
  shows "open_journal (j_files j) (j_snapshots j) = Inr (j\<lparr>recovered_tail := None\<rparr>)"
  using reopen [OF reachable_rel [OF assms], of "j_snapshots j"] by simp

theorem journal_reopen_witness:
  "open_journal (j_files sample1) (j_snapshots sample1) = Inr (sample1\<lparr>recovered_tail := None\<rparr>)"
  by (rule journal_reopen) (rule sample1_facts)

text \<open>
  C2. Whatever files a journal was opened on, \<open>read\<close> returns exactly the bytes of the base
  image with the logged writes applied to it, the first \<open>n\<close> of them for \<open>at_sequence = n\<close>;
  it refuses a range outside the namespace and a sequence that does not exist.
\<close>

theorem journal_read_refines:
  assumes "open_journal fs snaps = Inr j" "0 < block_size j"
  shows "journal_read j b n s =
    (if b < 0 \<or> n < 1 \<or> blocks j < b + n then Inl (ValueError ''block range outside virtual namespace'')
     else if (case s of None \<Rightarrow> False | Some m \<Rightarrow> m < 0 \<or> int (length (history (f_log fs))) < m)
     then Inl (ValueError ''invalid sequence'')
     else Inr (extent (block_size j) b n (disk (block_size j) (f_base fs) (seen s (history (f_log fs))))))"
  using journal_read_disk [OF open_reads_as [OF assms]] open_journal_records(5) [OF assms] by simp

theorem journal_read_refines_witness:
  "journal_read (sample1\<lparr>recovered_tail := None\<rparr>) 1 1 None =
     Inr (extent 512 1 1 (disk 512 (f_base (j_files sample1)) [(1, page 7)]))"
  using journal_read_refines [OF sample_open, of 1 1 None] sample1_facts by (simp add: seen_def)

text \<open>
  C3. \<open>append\<close> on a reachable journal: a write that is empty, not a multiple of the block size
  or outside the namespace raises and leaves the object and the files as they were; any other
  gets the next sequence number, its history grows by exactly this write and its image is
  the old one with these bytes replaced.
\<close>

theorem journal_append_refines:
  assumes "reachable j"
  shows "if valid_write (blocks j) (block_size j) (b, d)
    then fst (journal_append b d j) = Inr (last_sequence j + 1) \<and>
         hist (snd (journal_append b d j)) = hist j @ [(b, d)] \<and>
         jimage (snd (journal_append b d j)) = apply_write (block_size j) (jimage j) (b, d)
    else \<exists>e. journal_append b d j = (Inl (ValueError e), j)"
proof (cases "valid_write (blocks j) (block_size j) (b, d)")
  case True
  note rel = reachable_rel [OF assms]
  show ?thesis
    using True append_rel [OF rel True] reachable_last [OF assms] rel_hist [OF append_rel(2) [OF rel True]]
      jdev.wr_img [OF reachable_jinv [OF assms] True] by simp
next
  case False
  have "0 < block_size j" using reachable_rel [OF assms] by (simp add: journal_rel_def)
  then show ?thesis using False by (simp add: journal_append_cases)
qed

theorem journal_append_refines_witness:
  "fst (journal_append 0 (page 9 @ page 8) sample1) = Inr (last_sequence sample1 + 1) \<and>
   (\<exists>e. journal_append 3 (page 9 @ page 8) sample1 = (Inl (ValueError e), sample1))"
proof -
  have "\<not> valid_write (blocks sample1) (block_size sample1) (3, page 9 @ page 8)"
    by (simp add: valid_write_def wcount_def sample1_facts)
  then show ?thesis
    using journal_append_refines [OF sample1_facts(1), of 0 "page 9 @ page 8"]
      journal_append_refines [OF sample1_facts(1), of 3 "page 9 @ page 8"] sample_write by simp
qed

text \<open>
  After an acknowledged write of \<open>d\<close> at block \<open>b\<close>, reading that range returns \<open>d\<close>, and
  reading any range that does not meet it returns what it returned before.
\<close>

theorem journal_read_after_write:
  assumes "reachable j" "fst (journal_append b d j) = Inr q"
  shows "journal_read (snd (journal_append b d j)) b (wcount (block_size j) (b, d)) None = Inr d \<and>
    (\<forall>c n. 0 \<le> c \<and> 1 \<le> n \<and> c + n \<le> blocks j \<and> (c + n \<le> b \<or> b + wcount (block_size j) (b, d) \<le> c) \<longrightarrow>
      journal_read (snd (journal_append b d j)) c n None = journal_read j c n None)"
  using jdev.read_after_write [OF reachable_jinv [OF assms(1)] assms(2)]
    jdev.read_elsewhere [OF reachable_jinv [OF assms(1)] assms(2)] by blast

theorem journal_read_after_write_witness:
  "journal_read (snd (journal_append 0 (page 9 @ page 8) sample1)) 0 2 None = Inr (page 9 @ page 8) \<and>
   journal_read (snd (journal_append 0 (page 9 @ page 8) sample1)) 2 2 None = journal_read sample1 2 2 None"
proof -
  have "wcount (block_size sample1) (0, page 9 @ page 8) = 2"
    by (simp add: wcount_def sample1_facts)
  then show ?thesis
    using journal_read_after_write [OF sample1_facts(1) sample_ack] sample1_facts(3) by simp
qed

text \<open>
  A read of the state as of sequence \<open>m\<close> returns the same bytes after any later write: history
  is immutable.
\<close>

theorem journal_history_immutable:
  assumes "reachable j" "fst (journal_append b d j) = Inr q" "0 \<le> m" "m \<le> last_sequence j"
  shows "journal_read (snd (journal_append b d j)) c n (Some m) = journal_read j c n (Some m)"
proof -
  have v: "valid_write (blocks j) (block_size j) (b, d)"
    using jdev.wr_ack [OF reachable_jinv [OF assms(1)]] assms(2) by blast
  note rd = rel_reads_as [OF append_rel(2) [OF reachable_rel [OF assms(1)] v]]
  show ?thesis
    using journal_read_disk [OF rd] journal_read_disk [OF reachable_reads [OF assms(1)]] assms(3,4)
      reachable_last [OF assms(1)] by (simp add: seen_def)
qed

theorem journal_history_immutable_witness:
  "journal_read (snd (journal_append 0 (page 9 @ page 8) sample1)) 1 1 (Some 1) = journal_read sample1 1 1 (Some 1)"
  by (rule journal_history_immutable [OF sample1_facts(1) sample_ack])
    (simp_all add: reachable_last [OF sample1_facts(1)] sample1_facts(6))

section \<open>Power cuts and damage\<close>

text \<open>
  A power cut that leaves a proper, non-empty part of a record's text (the text without its
  closing brace and line break, or less) is recovered: the journal opens as it was before the
  write, the part is kept in a side file, and it is reported as the recovered tail.
\<close>

theorem journal_torn_tail:
  assumes "reachable j" "0 < k" "Suc k < length (next_line j w)"
  shows "open_journal ((j_files j)\<lparr>f_log := f_log (j_files j) @ take k (next_line j w)\<rparr>) snaps =
    Inr (j\<lparr>j_snapshots := snaps,
           recovered_tail := Some \<lparr>tr_bytes_discarded = k, tr_reason = ''incomplete final record'',
             tr_sidecar = ''journal.jsonl.torn-'' @ show_nat (log_size j)\<rparr>,
           j_files := (j_files j)\<lparr>f_sidecars :=
             AList.update (''journal.jsonl.torn-'' @ show_nat (log_size j)) (take k (next_line j w))
               (f_sidecars (j_files j))\<rparr>\<rparr>)"
  using open_torn [OF reachable_rel [OF assms(1)] assms(2,3) refl, of snaps] assms(3) by (simp add: set_aside_def)

lemma next_line_long: "3 < length (next_line j w)"
proof -
  have "length (dump_str s) \<ge> 2" for s by (simp add: dump_str_def)
  then show ?thesis
    by (simp add: next_line_def record_line_def record_body_def canonical_def)
qed

theorem journal_torn_tail_witness:
  "open_journal ((j_files sample1)\<lparr>f_log := f_log (j_files sample1) @ take 2 (next_line sample1 (0, page 1))\<rparr>) [] =
    Inr (sample1\<lparr>j_snapshots := [],
           recovered_tail := Some \<lparr>tr_bytes_discarded = 2, tr_reason = ''incomplete final record'',
             tr_sidecar = ''journal.jsonl.torn-'' @ show_nat (log_size sample1)\<rparr>,
           j_files := (j_files sample1)\<lparr>f_sidecars :=
             AList.update (''journal.jsonl.torn-'' @ show_nat (log_size sample1)) (take 2 (next_line sample1 (0, page 1)))
               (f_sidecars (j_files sample1))\<rparr>\<rparr>)"
  using next_line_long [of sample1 "(0, page 1)"] by (intro journal_torn_tail [OF sample1_facts(1)]) simp_all

text \<open>
  A line that cannot be read and has anything after it is not a torn tail: the journal
  refuses to open, naming the line.
\<close>

theorem journal_damaged_middle:
  assumes "reachable j" "nl \<notin> set l" "strip (l @ [nl]) \<noteq> []" "parse_record (l @ [nl]) = None" "r \<noteq> []"
  shows "open_journal ((j_files j)\<lparr>f_log := f_log (j_files j) @ l @ nl # r\<rparr>) snaps =
    Inl (JournalCorruptionError ''invalid journal record'' (last_sequence j + 1))"
  using open_damaged_middle [OF reachable_rel [OF assms(1)] assms(2-5) refl] reachable_last [OF assms(1)] by simp

theorem journal_damaged_middle_witness:
  "open_journal ((j_files sample1)\<lparr>f_log := f_log (j_files sample1) @ ''{'' @ nl # ''{}''\<rparr>) [] =
    Inl (JournalCorruptionError ''invalid journal record'' 2)"
proof -
  have "strip (''{'' @ [nl]) \<noteq> []"
    by (simp add: strip_def is_space_def)
  moreover have "parse_record (''{'' @ [nl]) = None"
    by code_simp
  ultimately show ?thesis
    using journal_damaged_middle [OF sample1_facts(1), of "''{''" "''{}''" "[]"]
    by (simp add: reachable_last [OF sample1_facts(1)] sample1_facts(6))
qed

text \<open>
  C8. A line that is complete but wrong is never discarded, not even at the end of the log: when
  a record parses and its hash, its link to the record before, its sequence, its checksum, its
  size or its range is wrong, the journal refuses to open.
\<close>

theorem journal_refuses_bad_record:
  assumes "reachable j" "nl \<notin> set l" "strip (l @ [nl]) \<noteq> []" "parse_record (l @ [nl]) = Some p"
    and "\<not> (pr_stored_hash p = JStr (sha256_hex (canonical (JObj (pr_value p)))) \<and>
            pr_previous_hash p = JStr (last_hash j) \<and> pr_sequence p = next_sequence j \<and>
            crc32 (pr_data p) = pr_crc p \<and> 1 \<le> pr_blocks p \<and>
            int (length (pr_data p)) = pr_blocks p * block_size j \<and>
            0 \<le> pr_block p \<and> pr_block p + pr_blocks p \<le> blocks j)"
  shows "\<exists>e. open_journal ((j_files j)\<lparr>f_log := f_log (j_files j) @ l @ nl # r\<rparr>) snaps = Inl e"
proof -
  note rel = reachable_rel [OF assms(1)]
  let ?st = "(log_state (block_size j) (hist j))\<lparr>rs_offset := log_size j + length (l @ [nl]), line_number := Suc (length (hist j))\<rparr>"
  have "check_record (blocks j) (block_size j) ?st p \<noteq> Inr ()"
    using assms(5) check_record_Inr [of "blocks j" "block_size j" ?st p] rel by (auto simp: journal_rel_def)
  then obtain e where "check_record (blocks j) (block_size j) ?st p = Inl e"
    by (cases "check_record (blocks j) (block_size j) ?st p") auto
  then show ?thesis
    using open_rejected_record [OF rel _ assms(3,4), of r "lines_of r" e] lines_of_line [OF assms(2)] by auto
qed

text \<open>Witness: the first record of the log appended a second time.\<close>

theorem journal_refuses_bad_record_witness:
  "\<exists>e. open_journal ((j_files sample1)\<lparr>f_log := f_log (j_files sample1) @
       canonical (JObj (full_record 512 replay_init (1, page 7))) @ nl # []\<rparr>) [] = Inl e"
proof (rule journal_refuses_bad_record [OF sample1_facts(1)])
  let ?c = "canonical (JObj (full_record 512 replay_init (1, page 7)))"
  show "nl \<notin> set ?c" by (rule record_no_nl)
  show "strip (?c @ [nl]) \<noteq> []" by (rule canonical_nonblank)
  show "parse_record (?c @ [nl]) = Some (parsed_of 512 replay_init (1, page 7))"
    by (rule parse_record_line) (simp add: is_ws_def)
  have "next_sequence sample1 = 2"
    using reachable_last [OF sample1_facts(1)] sample1_facts(6) by (simp add: last_sequence_def)
  then show "\<not> (pr_stored_hash (parsed_of 512 replay_init (1, page 7)) =
        JStr (sha256_hex (canonical (JObj (pr_value (parsed_of 512 replay_init (1, page 7)))))) \<and>
      pr_previous_hash (parsed_of 512 replay_init (1, page 7)) = JStr (last_hash sample1) \<and>
      pr_sequence (parsed_of 512 replay_init (1, page 7)) = next_sequence sample1 \<and>
      crc32 (pr_data (parsed_of 512 replay_init (1, page 7))) = pr_crc (parsed_of 512 replay_init (1, page 7)) \<and>
      1 \<le> pr_blocks (parsed_of 512 replay_init (1, page 7)) \<and>
      int (length (pr_data (parsed_of 512 replay_init (1, page 7)))) =
        pr_blocks (parsed_of 512 replay_init (1, page 7)) * block_size sample1 \<and>
      0 \<le> pr_block (parsed_of 512 replay_init (1, page 7)) \<and>
      pr_block (parsed_of 512 replay_init (1, page 7)) + pr_blocks (parsed_of 512 replay_init (1, page 7)) \<le> blocks sample1)"
    by (simp add: parsed_of_def)
qed

text \<open>
  C9. Tamper evidence. Replace the files of a journal by any others that still open: if the
  chain head is the same, the writes are the same, unless two of the record texts that were
  hashed collide under SHA-256.
\<close>

theorem journal_tamper_evident:
  assumes "reachable j" "hist j \<noteq> []"
    and "open_journal fs snaps = Inr j'" "0 < block_size j'" "history (f_log fs) \<noteq> []"
    and "last_hash j' = last_hash j"
    and "list_all (\<lambda>p. plain_floats (JObj (pr_value p))) (records (lines_of (f_log fs)))"
    and "inj_on sha256_hex ((\<lambda>p. canonical (JObj (pr_value p))) `
           set (records (lines_of (f_log fs)) @ records (lines_of (f_log (j_files j)))))"
  shows "history (f_log fs) = hist j"
proof -
  note rel = reachable_rel [OF assms(1)]
  have "f_log (j_files j) = log_text (block_size j) (hist j)" using rel by (simp add: journal_rel_def)
  then have "list_all (\<lambda>p. plain_floats (JObj (pr_value p))) (records (lines_of (f_log (j_files j))))"
    using plain_floats_log by metis
  then have "list_all (\<lambda>p. plain_floats (JObj (pr_value p)))
      (records (lines_of (f_log fs)) @ records (lines_of (f_log (j_files j))))"
    using assms(7) by (simp del: plain_floats.simps)
  moreover have "0 < block_size j" using rel by (simp add: journal_rel_def)
  ultimately show ?thesis
    using assms by (intro tamper_evidence [OF assms(3) reopen [OF rel, of "[]"]]) (simp_all add: history_def)
qed

text \<open>Witness: the log of one record, and the same log without its final line break.\<close>

theorem journal_tamper_evident_witness:
  "history (butlast (f_log (j_files sample1))) = [(1, page 7)]"
proof -
  let ?st = replay_init and ?w = "(1, page 7) :: jwrite"
  define c where "c = canonical (JObj (full_record 512 ?st ?w))"
  have v: "valid_write (blocks sample0) (block_size sample0) ?w"
    by (simp add: valid_write_def wcount_def sample0_facts)
  define fs where "fs = (j_files sample0)\<lparr>f_log := f_log (j_files sample0) @ butlast (next_line sample0 ?w)\<rparr>"
  obtain j' where op: "open_journal fs [] = Inr j'" and j': "last_hash j' = last_hash sample1" "block_size j' = 512"
    using open_missing_newline [OF sample0_facts(2) v fs_def, of "[]"] by (simp add: sample1_def [symmetric] sample1_facts)
  have line: "next_line sample0 ?w = c @ [nl]"
    using next_line_rel [OF sample0_facts(2)] sample0_facts(4) by (simp add: line_of_eq c_def)
  have log0: "f_log (j_files sample0) = []" using sample0_facts(2) by (simp add: journal_rel_def)
  have logs: "f_log fs = c" "f_log (j_files sample1) = c @ [nl]"
    using append_log(1) [of sample0, OF _ v] line log0 sample0_facts(4) by (simp_all add: fs_def sample1_def)
  have no_nl: "nl \<notin> set c" unfolding c_def by (rule record_no_nl)
  have ne: "c \<noteq> []" unfolding c_def using canonical_dict_hd by (metis list.distinct(1))
  have p: "line_record (c @ r) = Some (parsed_of 512 ?st ?w)" if "list_all is_ws r" for r
    unfolding c_def line_record_simps(2) [OF canonical_nonblank] by (rule parse_record_line [OF that])
  have recs: "records (lines_of c) = [parsed_of 512 ?st ?w]" "records (lines_of (c @ [nl])) = [parsed_of 512 ?st ?w]"
    using p [of "[]"] p [of "[nl]"] lines_of_partial [OF no_nl ne] lines_of_line [OF no_nl, of "[]"]
    by (simp_all add: List.map_filter_simps is_ws_def)
  have "history (f_log fs) = hist sample1"
    by (rule journal_tamper_evident [OF sample1_facts(1) _ op])
      (simp_all add: logs recs j' sample1_facts(6) history_def plain_floats_parsed del: plain_floats.simps)
  then show ?thesis by (simp add: logs sample1_facts(6) [unfolded logs])
qed

section \<open>Snapshots and compaction\<close>

text \<open>
  C10. A snapshot under a fresh, well-formed name, of the present or of the state after record
  \<open>n\<close>, is a namespace of its own: it opens, and its history is exactly the history it claims
  to hold. The journal itself is not changed by it.
\<close>

theorem journal_snapshot_exact:
  assumes "reachable j" "good_name name" "map_of (j_snapshots j) name = None"
    and "case s of None \<Rightarrow> True | Some n \<Rightarrow> 0 \<le> n \<and> n \<le> last_sequence j"
  shows "\<exists>copy j'. snapshot name s j = (Inr name, put_snapshot name (Some copy) j) \<and>
    open_journal copy [] = Inr j' \<and> history (f_log copy) = seen s (hist j) \<and>
    jimage j' = disk (block_size j) (f_base (j_files j)) (seen s (hist j))"
proof -
  note rel = reachable_rel [OF assms(1)]
  have s: "case s of None \<Rightarrow> True | Some n \<Rightarrow> 0 \<le> n \<and> n \<le> int (length (hist j))"
    using assms(4) reachable_last [OF assms(1)] by (simp split: option.splits)
  note sn = snapshot_rel [OF rel assms(2,3) s]
  show ?thesis
    using sn(1) sn(2) [of "[]"] history_log_text jimage_rel by (metis ns.select_convs(3))
qed

theorem journal_snapshot_exact_witness:
  "\<exists>copy j'. snapshot ''pit-1'' (Some 0) sample1 = (Inr ''pit-1'', put_snapshot ''pit-1'' (Some copy) sample1) \<and>
    open_journal copy [] = Inr j' \<and> history (f_log copy) = seen (Some 0) (hist sample1) \<and>
    jimage j' = disk (block_size sample1) (f_base (j_files sample1)) (seen (Some 0) (hist sample1))"
  by (rule journal_snapshot_exact [OF sample1_facts(1)])
    (simp_all add: sample1_facts good_name_def name_alphabet_def reachable_last [OF sample1_facts(1)])

text \<open>
  C11. Compaction keeps every byte: it succeeds, the image afterwards is the image before with an
  empty log, the whole earlier history stays in the retained snapshot, and the result opens.
\<close>

theorem journal_compact_preserves:
  assumes "reachable j" "good_name name" "map_of (j_snapshots j) name = None"
  shows "fst (journal_compact name j) = Inr () \<and> jimage (snd (journal_compact name j)) = jimage j \<and>
    hist (snd (journal_compact name j)) = [] \<and> last_sequence (snd (journal_compact name j)) = 0 \<and>
    (\<exists>copy. map_of (j_snapshots (snd (journal_compact name j))) name = Some (Some copy) \<and>
       f_base copy = f_base (j_files j) \<and> history (f_log copy) = hist j) \<and>
    (\<exists>j'. open_journal (j_files (snd (journal_compact name j))) [] = Inr j' \<and> jimage j' = jimage j)"
proof -
  note rel = reachable_rel [OF assms(1)]
  note c = compact_rel [OF rel assms(2,3)]
  have img: "jimage (snd (journal_compact name j)) = jimage j"
    using jimage_rel [OF c(2)] jimage_rel [OF rel] c(3) by simp
  have "last_sequence (snd (journal_compact name j)) = 0"
    using c(2) by (simp add: journal_rel_def last_sequence_def)
  moreover have "jimage ((snd (journal_compact name j))\<lparr>j_snapshots := [], recovered_tail := None\<rparr>) = jimage j"
    using img by (simp add: jimage_def)
  ultimately show ?thesis
    using c(1,4) img rel_hist [OF c(2)] reopen [OF c(2), of "[]"] by simp
qed

theorem journal_compact_preserves_witness:
  "fst (journal_compact ''before-compaction'' sample1) = Inr () \<and> jimage (snd (journal_compact ''before-compaction'' sample1)) = jimage sample1"
  using journal_compact_preserves [OF sample1_facts(1), of "''before-compaction''"]
  by (simp add: sample1_facts good_name_def name_alphabet_def)

text \<open>
  A power cut inside \<open>compact\<close> after the base was replaced and before the log was emptied
  leaves the new base under the old log: it opens and its image is still the image before.
\<close>

theorem journal_compact_crash_safe:
  assumes "reachable j"
  shows "\<exists>j'. open_journal ((j_files j)\<lparr>f_base := jimage j\<rparr>) snaps = Inr j' \<and> jimage j' = jimage j"
  using compact_crash [OF reachable_rel [OF assms], of snaps] jimage_rel jimage_rel [OF reachable_rel [OF assms]] by metis

theorem journal_compact_crash_safe_witness:
  "\<exists>j'. open_journal ((j_files sample1)\<lparr>f_base := jimage sample1\<rparr>) [] = Inr j' \<and> jimage j' = jimage sample1"
  by (rule journal_compact_crash_safe) (rule sample1_facts)

section \<open>The line break\<close>

text \<open>
  C13. A power cut that loses only the final line break of a record leaves a trap. The journal
  opens with the record, accepts and acknowledges the next write, and the next opening finds
  both records glued into one unreadable final line: both are set aside and the history is back
  to what it was before either of them.
\<close>

theorem journal_newline_tear_loses_writes:
  assumes "reachable j" "valid_write (blocks j) (block_size j) (b, d)" "valid_write (blocks j) (block_size j) (b2, d2)"
  shows "\<exists>j1 q j2. open_journal ((j_files j)\<lparr>f_log := f_log (j_files j) @ butlast (next_line j (b, d))\<rparr>) snaps = Inr j1 \<and>
    fst (journal_append b2 d2 j1) = Inr q \<and>
    open_journal (j_files (snd (journal_append b2 d2 j1))) snaps = Inr j2 \<and> hist j2 = hist j"
proof -
  note rel = reachable_rel [OF assms(1)]
  have "hist (set_aside j t snaps) = hist j" for t
    by (simp add: set_aside_def)
  then show ?thesis using newline_tear [OF rel assms(2,3) refl, of snaps] by metis
qed

theorem journal_newline_tear_loses_writes_witness:
  "\<exists>j1 q j2. open_journal ((j_files sample1)\<lparr>f_log := f_log (j_files sample1) @ butlast (next_line sample1 (0, page 1))\<rparr>) [] = Inr j1 \<and>
    fst (journal_append 2 (page 2) j1) = Inr q \<and>
    open_journal (j_files (snd (journal_append 2 (page 2) j1))) [] = Inr j2 \<and> hist j2 = hist sample1"
  by (rule journal_newline_tear_loses_writes [OF sample1_facts(1)]) (simp_all add: valid_write_def wcount_def sample1_facts)

end
