(* ===== verification/Audit_Log.thy ===== *)
theory Audit_Log
  imports Hash_Chain
begin

text \<open>
  The audit log (\<^verbatim>\<open>aegis_shield/core/audit.py\<close>): a text file of hash-chained JSON lines with rotation by size.
  The record \<open>audit_log\<close> owns the active file and the archived files of its directory; the
  readings of the process clock are part of the environment (\<open>au_clock\<close>, with the number of
  readings made so far).
\<close>

section \<open>Definitions\<close>

record audit_log =
  au_stem :: string
  au_suffix :: string
  au_text :: string
  au_archives :: "(string \<times> string) list"
  au_max_bytes :: int
  au_last_hash :: string
  au_clock :: "nat \<Rightarrow> int"
  au_ticks :: nat

definition default_max_bytes :: int where
  "default_max_bytes = 10 * 1024 * 1024"

text \<open>\<open>time.time_ns()\<close>.\<close>

definition time_ns :: "audit_log \<Rightarrow> int" where
  "time_ns a = au_clock a (au_ticks a)"

definition tick :: "audit_log \<Rightarrow> audit_log" where
  "tick a = a\<lparr>au_ticks := Suc (au_ticks a)\<rparr>"

definition event_body :: "string \<Rightarrow> json dict \<Rightarrow> string \<Rightarrow> int \<Rightarrow> json dict" where
  "event_body event details prev ts =
     [(''details'', JObj details), (''event'', JStr event), (''previous_hash'', JStr prev), (''timestamp_ns'', JInt ts)]"

definition event_hash :: "string \<Rightarrow> json dict \<Rightarrow> string \<Rightarrow> int \<Rightarrow> string" where
  "event_hash event details prev ts = sha256_hex (canonical (JObj (event_body event details prev ts)))"

definition event_line :: "string \<Rightarrow> json dict \<Rightarrow> string \<Rightarrow> int \<Rightarrow> string" where
  "event_line event details prev ts =
     canonical (JObj (event_body event details prev ts @ [(''event_hash'', JStr (event_hash event details prev ts))])) @ [nl]"

fun verify_lines :: "string \<Rightarrow> nat \<Rightarrow> string list \<Rightarrow> string res" where
  "verify_lines expected n [] = Inr expected"
| "verify_lines expected n (raw # rest) =
     (case json_loads raw of
        None \<Rightarrow> Inl (ValueError ''audit line is not JSON'')
      | Some (JObj d) \<Rightarrow>
          (case map_of d ''event_hash'' of
             None \<Rightarrow> Inl (KeyError ''event_hash'')
           | Some stored \<Rightarrow>
               (let val = AList.delete ''event_hash'' d in
                if map_of val ''previous_hash'' \<noteq> Some (JStr expected)
                then Inl (ValueError (''audit chain mismatch at line '' @ show_nat n))
                else if stored \<noteq> JStr (sha256_hex (canonical (JObj val)))
                then Inl (ValueError (''audit hash mismatch at line '' @ show_nat n))
                else verify_lines (sha256_hex (canonical (JObj val))) (Suc n) rest))
      | Some (JArr _) \<Rightarrow> Inl (TypeError ''pop'')
      | Some _ \<Rightarrow> Inl (AttributeError ''pop''))"

definition verify_text :: "string \<Rightarrow> string res" where
  "verify_text t = verify_lines zero_hash 1 (lines_of t)"

definition audit_verify :: "audit_log \<Rightarrow> string res" where
  "audit_verify a = verify_text (au_text a)"

text \<open>
  \<open>AuditLog.__init__\<close>: \<open>a\<close> carries the path, the files and the clock; a file that is not
  there is created empty.
\<close>

definition open_audit :: "audit_log \<Rightarrow> audit_log res" where
  "open_audit a = bind_res (audit_verify a) (\<lambda>h. Inr (a\<lparr>au_last_hash := h\<rparr>))"

definition archive_name :: "audit_log \<Rightarrow> nat \<Rightarrow> string" where
  "archive_name a i = au_stem a @ ''.'' @ show_nat i @ au_suffix a"

text \<open>
  The search for a free archive name. The first argument is fuel: with \<open>k\<close> files in the
  directory one of the first \<open>k + 1\<close> candidates is free.
\<close>

fun next_archive_from :: "nat \<Rightarrow> nat \<Rightarrow> audit_log \<Rightarrow> string" where
  "next_archive_from 0 i a = archive_name a i"
| "next_archive_from (Suc n) i a =
     (if archive_name a i \<in> set (keys (au_archives a)) then next_archive_from n (Suc i) a else archive_name a i)"

definition next_archive_path :: "audit_log \<Rightarrow> string" where
  "next_archive_path a = next_archive_from (length (au_archives a)) 1 a"

definition rotate_log :: "audit_log \<Rightarrow> audit_log" where
  "rotate_log a =
     (let archive = next_archive_path a;
          old_hash = au_last_hash a;
          details = [(''archived_to'', JStr archive), (''previous_file_last_hash'', JStr old_hash)];
          ts = time_ns a
      in (tick a)\<lparr>au_archives := au_archives a @ [(archive, au_text a)],
                  au_text := event_line ''rotation_boundary'' details zero_hash ts,
                  au_last_hash := event_hash ''rotation_boundary'' details zero_hash ts\<rparr>)"

definition append_event :: "string \<Rightarrow> json dict \<Rightarrow> audit_log \<Rightarrow> audit_log" where
  "append_event event details a =
     (let ts = time_ns a
      in (tick a)\<lparr>au_text := au_text a @ event_line event details (au_last_hash a) ts,
                  au_last_hash := event_hash event details (au_last_hash a) ts\<rparr>)"

definition needs_rotation :: "audit_log \<Rightarrow> bool" where
  "needs_rotation a \<longleftrightarrow> 0 < au_max_bytes a \<and> au_max_bytes a \<le> int (length (au_text a))"

definition audit_append :: "string \<Rightarrow> json dict \<Rightarrow> (audit_log, string) oper" where
  "audit_append event details a =
     (let a1 = append_event event details (if needs_rotation a then rotate_log a else a)
      in (Inr (au_last_hash a1), a1))"

section \<open>One line\<close>

abbreviation full_event :: "string \<Rightarrow> json dict \<Rightarrow> string \<Rightarrow> int \<Rightarrow> json dict" where
  "full_event ev d h ts \<equiv> event_body ev d h ts @ [(''event_hash'', JStr (event_hash ev d h ts))]"

lemma wf_event:
  assumes "wf_json (JObj d)"
  shows "wf_json (JObj (event_body ev d h ts))" "wf_json (JObj (full_event ev d h ts))"
  using assms by (simp_all add: event_body_def)

lemma event_line_eq: "event_line ev d h ts = canonical (JObj (full_event ev d h ts)) @ [nl]"
  by (simp add: event_line_def)

lemma event_no_nl: "wf_json (JObj d) \<Longrightarrow> nl \<notin> set (canonical (JObj (full_event ev d h ts)))"
  by (rule canonical_no_nl) (rule wf_event)

lemma verify_event:
  assumes "wf_json (JObj d)" "list_all is_ws r"
  shows "verify_lines h n ((canonical (JObj (full_event ev d h ts)) @ r) # rest) =
    verify_lines (event_hash ev d h ts) (Suc n) rest"
proof -
  let ?f = "full_event ev d h ts" and ?b = "event_body ev d h ts"
  have keys: "distinct (keys ?f)" "distinct (keys ?b)" "''event_hash'' \<notin> set (keys ?b)"
    by (simp_all add: event_body_def)
  have load: "json_loads (canonical (JObj ?f) @ r) = Some (JObj (sorted_dict ?f))"
    using wf_event(2) [OF assms(1)] assms(2) by (rule loads_dict)
  have stored: "map_of (sorted_dict ?f) ''event_hash'' = Some (JStr (event_hash ev d h ts))"
    unfolding map_of_sorted_dict [OF keys(1)] by (simp add: event_body_def)
  have prev: "map_of (sorted_dict ?b) ''previous_hash'' = Some (JStr h)"
    unfolding map_of_sorted_dict [OF keys(2)] by (simp add: event_body_def)
  have pop: "AList.delete ''event_hash'' (sorted_dict ?f) = sorted_dict ?b"
    by (rule sorted_dict_pop [OF keys(3)])
  have "sha256_hex (canonical (JObj ?b)) = event_hash ev d h ts"
    by (simp add: event_hash_def)
  then show ?thesis
    by (simp add: load stored pop prev Let_def)
qed

section \<open>A log that stands for a list of entries\<close>

type_synonym entry = "string \<times> json dict \<times> int"

fun audit_lines :: "string \<Rightarrow> entry list \<Rightarrow> string list" where
  "audit_lines h [] = []"
| "audit_lines h ((ev, d, ts) # es) = event_line ev d h ts # audit_lines (event_hash ev d h ts) es"

fun audit_head :: "string \<Rightarrow> entry list \<Rightarrow> string" where
  "audit_head h [] = h"
| "audit_head h ((ev, d, ts) # es) = audit_head (event_hash ev d h ts) es"

definition entry_ok :: "entry \<Rightarrow> bool" where
  "entry_ok e \<longleftrightarrow> wf_json (JObj (fst (snd e)))"

definition audit_rel :: "audit_log \<Rightarrow> entry list \<Rightarrow> bool" where
  "audit_rel a es \<longleftrightarrow>
     list_all entry_ok es \<and> au_text a = concat (audit_lines zero_hash es) \<and> au_last_hash a = audit_head zero_hash es"

lemma audit_lines_snoc:
  "audit_lines h (es @ [(ev, d, ts)]) = audit_lines h es @ [event_line ev d (audit_head h es) ts]"
  "audit_head h (es @ [(ev, d, ts)]) = event_hash ev d (audit_head h es) ts"
  by (induction es arbitrary: h) auto

lemma verify_audit_lines:
  "list_all entry_ok es \<Longrightarrow>
   verify_lines h n (audit_lines h es @ rest) = verify_lines (audit_head h es) (n + length es) rest"
proof (induction es arbitrary: h n)
  case (Cons e es)
  obtain ev d ts where e: "e = (ev, d, ts)" by (cases e) auto
  have "wf_json (JObj d)" using Cons.prems by (simp add: e entry_ok_def)
  then have "verify_lines h n (event_line ev d h ts # rest') = verify_lines (event_hash ev d h ts) (Suc n) rest'" for rest'
    unfolding event_line_eq by (rule verify_event) (simp add: is_ws_def)
  then show ?case using Cons by (simp add: e del: verify_lines.simps)
qed simp

lemma lines_of_audit:
  assumes "list_all entry_ok es"
  shows "lines_of (concat (audit_lines h es) @ r) = audit_lines h es @ lines_of r"
proof (rule lines_of_append)
  show "\<forall>l \<in> set (audit_lines h es). \<exists>l'. l = l' @ [nl] \<and> nl \<notin> set l'"
    using assms
  proof (induction es arbitrary: h)
    case (Cons e es)
    obtain ev d ts where e: "e = (ev, d, ts)" by (cases e) auto
    then show ?case using Cons event_no_nl by (auto simp: entry_ok_def event_line_eq)
  qed simp
qed

lemma verify_text_rel:
  assumes "list_all entry_ok es"
  shows "verify_text (concat (audit_lines zero_hash es) @ r) =
    verify_lines (audit_head zero_hash es) (Suc (length es)) (lines_of r)"
  using verify_audit_lines [OF assms, of zero_hash 1 "lines_of r"] lines_of_audit [OF assms, of zero_hash r]
  by (simp add: verify_text_def)

lemma verify_rel: "audit_rel a es \<Longrightarrow> audit_verify a = Inr (au_last_hash a)"
  using verify_text_rel [of es "[]"] by (simp add: audit_rel_def audit_verify_def)

lemma open_audit_rel: "audit_rel a es \<Longrightarrow> open_audit (a\<lparr>au_last_hash := x\<rparr>) = Inr a"
  using verify_rel [of a es] by (simp add: open_audit_def audit_verify_def)

lemma append_event_rel:
  assumes "audit_rel a es" "wf_json (JObj d)"
  shows "audit_rel (append_event ev d a) (es @ [(ev, d, time_ns a)])"
  using assms by (simp add: audit_rel_def append_event_def audit_lines_snoc entry_ok_def Let_def tick_def)

lemma rotate_log_rel:
  "audit_rel (rotate_log a) [(''rotation_boundary'', [(''archived_to'', JStr (next_archive_path a)),
     (''previous_file_last_hash'', JStr (au_last_hash a))], time_ns a)]"
  by (simp add: audit_rel_def rotate_log_def entry_ok_def Let_def tick_def)

section \<open>Archive names\<close>

lemma show_nat_inject: "show_nat m = show_nat n \<Longrightarrow> m = n"
  by (metis dec_val_show_nat)

lemma archive_name_inject: "archive_name a i = archive_name a k \<Longrightarrow> i = k"
  by (simp add: archive_name_def show_nat_inject)

lemma next_archive_from_taken:
  assumes "next_archive_from n i a \<in> set (keys (au_archives a))"
  shows "\<forall>k \<in> {i .. i + n}. archive_name a k \<in> set (keys (au_archives a))"
  using assms
proof (induction n arbitrary: i)
  case (Suc n)
  have "\<forall>k \<in> {Suc i .. Suc i + n}. archive_name a k \<in> set (keys (au_archives a))"
    using Suc.prems by (intro Suc.IH) (auto split: if_splits)
  moreover have "archive_name a i \<in> set (keys (au_archives a))"
    using Suc.prems by (auto split: if_splits)
  moreover have "{i .. i + Suc n} = insert i {Suc i .. Suc i + n}" by auto
  ultimately show ?case by simp
qed simp

text \<open>The fuel is enough: the name found is free.\<close>

lemma next_archive_fresh: "next_archive_path a \<notin> set (keys (au_archives a))"
proof
  assume "next_archive_path a \<in> set (keys (au_archives a))"
  then have sub: "archive_name a ` {1 .. 1 + length (au_archives a)} \<subseteq> set (keys (au_archives a))"
    using next_archive_from_taken [of "length (au_archives a)" 1 a] unfolding next_archive_path_def by blast
  have "card (archive_name a ` {1 .. 1 + length (au_archives a)}) = Suc (length (au_archives a))"
    by (subst card_image) (auto intro: inj_onI dest: archive_name_inject)
  moreover have "card (set (keys (au_archives a))) \<le> length (au_archives a)"
    using card_length [of "keys (au_archives a)"] by simp
  ultimately show False
    using card_mono [OF _ sub] by simp
qed

end
