(* ===== verification/Audit_Spec.thy ===== *)
theory Audit_Spec
  imports Audit_Log
begin

text \<open>
  The properties of the audit log: it always verifies, it cannot be altered without changing its
  head, rotation loses nothing, and what a power cut inside \<open>append\<close> does to the next start.
\<close>

section \<open>Any text that verifies\<close>

definition line_value :: "string \<Rightarrow> json dict" where
  "line_value raw = (case json_loads raw of Some (JObj d) \<Rightarrow> AList.delete ''event_hash'' d | _ \<Rightarrow> [])"

abbreviation audit_values :: "string \<Rightarrow> json dict list" where
  "audit_values t \<equiv> map line_value (lines_of t)"

lemma verify_lines_Cons:
  assumes "verify_lines h n (raw # rest) = Inr h'"
  shows "record_prev (line_value raw) = h" "verify_lines (sha256_hex (record_text (line_value raw))) (Suc n) rest = Inr h'"
    "dup_free (JObj (line_value raw))"
proof -
  from assms obtain d where d: "json_loads raw = Some (JObj d)"
    by (auto split: option.splits json.splits)
  have v: "line_value raw = AList.delete ''event_hash'' d" by (simp add: line_value_def d)
  show "record_prev (line_value raw) = h" "verify_lines (sha256_hex (record_text (line_value raw))) (Suc n) rest = Inr h'"
    using assms by (auto simp: d v record_prev_def record_text_def Let_def split: option.splits if_splits)
  show "dup_free (JObj (line_value raw))"
    unfolding v using loads_dup_free [OF d] by (rule dup_free_delete)
qed

lemma verify_lines_chain:
  "verify_lines h n ls = Inr h' \<Longrightarrow>
   rec.chain h (map line_value ls) \<and> rec.head h (map line_value ls) = h' \<and>
   list_all (\<lambda>raw. dup_free (JObj (line_value raw))) ls"
proof (induction ls arbitrary: h n)
  case (Cons raw ls)
  then show ?case using verify_lines_Cons [OF Cons.prems] by (simp del: verify_lines.simps)
qed simp

lemma verify_text_chain:
  assumes "verify_text t = Inr h"
  shows "rec.chain zero_hash (audit_values t)" "rec.head zero_hash (audit_values t) = h"
    "list_all (\<lambda>d. dup_free (JObj d)) (audit_values t)"
  using verify_lines_chain assms unfolding verify_text_def by (auto simp: list_all_iff simp del: dup_free.simps)

section \<open>Reachable logs\<close>

text \<open>
  A run starts on an empty directory and appends; a restart opens what is there. Details are
  JSON values.
\<close>

inductive audit_reachable :: "audit_log \<Rightarrow> bool" where
  start: "au_text a = [] \<Longrightarrow> au_archives a = [] \<Longrightarrow> open_audit a = Inr a' \<Longrightarrow> audit_reachable a'"
| append: "audit_reachable a \<Longrightarrow> wf_json (JObj d) \<Longrightarrow> audit_reachable (snd (audit_append ev d a))"
| restart: "audit_reachable a \<Longrightarrow> open_audit (a\<lparr>au_last_hash := x, au_clock := c, au_ticks := n\<rparr>) = Inr a' \<Longrightarrow> audit_reachable a'"

lemma audit_append_rel:
  assumes "audit_rel a es" "wf_json (JObj d)"
  shows "\<exists>es'. audit_rel (snd (audit_append ev d a)) es'"
proof (cases "needs_rotation a")
  case True
  then show ?thesis
    using append_event_rel [OF rotate_log_rel assms(2)] by (auto simp: audit_append_def Let_def)
next
  case False
  then show ?thesis
    using append_event_rel [OF assms] by (auto simp: audit_append_def Let_def)
qed

lemma archives_append:
  "au_archives (snd (audit_append ev d a)) =
     (if needs_rotation a then au_archives a @ [(next_archive_path a, au_text a)] else au_archives a)"
  by (simp add: audit_append_def append_event_def rotate_log_def Let_def tick_def)

lemma audit_reachable_rel:
  "audit_reachable a \<Longrightarrow> (\<exists>es. audit_rel a es) \<and> (\<forall>(n, t) \<in> set (au_archives a). \<exists>h. verify_text t = Inr h) \<and>
     distinct (keys (au_archives a))"
proof (induction rule: audit_reachable.induct)
  case (start a a')
  then have "audit_rel a' []"
    by (auto simp: open_audit_def audit_verify_def verify_text_def audit_rel_def bind_res_Inr_conv)
  moreover have "au_archives a' = []"
    using start by (auto simp: open_audit_def bind_res_Inr_conv)
  ultimately show ?case by auto
next
  case (append a d ev)
  then obtain es where rel: "audit_rel a es" by auto
  have "verify_text (au_text a) = Inr (au_last_hash a)"
    using verify_rel [OF rel] by (simp add: audit_verify_def)
  then show ?case
    using append audit_append_rel [OF rel append(2)] next_archive_fresh [of a]
    by (auto simp: archives_append split: if_splits)
next
  case (restart a x c n a')
  then obtain es where rel: "audit_rel a es" by auto
  have "audit_rel a' es \<and> au_archives a' = au_archives a"
    using restart(2) rel verify_rel [OF rel]
    by (auto simp: open_audit_def audit_verify_def audit_rel_def bind_res_Inr_conv)
  then show ?case using restart by auto
qed

text \<open>Logs to state examples on: empty, and with one event.\<close>

definition sample_log0 :: audit_log where
  "sample_log0 = \<lparr>au_stem = ''audit'', au_suffix = ''.jsonl'', au_text = [], au_archives = [],
     au_max_bytes = default_max_bytes, au_last_hash = zero_hash, au_clock = (\<lambda>n. 1000 + int n), au_ticks = 0\<rparr>"

definition sample_log1 :: audit_log where
  "sample_log1 = snd (audit_append ''flush_complete'' [(''sequence'', JInt 3)] sample_log0)"

lemma sample_log0_facts: "audit_reachable sample_log0" "audit_rel sample_log0 []"
proof -
  have "open_audit sample_log0 = Inr sample_log0"
    by (simp add: open_audit_def audit_verify_def verify_text_def sample_log0_def)
  then show "audit_reachable sample_log0"
    by (rule audit_reachable.start [rotated -1]) (simp_all add: sample_log0_def)
  show "audit_rel sample_log0 []" by (simp add: audit_rel_def sample_log0_def)
qed

lemma sample_log1_facts: "audit_reachable sample_log1"
  "audit_rel sample_log1 [(''flush_complete'', [(''sequence'', JInt 3)], 1000)]"
proof -
  show "audit_reachable sample_log1"
    unfolding sample_log1_def by (rule audit_reachable.append [OF sample_log0_facts(1)]) simp
  have "sample_log1 = append_event ''flush_complete'' [(''sequence'', JInt 3)] sample_log0"
    by (simp add: sample_log1_def audit_append_def needs_rotation_def sample_log0_def default_max_bytes_def Let_def)
  then show "audit_rel sample_log1 [(''flush_complete'', [(''sequence'', JInt 3)], 1000)]"
    using append_event_rel [OF sample_log0_facts(2), of "[(''sequence'', JInt 3)]" "''flush_complete''"]
    by (simp add: time_ns_def) (simp add: sample_log0_def)
qed

section \<open>Properties\<close>

text \<open>
  C21. At every point of every run the active log verifies, and what \<open>verify\<close> returns is the head
  the object holds; every archived file verifies on its own; and a restart on the files gives the
  same log.
\<close>

theorem audit_always_verifies:
  assumes "audit_reachable a"
  shows "audit_verify a = Inr (au_last_hash a) \<and> open_audit (a\<lparr>au_last_hash := x\<rparr>) = Inr a \<and>
    (\<forall>n t. map_of (au_archives a) n = Some t \<longrightarrow> (\<exists>h. verify_text t = Inr h))"
proof -
  obtain es where rel: "audit_rel a es" and ar: "\<forall>(n, t) \<in> set (au_archives a). \<exists>h. verify_text t = Inr h"
    using audit_reachable_rel [OF assms] by auto
  then show ?thesis
    using verify_rel [OF rel] open_audit_rel [OF rel] by (auto dest!: map_of_SomeD)
qed

theorem audit_always_verifies_witness:
  "audit_verify sample_log1 = Inr (au_last_hash sample_log1)"
  using audit_always_verifies [OF sample_log1_facts(1)] by blast

text \<open>
  C22. Tamper evidence of the audit log: a text that verifies with the same head as the log holds
  the same entries in the same order, unless two of the entry texts that were hashed collide under
  SHA-256, or the number of lines differs and one of them hashes to the all-zero digest.
\<close>

theorem audit_tamper_evident:
  assumes "audit_reachable a" "verify_text t = Inr (au_last_hash a)"
    and "list_all (\<lambda>d. plain_floats (JObj d)) (audit_values t @ audit_values (au_text a))"
    and "inj_on sha256_hex ((\<lambda>d. canonical (JObj d)) ` set (audit_values t @ audit_values (au_text a)))"
    and "length (lines_of t) = length (lines_of (au_text a)) \<or>
         zero_hash \<notin> sha256_hex ` (\<lambda>d. canonical (JObj d)) ` set (audit_values t @ audit_values (au_text a))"
  shows "map sorted_dict (audit_values t) = map sorted_dict (audit_values (au_text a))"
proof -
  obtain es where "audit_rel a es" using audit_reachable_rel [OF assms(1)] by auto
  then have v: "verify_text (au_text a) = Inr (au_last_hash a)"
    using verify_rel by (simp add: audit_verify_def)
  note c = verify_text_chain [OF assms(2)] verify_text_chain [OF v]
  have ok: "list_all record_ok (audit_values t)" "list_all record_ok (audit_values (au_text a))"
    using assms(3) c(3,6)
    by (auto simp: record_ok_def wf_json_iff list_all_iff simp del: wf_json.simps dup_free.simps plain_floats.simps)
  have rt: "record_text = (\<lambda>d. canonical (JObj d))" by (simp add: record_text_def [abs_def])
  show ?thesis
    using c(1,2,4,5) ok assms(4,5) by (intro rec.chain_unique) (simp_all add: rt)
qed

text \<open>Witness: the log of one event, and the same text without its final line break.\<close>

abbreviation sample_details :: "json dict" where
  "sample_details \<equiv> [(''sequence'', JInt 3)]"

abbreviation sample_event :: string where
  "sample_event \<equiv> canonical (JObj (full_event ''flush_complete'' sample_details zero_hash 1000))"

lemma sample_log1_text: "au_text sample_log1 = sample_event @ [nl]"
  using sample_log1_facts(2) by (simp add: audit_rel_def event_line_eq)

lemma sample_event_lines: "lines_of (sample_event @ [nl]) = [sample_event @ [nl]]" "lines_of sample_event = [sample_event]"
proof -
  have no_nl: "nl \<notin> set sample_event" by (rule event_no_nl) simp
  obtain t where "sample_event = CHR ''{'' # t" using canonical_dict_hd by blast
  then have "sample_event \<noteq> []" by simp
  then show "lines_of (sample_event @ [nl]) = [sample_event @ [nl]]" "lines_of sample_event = [sample_event]"
    using lines_of_line [OF no_nl, of "[]"] lines_of_partial [OF no_nl] by simp_all
qed

lemma sample_event_value:
  assumes "list_all is_ws r"
  shows "line_value (sample_event @ r) = sorted_dict (event_body ''flush_complete'' sample_details zero_hash 1000)"
proof -
  let ?b = "event_body ''flush_complete'' sample_details zero_hash 1000"
  have "json_loads (sample_event @ r) = Some (JObj (sorted_dict (full_event ''flush_complete'' sample_details zero_hash 1000)))"
    using assms by (intro loads_dict) (simp_all add: event_body_def)
  then show ?thesis
    using sorted_dict_pop [of "''event_hash''" ?b] by (simp add: line_value_def) (simp add: event_body_def)
qed

theorem audit_tamper_evident_witness:
  "map sorted_dict (audit_values (butlast (au_text sample_log1))) = map sorted_dict (audit_values (au_text sample_log1))"
proof (rule audit_tamper_evident [OF sample_log1_facts(1)])
  let ?b = "event_body ''flush_complete'' sample_details zero_hash 1000"
  have v: "audit_values sample_event = [sorted_dict ?b]" "audit_values (sample_event @ [nl]) = [sorted_dict ?b]"
    using sample_event_value [of "[]"] sample_event_value [of "[nl]"] sample_event_lines by (simp_all add: is_ws_def)
  show "verify_text (butlast (au_text sample_log1)) = Inr (au_last_hash sample_log1)"
  proof -
    have "au_last_hash sample_log1 = event_hash ''flush_complete'' sample_details zero_hash 1000"
      using sample_log1_facts(2) by (simp add: audit_rel_def)
    then show ?thesis
      using verify_event [of sample_details "[]" zero_hash 1 "''flush_complete''" 1000 "[]"]
      by (simp add: sample_log1_text verify_text_def sample_event_lines(2) del: verify_lines.simps(2))
  qed
  show "inj_on sha256_hex ((\<lambda>d. canonical (JObj d)) `
      set (audit_values (butlast (au_text sample_log1)) @ audit_values (au_text sample_log1)))"
    by (simp add: sample_log1_text v del: list.map)
  have "wf_json (JObj (sorted_dict ?b))"
    using wf_sort_keys [of "JObj ?b"] by (simp add: sort_keys_JObj event_body_def del: sort_keys.simps wf_sort_keys)
  then show "list_all (\<lambda>d. plain_floats (JObj d)) (audit_values (butlast (au_text sample_log1)) @ audit_values (au_text sample_log1))"
    by (simp add: sample_log1_text v wf_json_iff del: wf_json.simps plain_floats.simps list.map)
  show "length (lines_of (butlast (au_text sample_log1))) = length (lines_of (au_text sample_log1)) \<or>
      zero_hash \<notin> sha256_hex ` (\<lambda>d. canonical (JObj d)) `
        set (audit_values (butlast (au_text sample_log1)) @ audit_values (au_text sample_log1))"
    by (simp add: sample_log1_text sample_event_lines)
qed

text \<open>
  C23. Appending loses nothing. Below the size limit the file grows by exactly the new line. At the
  limit the whole file is kept, byte for byte, under a name that was not taken, and the new file
  starts with a boundary entry that carries that name and the head of the archived file.
\<close>

theorem audit_append_loses_nothing:
  "if needs_rotation a
   then next_archive_path a \<notin> set (keys (au_archives a)) \<and>
        au_archives (snd (audit_append ev d a)) = au_archives a @ [(next_archive_path a, au_text a)] \<and>
        (\<exists>ts ts' h. au_text (snd (audit_append ev d a)) =
           event_line ''rotation_boundary'' [(''archived_to'', JStr (next_archive_path a)),
             (''previous_file_last_hash'', JStr (au_last_hash a))] zero_hash ts @ event_line ev d h ts')
   else au_archives (snd (audit_append ev d a)) = au_archives a \<and>
        (\<exists>ts. au_text (snd (audit_append ev d a)) = au_text a @ event_line ev d (au_last_hash a) ts)"
proof (cases "needs_rotation a")
  case True
  then show ?thesis
    using next_archive_fresh [of a] by (auto simp: audit_append_def append_event_def rotate_log_def Let_def tick_def)
next
  case False
  then show ?thesis by (auto simp: audit_append_def append_event_def Let_def tick_def)
qed

text \<open>
  C24. A power cut inside \<open>append\<close> stops the next start. The audit log has no torn-tail allowance:
  with any proper, non-empty part of an entry's text at the end of the file, opening it raises.
\<close>

theorem audit_torn_tail_refused:
  assumes "audit_reachable a" "wf_json (JObj d)" "0 < k"
    and "Suc k < length (event_line ev d (au_last_hash a) ts)"
  shows "open_audit (a\<lparr>au_text := au_text a @ take k (event_line ev d (au_last_hash a) ts)\<rparr>) =
    Inl (ValueError ''audit line is not JSON'')"
proof -
  obtain es where rel: "audit_rel a es" using audit_reachable_rel [OF assms(1)] by auto
  let ?c = "canonical (JObj (full_event ev d (au_last_hash a) ts))"
  define p where "p = take k (event_line ev d (au_last_hash a) ts)"
  have p: "p = take k ?c" "p @ drop k ?c = ?c" "drop k ?c \<noteq> []"
    using assms(4) by (auto simp: p_def event_line_eq)
  then have "p \<noteq> []" "nl \<notin> set p"
    using assms(3) event_no_nl [OF assms(2)] by (auto dest: in_set_takeD)
  then have lines: "lines_of p = [p]" by (intro lines_of_partial)
  have "json_loads p = None"
    using loads_dict_prefix [OF wf_event(2) [OF assms(2)] p(2,3)] .
  then have "verify_text (au_text a @ p) = Inl (ValueError ''audit line is not JSON'')"
    using rel verify_text_rel [of es p] by (simp add: audit_rel_def lines)
  then show ?thesis
    by (simp add: open_audit_def audit_verify_def p_def)
qed

theorem audit_torn_tail_refused_witness:
  "open_audit (sample_log1\<lparr>au_text := au_text sample_log1 @ take 2 (event_line ''x'' [] (au_last_hash sample_log1) 0)\<rparr>) =
    Inl (ValueError ''audit line is not JSON'')"
  by (rule audit_torn_tail_refused [OF sample_log1_facts(1)])
    (simp_all add: event_line_def event_body_def canonical_def dump_str_def)

end
