(* ===== verification/Aegis_Types.thy ===== *)
theory Aegis_Types
  imports Prelude Complex_Main
begin

text \<open>
  The vocabulary of the detector and of the engine (\<^verbatim>\<open>aegis_shield/core/types.py\<close>): device
  states, kinds of I/O, I/O events, feature vectors and decisions. Python floats are real
  numbers: rounding is not modelled.
\<close>

datatype aegis_state =
    BOOT_SELFTEST
  | PROVISIONING
  | NORMAL
  | ELEVATED
  | CONTAINED
  | RECOVERY_READ_ONLY
  | MAINTENANCE
  | FAULT

fun state_value :: "aegis_state \<Rightarrow> string" where
  "state_value BOOT_SELFTEST = ''boot_selftest''"
| "state_value PROVISIONING = ''provisioning''"
| "state_value NORMAL = ''normal''"
| "state_value ELEVATED = ''elevated''"
| "state_value CONTAINED = ''contained''"
| "state_value RECOVERY_READ_ONLY = ''recovery_read_only''"
| "state_value MAINTENANCE = ''maintenance''"
| "state_value FAULT = ''fault''"

definition all_states :: "aegis_state list" where
  "all_states = [BOOT_SELFTEST, PROVISIONING, NORMAL, ELEVATED, CONTAINED, RECOVERY_READ_ONLY, MAINTENANCE, FAULT]"

text \<open>\<open>AegisState(value)\<close>: the member with that value, or a \<open>ValueError\<close>.\<close>

definition state_of_value :: "string \<Rightarrow> aegis_state res" where
  "state_of_value v =
     (case find (\<lambda>s. state_value s = v) all_states of
        Some s \<Rightarrow> Inr s
      | None \<Rightarrow> Inl (ValueError ''not a valid AegisState''))"

lemma state_of_value [simp]: "state_of_value (state_value s) = Inr s"
  by (cases s) (simp_all add: state_of_value_def all_states_def)

lemma state_value_inject [simp]: "state_value s = state_value t \<longleftrightarrow> s = t"
  by (metis state_of_value sum.inject(2))

datatype io_kind = READ | WRITE | FLUSH | DEALLOCATE | ADMIN

record io_event =
  ev_kind :: io_kind
  ev_lba :: int
  ev_blocks :: int
  ev_payload :: bytes
  ev_timestamp_ns :: int
  ev_opcode :: "int option"

record feature_vector =
  operations :: nat
  write_fraction :: real
  mean_write_entropy :: real
  high_entropy_write_fraction :: real
  overwrite_fraction :: real
  fv_changed_byte_fraction :: real
  unique_write_fraction :: real
  namespace_coverage_fraction :: real
  sequential_write_fraction :: real
  read_before_write_fraction :: real
  deallocate_fraction :: real
  destructive_command_seen :: bool

record decision =
  score :: real
  alert :: bool
  contain :: bool
  reasons :: "string list"
  features :: feature_vector

end
