(* ===== verification/Entropy.thy ===== *)
theory Entropy
  imports Aegis_Types
begin

text \<open>
  Byte statistics of a payload (\<^verbatim>\<open>aegis_shield/core/entropy.py\<close>): the Shannon entropy from a table of
  256 counters, and the fraction of bytes that differ between two buffers. The main fact is
  that the loop computes a value between 0 and 8 bits.
\<close>

section \<open>Shannon entropy\<close>

definition count_byte :: "nat list \<Rightarrow> byte \<Rightarrow> nat list" where
  "count_byte counts b = counts[unat b := counts ! unat b + 1]"

definition byte_counts :: "bytes \<Rightarrow> nat list" where
  "byte_counts data = foldl count_byte (replicate 256 0) data"

definition entropy_step :: "nat \<Rightarrow> real \<Rightarrow> nat \<Rightarrow> real" where
  "entropy_step n e c = (if c = 0 then e else e - (real c / real n) * log 2 (real c / real n))"

definition shannon_entropy :: "bytes \<Rightarrow> real" where
  "shannon_entropy data =
     (if data = [] then 0 else foldl (entropy_step (length data)) 0 (byte_counts data))"

lemma length_count_byte [simp]: "length (count_byte cs b) = length cs"
  by (simp add: count_byte_def)

lemma length_foldl_count [simp]: "length (foldl count_byte cs data) = length cs"
  by (induction data arbitrary: cs) simp_all

lemma foldl_count_nth:
  "length cs = 256 \<Longrightarrow> k < 256 \<Longrightarrow> foldl count_byte cs data ! k = cs ! k + length (filter (\<lambda>b. unat b = k) data)"
proof (induction data arbitrary: cs)
  case (Cons b data)
  then show ?case
    using unat_byte_less [of b] by (simp add: count_byte_def nth_list_update)
qed simp

text \<open>The table holds the number of occurrences of every byte value.\<close>

lemma byte_counts_nth: "k < 256 \<Longrightarrow> byte_counts data ! k = length (filter (\<lambda>b. unat b = k) data)"
  by (simp add: byte_counts_def foldl_count_nth)

lemma length_byte_counts [simp]: "length (byte_counts data) = 256"
  by (simp add: byte_counts_def)

lemma sum_list_update_Suc: "k < length (cs :: nat list) \<Longrightarrow> sum_list (cs[k := cs ! k + 1]) = sum_list cs + 1"
proof -
  assume k: "k < length cs"
  have "sum_list (cs[k := cs ! k + 1]) = sum_list cs + (cs ! k + 1) - cs ! k"
    using k by (subst sum_list_update) simp_all
  then show ?thesis by simp
qed

lemma sum_foldl_count: "length cs = 256 \<Longrightarrow> sum_list (foldl count_byte cs data) = sum_list cs + length data"
proof (induction data arbitrary: cs)
  case (Cons b data)
  then show ?case
    using unat_byte_less [of b] sum_list_update_Suc [of "unat b" cs] by (simp add: count_byte_def)
qed simp

lemma sum_byte_counts: "sum_list (byte_counts data) = length data"
  by (simp add: byte_counts_def sum_foldl_count)

text \<open>The loop as a sum over the table.\<close>

definition plogp :: "real \<Rightarrow> real" where
  "plogp p = (if p = 0 then 0 else - p * log 2 p)"

lemma entropy_foldl: "0 < n \<Longrightarrow> foldl (entropy_step n) e cs = e + (\<Sum>c \<leftarrow> cs. plogp (real c / real n))"
  by (induction cs arbitrary: e) (auto simp: entropy_step_def plogp_def)

lemma shannon_entropy_sum:
  "data \<noteq> [] \<Longrightarrow> shannon_entropy data = (\<Sum>c \<leftarrow> byte_counts data. plogp (real c / real (length data)))"
  by (simp add: shannon_entropy_def entropy_foldl)

lemma plogp_nonneg: "0 \<le> p \<Longrightarrow> p \<le> 1 \<Longrightarrow> 0 \<le> plogp p"
  by (auto simp: plogp_def mult_le_0_iff log_le_zero_cancel_iff)

text \<open>The tangent of \<open>plogp\<close> at the probability of \<open>b\<close> bits: the bound that compares a distribution with another.\<close>

lemma plogp_tangent:
  assumes "0 \<le> p"
  shows "plogp p - real b * p \<le> (1 / 2 ^ b - p) / ln 2"
proof (cases "p = 0")
  case False
  then have p: "0 < p" using assms by simp
  have "ln (1 / (2 ^ b * p)) \<le> 1 / (2 ^ b * p) - 1"
    using p by (intro ln_le_minus_one) simp
  then have "p * ln (1 / (2 ^ b * p)) \<le> p * (1 / (2 ^ b * p) - 1)"
    using p by (intro mult_left_mono) auto
  also have "\<dots> = 1 / 2 ^ b - p" using p by (simp add: field_simps)
  finally have t: "p * ln (1 / (2 ^ b * p)) \<le> 1 / 2 ^ b - p" .
  have "ln (1 / (2 ^ b * p)) = - (real b * ln 2) - ln p"
    using p by (simp add: ln_div ln_mult ln_realpow)
  then have "plogp p - real b * p = p * ln (1 / (2 ^ b * p)) / ln 2"
    using p by (simp only: plogp_def log_def) (simp add: field_simps)
  then show ?thesis
    using t by (simp add: divide_right_mono)
qed (simp add: plogp_def)

lemma sum_list_bound:
  fixes f g :: "'a \<Rightarrow> real"
  shows "(\<And>x. x \<in> set xs \<Longrightarrow> f x \<le> g x) \<Longrightarrow> (\<Sum>x \<leftarrow> xs. f x) \<le> (\<Sum>x \<leftarrow> xs. g x)"
  by (induction xs) (auto intro: add_mono)

lemma sum_list_affine:
  fixes f :: "'a \<Rightarrow> real"
  shows "(\<Sum>x \<leftarrow> xs. (k - f x) / r) = ((\<Sum>x \<leftarrow> xs. k) - (\<Sum>x \<leftarrow> xs. f x)) / r"
  by (induction xs) (simp_all add: add_divide_distrib [symmetric] algebra_simps)

lemma sum_probabilities:
  assumes "data \<noteq> []"
  shows "(\<Sum>c \<leftarrow> byte_counts data. real c / real (length data)) = 1"
proof -
  have "(\<Sum>c \<leftarrow> cs. real c / r) = real (sum_list cs) / r" for cs :: "nat list" and r
    by (induction cs) (simp_all add: add_divide_distrib)
  then show ?thesis using assms by (simp add: sum_byte_counts)
qed

lemma byte_count_le: "c \<in> set (byte_counts data) \<Longrightarrow> c \<le> length data"
  using member_le_sum_list [of c "byte_counts data"] by (simp add: sum_byte_counts)

lemma shannon_entropy_bounds: "0 \<le> shannon_entropy data \<and> shannon_entropy data \<le> 8"
proof (cases "data = []")
  case False
  let ?p = "\<lambda>c. real c / real (length data)"
  have "0 \<le> plogp (?p c)" if "c \<in> set (byte_counts data)" for c
    using byte_count_le [OF that] False by (intro plogp_nonneg) simp_all
  then have lo: "0 \<le> (\<Sum>c \<leftarrow> byte_counts data. plogp (?p c))"
    by (auto intro!: sum_list_nonneg)
  have "(\<Sum>c \<leftarrow> byte_counts data. plogp (?p c) - 8 * ?p c) \<le> (\<Sum>c \<leftarrow> byte_counts data. (1 / 256 - ?p c) / ln 2)"
    using plogp_tangent [of "?p c" 8 for c] by (intro sum_list_bound) simp
  also have "\<dots> = ((\<Sum>c \<leftarrow> byte_counts data. 1 / 256) - (\<Sum>c \<leftarrow> byte_counts data. ?p c)) / ln 2"
    by (rule sum_list_affine)
  also have "\<dots> = 0"
    using sum_probabilities [OF False] by (simp add: sum_list_triv)
  finally have "(\<Sum>c \<leftarrow> byte_counts data. plogp (?p c)) - 8 * (\<Sum>c \<leftarrow> byte_counts data. ?p c) \<le> 0"
    by (simp only: sum_list_subtractf sum_list_const_mult)
  then show ?thesis
    using lo sum_probabilities [OF False] by (simp add: shannon_entropy_sum [OF False])
qed (simp add: shannon_entropy_def)

section \<open>Changed bytes\<close>

definition changed_byte_fraction :: "bytes \<Rightarrow> bytes \<Rightarrow> real res" where
  "changed_byte_fraction before after =
     (if length before \<noteq> length after then Inl (ValueError ''buffers must have equal length'')
      else if before = [] then Inr 0
      else Inr (real (length (filter (\<lambda>(a, b). a \<noteq> b) (zip before after))) / real (length before)))"

lemma ratio_le_one: "a \<le> b \<Longrightarrow> real a / real b \<le> 1"
  by (cases "b = 0") auto

lemma changed_byte_fraction_bounds:
  "changed_byte_fraction before after = Inr x \<Longrightarrow> 0 \<le> x \<and> x \<le> 1"
  using length_filter_le [of "\<lambda>(a, b). a \<noteq> b" "zip before after"]
  by (auto simp: changed_byte_fraction_def intro!: ratio_le_one split: if_splits)

lemma filter_zip_eq_Nil:
  "length xs = length ys \<Longrightarrow> filter (\<lambda>(a, b). a \<noteq> b) (zip xs ys) = [] \<longleftrightarrow> xs = ys"
  by (induction xs ys rule: list_induct2) auto

lemma changed_byte_fraction_zero:
  "changed_byte_fraction before after = Inr 0 \<longleftrightarrow> before = after"
  using filter_zip_eq_Nil [of before after] by (auto simp: changed_byte_fraction_def)

section \<open>Properties\<close>

text \<open>
  The entropy of any payload lies in the closed interval from 0 to 8 bits per byte, and the
  changed fraction of two buffers lies between 0 and 1, is 0 exactly for equal buffers, and is
  refused for buffers of different length.
\<close>

theorem byte_statistics_bounds:
  "0 \<le> shannon_entropy data \<and> shannon_entropy data \<le> 8 \<and>
   (case changed_byte_fraction before after of
      Inl e \<Rightarrow> length before \<noteq> length after
    | Inr x \<Rightarrow> length before = length after \<and> 0 \<le> x \<and> x \<le> 1 \<and> (x = 0) = (before = after))"
proof -
  have "case changed_byte_fraction before after of
      Inl e \<Rightarrow> length before \<noteq> length after
    | Inr x \<Rightarrow> length before = length after \<and> 0 \<le> x \<and> x \<le> 1 \<and> (x = 0) = (before = after)"
  proof (cases "changed_byte_fraction before after")
    case (Inl e)
    then show ?thesis by (auto simp: changed_byte_fraction_def split: if_splits)
  next
    case (Inr x)
    moreover have "length before = length after"
      using Inr by (auto simp: changed_byte_fraction_def split: if_splits)
    ultimately show ?thesis
      using changed_byte_fraction_bounds [OF Inr] changed_byte_fraction_zero [of before after] by auto
  qed
  then show ?thesis using shannon_entropy_bounds [of data] by blast
qed

end
