(* ===== verification/Features.thy ===== *)
theory Features
  imports Entropy
begin

text \<open>
  The sliding-window analyzer (\<^verbatim>\<open>aegis_shield/core/features.py\<close>): the last operations, a census of the
  blocks written within the window, the recent reads and the end of the last write. The
  invariant \<open>analyzer_inv\<close> says that the window is bounded and that the census counts
  exactly the writes in the window; the features it yields are fractions.
\<close>

section \<open>State\<close>

record analyzer_config =
  window_operations :: int
  namespace_blocks :: int
  high_entropy_bits_per_byte :: real

record observation =
  ob_kind :: io_kind
  ob_lba :: int
  ob_blocks :: int
  ob_entropy :: real
  ob_high_entropy :: bool
  ob_overwrite :: bool
  ob_changed_fraction :: real
  ob_sequential :: bool
  ob_read_before_write :: bool
  ob_destructive :: bool

record analyzer =
  an_config :: analyzer_config
  an_window :: "observation list"
  an_written_blocks :: "int \<Rightarrow> int option"
  an_recent_reads :: "(int \<times> int) list"
  an_last_write_end :: "int option"

definition default_config :: "int \<Rightarrow> analyzer_config" where
  "default_config nb = \<lparr>window_operations = 128, namespace_blocks = nb, high_entropy_bits_per_byte = 15 / 2\<rparr>"

definition new_analyzer :: "analyzer_config \<Rightarrow> analyzer res" where
  "new_analyzer config =
     (if window_operations config < 1 \<or> namespace_blocks config < 1
      then Inl (ValueError ''window_operations and namespace_blocks must be positive'')
      else Inr \<lparr>an_config = config, an_window = [], an_written_blocks = Map.empty, an_recent_reads = [],
                an_last_write_end = None\<rparr>)"

text \<open>\<open>deque(maxlen=n).append\<close>: the oldest element leaves a full deque.\<close>

definition deque_append :: "int \<Rightarrow> 'a list \<Rightarrow> 'a \<Rightarrow> 'a list" where
  "deque_append maxlen xs x = (if int (length xs) < maxlen then xs @ [x] else tl xs @ [x])"

definition block_range :: "int \<Rightarrow> int \<Rightarrow> int list" where
  "block_range lba n = [lba .. lba + n - 1]"

text \<open>\<open>Counter[block]\<close> is 0 for a missing block.\<close>

definition counter_get :: "(int \<Rightarrow> int option) \<Rightarrow> int \<Rightarrow> int" where
  "counter_get c b = (case c b of None \<Rightarrow> 0 | Some n \<Rightarrow> n)"

fun count_blocks :: "(int \<Rightarrow> int option) \<Rightarrow> int list \<Rightarrow> (int \<Rightarrow> int option)" where
  "count_blocks c [] = c"
| "count_blocks c (b # bl) = count_blocks (c(b \<mapsto> counter_get c b + 1)) bl"

fun retire_blocks :: "(int \<Rightarrow> int option) \<Rightarrow> int list \<Rightarrow> (int \<Rightarrow> int option)" where
  "retire_blocks c [] = c"
| "retire_blocks c (b # bl) =
     (let remaining = counter_get c b - 1
      in retire_blocks (if 0 < remaining then c(b \<mapsto> remaining) else c(b := None)) bl)"

definition retire :: "observation \<Rightarrow> analyzer \<Rightarrow> analyzer" where
  "retire ob a =
     (if ob_kind ob \<noteq> WRITE then a
      else a\<lparr>an_written_blocks := retire_blocks (an_written_blocks a) (block_range (ob_lba ob) (ob_blocks ob))\<rparr>)"

section \<open>Features of a window\<close>

definition ratio :: "real \<Rightarrow> real \<Rightarrow> real" where
  "ratio numerator denominator = (if denominator \<noteq> 0 then numerator / denominator else 0)"

definition tally :: "(observation \<Rightarrow> bool) \<Rightarrow> observation list \<Rightarrow> real" where
  "tally P obs = real (length (filter P obs))"

definition snapshot_features :: "analyzer \<Rightarrow> feature_vector" where
  "snapshot_features a =
     (let items = an_window a;
          count = real (length items);
          writes = filter (\<lambda>ob. ob_kind ob = WRITE) items;
          write_count = real (length writes);
          unique_write_blocks = remdups (concat (map (\<lambda>ob. block_range (ob_lba ob) (ob_blocks ob)) writes));
          total_write_blocks = sum_list (map ob_blocks writes)
      in \<lparr>operations = length items,
          write_fraction = ratio write_count count,
          mean_write_entropy = ratio (sum_list (map ob_entropy writes)) write_count,
          high_entropy_write_fraction = ratio (tally ob_high_entropy writes) write_count,
          overwrite_fraction = ratio (tally ob_overwrite writes) write_count,
          fv_changed_byte_fraction = ratio (sum_list (map ob_changed_fraction writes)) write_count,
          unique_write_fraction = ratio (real (length unique_write_blocks)) (of_int total_write_blocks),
          namespace_coverage_fraction =
            min 1 (ratio (real (length unique_write_blocks)) (of_int (namespace_blocks (an_config a)))),
          sequential_write_fraction = ratio (tally ob_sequential writes) write_count,
          read_before_write_fraction = ratio (tally ob_read_before_write writes) write_count,
          deallocate_fraction = ratio (tally (\<lambda>ob. ob_kind ob = DEALLOCATE) items) count,
          destructive_command_seen = list_ex ob_destructive items\<rparr>)"

section \<open>Observing an event\<close>

record write_facts =
  wf_overwrite :: bool
  wf_change :: real
  wf_sequential :: bool
  wf_read_before_write :: bool

definition no_facts :: write_facts where
  "no_facts = \<lparr>wf_overwrite = False, wf_change = 0, wf_sequential = False, wf_read_before_write = False\<rparr>"

text \<open>The branch of \<open>observe\<close> for a write: what the window and the before-image say about it.\<close>

definition write_facts_of :: "analyzer \<Rightarrow> io_event \<Rightarrow> bytes option \<Rightarrow> write_facts res" where
  "write_facts_of a ev before =
     (let seen = list_ex (\<lambda>b. counter_get (an_written_blocks a) b \<noteq> 0) (block_range (ev_lba ev) (ev_blocks ev));
          sequential = (an_last_write_end a = Some (ev_lba ev));
          rbw = list_ex (\<lambda>(read_start, read_end). ev_lba ev < read_end \<and> read_start < ev_lba ev + ev_blocks ev)
                  (an_recent_reads a)
      in case before of
           None \<Rightarrow> Inr \<lparr>wf_overwrite = seen, wf_change = 0, wf_sequential = sequential, wf_read_before_write = rbw\<rparr>
         | Some bytes \<Rightarrow>
             bind_res (changed_byte_fraction bytes (ev_payload ev)) (\<lambda>change.
               Inr \<lparr>wf_overwrite = seen \<or> list_ex (\<lambda>b. b \<noteq> 0) bytes, wf_change = change,
                    wf_sequential = sequential, wf_read_before_write = rbw\<rparr>))"

text \<open>The part of \<open>observe\<close> after the branches: retire, append, count.\<close>

definition record_observation :: "io_event \<Rightarrow> real \<Rightarrow> write_facts \<Rightarrow> analyzer \<Rightarrow> analyzer" where
  "record_observation ev entropy w a =
     (let destructive = (ev_kind ev = ADMIN \<or> ev_kind ev = DEALLOCATE);
          maxlen = window_operations (an_config a);
          a1 = (if int (length (an_window a)) = maxlen then retire (hd (an_window a)) a else a);
          ob = \<lparr>ob_kind = ev_kind ev, ob_lba = ev_lba ev, ob_blocks = ev_blocks ev, ob_entropy = entropy,
                ob_high_entropy = (high_entropy_bits_per_byte (an_config a) \<le> entropy), ob_overwrite = wf_overwrite w,
                ob_changed_fraction = wf_change w, ob_sequential = wf_sequential w,
                ob_read_before_write = wf_read_before_write w, ob_destructive = destructive\<rparr>;
          a2 = a1\<lparr>an_window := deque_append maxlen (an_window a1) ob\<rparr>
      in if ev_kind ev = WRITE
         then a2\<lparr>an_written_blocks := count_blocks (an_written_blocks a2) (block_range (ev_lba ev) (ev_blocks ev))\<rparr>
         else a2)"

definition observe :: "io_event \<Rightarrow> bytes option \<Rightarrow> (analyzer, feature_vector) oper" where
  "observe ev before a =
     (if ev_kind ev = READ then
        (let a1 = record_observation ev 0 no_facts
                    (a\<lparr>an_recent_reads := deque_append (window_operations (an_config a)) (an_recent_reads a)
                        (ev_lba ev, ev_lba ev + ev_blocks ev)\<rparr>)
         in (Inr (snapshot_features a1), a1))
      else if ev_kind ev = WRITE then
        (case write_facts_of a ev before of
           Inl e \<Rightarrow> (Inl e, a)
         | Inr w \<Rightarrow>
             (let a1 = record_observation ev (shannon_entropy (ev_payload ev)) w
                         (a\<lparr>an_last_write_end := Some (ev_lba ev + ev_blocks ev)\<rparr>)
              in (Inr (snapshot_features a1), a1)))
      else
        (let a1 = record_observation ev 0 no_facts a in (Inr (snapshot_features a1), a1)))"

section \<open>The census\<close>

definition covers_block :: "int \<Rightarrow> observation \<Rightarrow> bool" where
  "covers_block b ob \<longleftrightarrow> ob_kind ob = WRITE \<and> ob_lba ob \<le> b \<and> b < ob_lba ob + ob_blocks ob"

definition census :: "observation list \<Rightarrow> int \<Rightarrow> nat" where
  "census obs b = length (filter (covers_block b) obs)"

text \<open>How the counter stores a count: a block that is not covered has no entry.\<close>

definition entry_of_count :: "nat \<Rightarrow> int option" where
  "entry_of_count n = (if n = 0 then None else Some (int n))"

lemma counter_get_entry [simp]: "c b = entry_of_count n \<Longrightarrow> counter_get c b = int n"
  by (simp add: counter_get_def entry_of_count_def)

lemma set_block_range: "b \<in> set (block_range lba n) \<longleftrightarrow> lba \<le> b \<and> b < lba + n"
  by (auto simp: block_range_def)

lemma distinct_block_range: "distinct (block_range lba n)"
  by (simp add: block_range_def)

lemma length_block_range: "length (block_range lba n) = nat n"
  by (simp add: block_range_def)

lemma count_blocks_entry:
  "distinct bl \<Longrightarrow> (\<And>b. c b = entry_of_count (f b)) \<Longrightarrow>
   count_blocks c bl b = entry_of_count (f b + (if b \<in> set bl then 1 else 0))"
proof (induction bl arbitrary: c f)
  case (Cons x bl)
  have "count_blocks (c(x \<mapsto> counter_get c x + 1)) bl b =
      entry_of_count ((f(x := f x + 1)) b + (if b \<in> set bl then 1 else 0))"
    using Cons.prems by (intro Cons.IH) (auto simp: entry_of_count_def counter_get_def)
  then show ?case using Cons.prems(1) by auto
qed simp

lemma retire_blocks_entry:
  "distinct bl \<Longrightarrow> (\<And>b. c b = entry_of_count (f b)) \<Longrightarrow>
   retire_blocks c bl b = entry_of_count (f b - (if b \<in> set bl then 1 else 0))"
proof (induction bl arbitrary: c f)
  case (Cons x bl)
  let ?r = "counter_get c x - 1"
  have "retire_blocks (if 0 < ?r then c(x \<mapsto> ?r) else c(x := None)) bl b =
      entry_of_count ((f(x := f x - 1)) b - (if b \<in> set bl then 1 else 0))"
    using Cons.prems by (intro Cons.IH) (auto simp: entry_of_count_def counter_get_def)
  then show ?case using Cons.prems(1) by (auto simp: Let_def)
qed simp

section \<open>The invariant\<close>

text \<open>What every observation in the window satisfies.\<close>

definition observation_ok :: "observation \<Rightarrow> bool" where
  "observation_ok ob \<longleftrightarrow>
     0 \<le> ob_entropy ob \<and> ob_entropy ob \<le> 8 \<and> 0 \<le> ob_changed_fraction ob \<and> ob_changed_fraction ob \<le> 1 \<and>
     (ob_kind ob = WRITE \<longrightarrow> 0 \<le> ob_blocks ob) \<and>
     ob_destructive ob = (ob_kind ob = ADMIN \<or> ob_kind ob = DEALLOCATE)"

definition analyzer_inv :: "analyzer \<Rightarrow> bool" where
  "analyzer_inv a \<longleftrightarrow>
     1 \<le> window_operations (an_config a) \<and> 1 \<le> namespace_blocks (an_config a) \<and>
     int (length (an_window a)) \<le> window_operations (an_config a) \<and>
     int (length (an_recent_reads a)) \<le> window_operations (an_config a) \<and>
     (\<forall>b. an_written_blocks a b = entry_of_count (census (an_window a) b)) \<and>
     list_all observation_ok (an_window a)"

lemma new_analyzer_inv: "new_analyzer config = Inr a \<Longrightarrow> analyzer_inv a"
  by (auto simp: new_analyzer_def analyzer_inv_def census_def entry_of_count_def split: if_splits)

lemma length_deque_append:
  "1 \<le> maxlen \<Longrightarrow> int (length xs) \<le> maxlen \<Longrightarrow> int (length (deque_append maxlen xs x)) \<le> maxlen"
  by (auto simp: deque_append_def)

lemma census_Cons: "census (ob # obs) b = (if covers_block b ob then 1 else 0) + census obs b"
  by (simp add: census_def)

lemma census_snoc: "census (obs @ [ob]) b = census obs b + (if covers_block b ob then 1 else 0)"
  by (simp add: census_def)

lemma retire_entry:
  assumes "\<And>b. an_written_blocks a b = entry_of_count (census (ob # obs) b)"
  shows "an_written_blocks (retire ob a) b = entry_of_count (census obs b)"
  using retire_blocks_entry [where bl = "block_range (ob_lba ob) (ob_blocks ob)" and b = b, OF distinct_block_range assms] assms [of b]
  by (auto simp: retire_def census_Cons covers_block_def set_block_range)

lemma retire_frame [simp]:
  "an_window (retire ob a) = an_window a" "an_config (retire ob a) = an_config a"
  "an_recent_reads (retire ob a) = an_recent_reads a" "an_last_write_end (retire ob a) = an_last_write_end a"
  by (simp_all add: retire_def)

text \<open>The window without the observation that is about to leave it.\<close>

definition kept :: "analyzer \<Rightarrow> observation list" where
  "kept a = (if int (length (an_window a)) < window_operations (an_config a) then an_window a else tl (an_window a))"

lemma kept_entry:
  assumes "analyzer_inv a"
  shows "an_written_blocks (if int (length (an_window a)) = window_operations (an_config a) then retire (hd (an_window a)) a else a) b
    = entry_of_count (census (kept a) b)"
proof (cases "int (length (an_window a)) = window_operations (an_config a)")
  case True
  then obtain ob obs where w: "an_window a = ob # obs"
    using assms by (cases "an_window a") (auto simp: analyzer_inv_def)
  then show ?thesis
    using True retire_entry [of a ob obs b] assms by (simp add: kept_def analyzer_inv_def)
qed (use assms in \<open>auto simp: kept_def analyzer_inv_def\<close>)

lemma record_observation_inv:
  assumes inv: "analyzer_inv a" and ent: "0 \<le> entropy" "entropy \<le> 8" and ch: "0 \<le> wf_change w" "wf_change w \<le> 1"
    and bl: "ev_kind ev = WRITE \<Longrightarrow> 0 \<le> ev_blocks ev"
  shows "analyzer_inv (record_observation ev entropy w a)"
proof -
  define ob where "ob = \<lparr>ob_kind = ev_kind ev, ob_lba = ev_lba ev, ob_blocks = ev_blocks ev, ob_entropy = entropy,
      ob_high_entropy = (high_entropy_bits_per_byte (an_config a) \<le> entropy), ob_overwrite = wf_overwrite w,
      ob_changed_fraction = wf_change w, ob_sequential = wf_sequential w,
      ob_read_before_write = wf_read_before_write w, ob_destructive = (ev_kind ev = ADMIN \<or> ev_kind ev = DEALLOCATE)\<rparr>"
  define a1 where "a1 = (if int (length (an_window a)) = window_operations (an_config a) then retire (hd (an_window a)) a else a)"
  let ?r = "record_observation ev entropy w a"
  have frame: "an_window a1 = an_window a" "an_config a1 = an_config a" "an_recent_reads a1 = an_recent_reads a"
    by (simp_all add: a1_def)
  have win: "an_window ?r = kept a @ [ob]" "an_config ?r = an_config a" "an_recent_reads ?r = an_recent_reads a"
    using frame by (simp_all add: record_observation_def a1_def [symmetric] ob_def Let_def deque_append_def kept_def)
  have wr: "an_written_blocks ?r =
      (if ev_kind ev = WRITE then count_blocks (an_written_blocks a1) (block_range (ev_lba ev) (ev_blocks ev))
       else an_written_blocks a1)"
    by (simp add: record_observation_def a1_def [symmetric] Let_def)
  have "an_written_blocks ?r b = entry_of_count (census (kept a @ [ob]) b)" for b
    using count_blocks_entry [where bl = "block_range (ev_lba ev) (ev_blocks ev)" and b = b,
        OF distinct_block_range kept_entry [OF inv], folded a1_def]
      kept_entry [OF inv, folded a1_def, of b]
    by (auto simp: wr census_snoc covers_block_def ob_def set_block_range)
  moreover have "observation_ok ob"
    using ent ch bl by (simp add: observation_ok_def ob_def)
  moreover have "list_all observation_ok (kept a)"
    using inv by (cases "an_window a") (auto simp: kept_def analyzer_inv_def)
  moreover have "int (length (kept a @ [ob])) \<le> window_operations (an_config a)"
    using inv by (auto simp: kept_def analyzer_inv_def)
  ultimately show ?thesis
    using inv unfolding analyzer_inv_def win by simp
qed

lemma write_facts_change: "write_facts_of a ev before = Inr w \<Longrightarrow> 0 \<le> wf_change w \<and> wf_change w \<le> 1"
  by (auto simp: write_facts_of_def Let_def bind_res_Inr_conv split: option.splits dest: changed_byte_fraction_bounds)

lemma analyzer_inv_frame:
  assumes "analyzer_inv a"
  shows "analyzer_inv (a\<lparr>an_last_write_end := x\<rparr>)"
    "analyzer_inv (a\<lparr>an_recent_reads := deque_append (window_operations (an_config a)) (an_recent_reads a) y\<rparr>)"
  using assms length_deque_append [of "window_operations (an_config a)" "an_recent_reads a" y] by (simp_all add: analyzer_inv_def)

lemma observe_inv:
  assumes "analyzer_inv a" "ev_kind ev = WRITE \<Longrightarrow> 0 \<le> ev_blocks ev"
  shows "analyzer_inv (snd (observe ev before a))"
proof -
  note r = record_observation_inv [OF _ _ _ _ _ assms(2)]
  show ?thesis
    using assms(1) shannon_entropy_bounds [of "ev_payload ev"] analyzer_inv_frame [OF assms(1)]
    by (auto simp: observe_def Let_def no_facts_def split: sum.splits dest!: write_facts_change intro!: r)
qed

section \<open>Features are fractions\<close>

definition features_ok :: "feature_vector \<Rightarrow> bool" where
  "features_ok f \<longleftrightarrow>
     list_all (\<lambda>x. 0 \<le> x \<and> x \<le> 1)
       [write_fraction f, high_entropy_write_fraction f, overwrite_fraction f, fv_changed_byte_fraction f,
        unique_write_fraction f, namespace_coverage_fraction f, sequential_write_fraction f,
        read_before_write_fraction f, deallocate_fraction f] \<and>
     0 \<le> mean_write_entropy f \<and> mean_write_entropy f \<le> 8"

lemma ratio_bounds: "0 \<le> x \<Longrightarrow> x \<le> k * y \<Longrightarrow> 0 \<le> y \<Longrightarrow> 0 \<le> ratio x y \<and> (0 \<le> k \<longrightarrow> ratio x y \<le> k)"
  by (auto simp: ratio_def divide_le_eq)

lemma ratio_tally: "0 \<le> ratio (tally P obs) (real (length obs)) \<and> ratio (tally P obs) (real (length obs)) \<le> 1"
  using ratio_bounds [of "tally P obs" 1 "real (length obs)"] by (simp add: tally_def)

lemma sum_list_bounds:
  fixes f :: "'a \<Rightarrow> real"
  shows "(\<And>x. x \<in> set xs \<Longrightarrow> 0 \<le> f x \<and> f x \<le> k) \<Longrightarrow>
    0 \<le> sum_list (map f xs) \<and> sum_list (map f xs) \<le> k * real (length xs)"
proof (induction xs)
  case (Cons x xs)
  then have "0 \<le> f x \<and> f x \<le> k" "0 \<le> sum_list (map f xs) \<and> sum_list (map f xs) \<le> k * real (length xs)" by auto
  then show ?case by (simp add: distrib_left)
qed simp

lemma ratio_mean:
  assumes "\<And>x. x \<in> set xs \<Longrightarrow> 0 \<le> f x \<and> f x \<le> k" "0 \<le> (k :: real)"
  shows "0 \<le> ratio (sum_list (map f xs)) (real (length xs)) \<and> ratio (sum_list (map f xs)) (real (length xs)) \<le> k"
proof -
  have "0 \<le> sum_list (map f xs) \<and> sum_list (map f xs) \<le> k * real (length xs)"
    using assms(1) by (rule sum_list_bounds)
  then show ?thesis using ratio_bounds [of "sum_list (map f xs)" k "real (length xs)"] assms(2) by simp
qed

lemma unique_blocks_le:
  assumes "\<And>ob. ob \<in> set obs \<Longrightarrow> 0 \<le> ob_blocks ob"
  shows "int (length (remdups (concat (map (\<lambda>ob. block_range (ob_lba ob) (ob_blocks ob)) obs)))) \<le> sum_list (map ob_blocks obs)"
proof -
  have "int (length (concat (map (\<lambda>ob. block_range (ob_lba ob) (ob_blocks ob)) obs))) = sum_list (map ob_blocks obs)"
    using assms by (induction obs) (simp_all add: length_block_range)
  then show ?thesis
    using length_remdups_leq [of "concat (map (\<lambda>ob. block_range (ob_lba ob) (ob_blocks ob)) obs)"] by linarith
qed

lemma snapshot_features_ok:
  assumes "analyzer_inv a"
  shows "features_ok (snapshot_features a)"
proof -
  define items writes where "items = an_window a" and "writes = filter (\<lambda>ob. ob_kind ob = WRITE) items"
  define u where "u = remdups (concat (map (\<lambda>ob. block_range (ob_lba ob) (ob_blocks ob)) writes))"
  have ok: "\<And>ob. ob \<in> set items \<Longrightarrow> observation_ok ob" and nb: "1 \<le> namespace_blocks (an_config a)"
    using assms by (auto simp: analyzer_inv_def list_all_iff items_def)
  have w: "0 \<le> ob_blocks ob" "0 \<le> ob_entropy ob \<and> ob_entropy ob \<le> 8" "0 \<le> ob_changed_fraction ob \<and> ob_changed_fraction ob \<le> 1"
    if "ob \<in> set writes" for ob
    using that ok by (auto simp: writes_def observation_ok_def)
  have u: "real (length u) \<le> of_int (sum_list (map ob_blocks writes))"
    using unique_blocks_le [of writes] w(1) unfolding u_def by (metis of_int_le_iff of_int_of_nat_eq)
  then have "0 \<le> (of_int (sum_list (map ob_blocks writes)) :: real)" by linarith
  then have uniq: "0 \<le> ratio (real (length u)) (of_int (sum_list (map ob_blocks writes))) \<and>
      ratio (real (length u)) (of_int (sum_list (map ob_blocks writes))) \<le> 1"
    using ratio_bounds [of "real (length u)" 1 "of_int (sum_list (map ob_blocks writes))"] u by simp
  have cov: "0 \<le> min 1 (ratio (real (length u)) (of_int (namespace_blocks (an_config a))))"
    using nb by (simp add: ratio_def)
  have wf: "0 \<le> ratio (real (length writes)) (real (length items)) \<and> ratio (real (length writes)) (real (length items)) \<le> 1"
    using ratio_tally [of "\<lambda>ob. ob_kind ob = WRITE" items] by (simp add: tally_def writes_def)
  show ?thesis
    unfolding features_ok_def snapshot_features_def Let_def items_def [symmetric] writes_def [symmetric] u_def [symmetric]
    using wf uniq cov ratio_tally [of _ writes] ratio_tally [of _ items]
      ratio_mean [of writes ob_entropy 8, OF w(2)] ratio_mean [of writes ob_changed_fraction 1, OF w(3)]
    by simp
qed

section \<open>Runs of the analyzer\<close>

definition run_events :: "analyzer \<Rightarrow> (io_event \<times> bytes option) list \<Rightarrow> analyzer" where
  "run_events a evs = foldl (\<lambda>a e. snd (observe (fst e) (snd e) a)) a evs"

definition events_ok :: "(io_event \<times> bytes option) list \<Rightarrow> bool" where
  "events_ok evs \<longleftrightarrow> list_all (\<lambda>e. ev_kind (fst e) = WRITE \<longrightarrow> 0 \<le> ev_blocks (fst e)) evs"

lemma run_events_inv:
  assumes "analyzer_inv a" "events_ok evs"
  shows "analyzer_inv (run_events a evs)"
  using assms unfolding run_events_def events_ok_def
  by (induction evs arbitrary: a) (auto intro: observe_inv)

lemma observe_features: "fst (observe ev before a) = Inr f \<Longrightarrow> f = snapshot_features (snd (observe ev before a))"
  by (auto simp: observe_def Let_def split: if_splits sum.splits)


text \<open>A run to state examples on: two overlapping writes and a read.\<close>

definition sample_events :: "(io_event \<times> bytes option) list" where
  "sample_events =
     [(\<lparr>ev_kind = WRITE, ev_lba = 1, ev_blocks = 2, ev_payload = [1, 2], ev_timestamp_ns = 0, ev_opcode = None\<rparr>, Some [0, 2]),
      (\<lparr>ev_kind = READ, ev_lba = 0, ev_blocks = 4, ev_payload = [], ev_timestamp_ns = 0, ev_opcode = None\<rparr>, None),
      (\<lparr>ev_kind = WRITE, ev_lba = 2, ev_blocks = 2, ev_payload = [7, 7], ev_timestamp_ns = 0, ev_opcode = None\<rparr>, None)]"

definition sample_analyzer :: analyzer where
  "sample_analyzer = \<lparr>an_config = default_config 8, an_window = [], an_written_blocks = Map.empty, an_recent_reads = [],
     an_last_write_end = None\<rparr>"

lemma sample_analyzer_new: "new_analyzer (default_config 8) = Inr sample_analyzer"
  by (simp add: new_analyzer_def default_config_def sample_analyzer_def)



text \<open>
  Every feature vector an analyzer returns, at any point of any run, has all its fractions
  between 0 and 1 and a mean entropy between 0 and 8 bits.
\<close>

theorem analyzer_features_bounded:
  assumes "new_analyzer config = Inr a" "events_ok (evs @ [(ev, before)])"
    and "fst (observe ev before (run_events a evs)) = Inr f"
  shows "features_ok f"
proof -
  have "analyzer_inv (run_events a (evs @ [(ev, before)]))"
    using run_events_inv [OF new_analyzer_inv [OF assms(1)] assms(2)] .
  then have "analyzer_inv (snd (observe ev before (run_events a evs)))"
    by (simp add: run_events_def)
  then show ?thesis
    using observe_features [OF assms(3)] snapshot_features_ok by simp
qed

theorem analyzer_features_bounded_witness:
  "features_ok (snapshot_features (snd (observe (fst (last sample_events)) (snd (last sample_events))
     (run_events sample_analyzer (butlast sample_events)))))"
proof (rule analyzer_features_bounded [OF sample_analyzer_new])
  show "events_ok (butlast sample_events @ [(fst (last sample_events), snd (last sample_events))])"
    by (simp add: sample_events_def events_ok_def)
  show "fst (observe (fst (last sample_events)) (snd (last sample_events)) (run_events sample_analyzer (butlast sample_events))) =
    Inr (snapshot_features (snd (observe (fst (last sample_events)) (snd (last sample_events))
     (run_events sample_analyzer (butlast sample_events)))))"
    by (simp add: observe_def sample_events_def write_facts_of_def Let_def)
qed

end
