(* ===== verification/Policy.thy ===== *)
theory Policy
  imports Features
begin

text \<open>
  The detection policy (\<^verbatim>\<open>aegis_shield/core/policy.py\<close>): a weighted mean of eight components of a feature
  vector against two thresholds. The lemmas bound the score, relate the two verdicts and
  say what the shipped weights can and cannot do on the vectors the analyzer produces.
\<close>

section \<open>Definitions\<close>

record policy_config =
  minimum_operations :: int
  alert_threshold :: real
  containment_threshold :: real
  containment_enabled :: bool
  weights :: "(string \<times> real) list"

definition clamp :: "real \<Rightarrow> real" where
  "clamp x = max 0 (min 1 x)"

definition default_weights :: "(string \<times> real) list" where
  "default_weights =
     [(''entropy'', 10 / 100), (''high_entropy'', 10 / 100), (''changed'', 10 / 100), (''read_before_write'', 24 / 100),
      (''overwrite'', 18 / 100), (''coverage'', 16 / 100), (''write_fraction'', 6 / 100), (''deallocate'', 6 / 100)]"

definition default_policy :: policy_config where
  "default_policy = \<lparr>minimum_operations = 16, alert_threshold = 72 / 100, containment_threshold = 82 / 100,
     containment_enabled = True, weights = default_weights\<rparr>"

definition synthetic_demo :: policy_config where
  "synthetic_demo = \<lparr>minimum_operations = 8, alert_threshold = 45 / 100, containment_threshold = 60 / 100,
     containment_enabled = True, weights = default_weights\<rparr>"

definition allowed_weights :: "string list" where
  "allowed_weights = [''entropy'', ''high_entropy'', ''overwrite'', ''changed'', ''coverage'', ''read_before_write'',
     ''write_fraction'', ''deallocate'']"

text \<open>\<open>Policy.__init__\<close>; a policy object is its validated configuration.\<close>

definition new_policy :: "policy_config option \<Rightarrow> policy_config res" where
  "new_policy config =
     (let cfg = (case config of None \<Rightarrow> default_policy | Some c \<Rightarrow> c) in
      if \<not> list_all (\<lambda>(name, _). name \<in> set allowed_weights) (weights cfg) then Inl (ValueError ''unknown policy weights'')
      else if \<not> (0 \<le> alert_threshold cfg \<and> alert_threshold cfg \<le> containment_threshold cfg \<and> containment_threshold cfg \<le> 1)
      then Inl (ValueError ''thresholds must satisfy 0 <= alert <= containment <= 1'')
      else if list_ex (\<lambda>(_, weight). weight < 0) (weights cfg) then Inl (ValueError ''weights must be non-negative'')
      else Inr cfg)"

definition components :: "feature_vector \<Rightarrow> (string \<times> real) list" where
  "components f =
     [(''entropy'', clamp ((mean_write_entropy f - 6) / 2)),
      (''high_entropy'', high_entropy_write_fraction f),
      (''overwrite'', overwrite_fraction f),
      (''changed'', fv_changed_byte_fraction f),
      (''coverage'', clamp (namespace_coverage_fraction f * 20)),
      (''read_before_write'', read_before_write_fraction f),
      (''write_fraction'', write_fraction f),
      (''deallocate'', clamp (deallocate_fraction f * 10))]"

definition component :: "feature_vector \<Rightarrow> string \<Rightarrow> real" where
  "component f name = (case map_of (components f) name of None \<Rightarrow> 0 | Some x \<Rightarrow> x)"

definition total_weight :: "(string \<times> real) list \<Rightarrow> real" where
  "total_weight ws = (let s = sum_list (map snd ws) in if s = 0 then 1 else s)"

definition weighted_score :: "policy_config \<Rightarrow> feature_vector \<Rightarrow> real" where
  "weighted_score cfg f =
     sum_list (map (\<lambda>(name, weight). component f name * weight) (weights cfg)) / total_weight (weights cfg)"

definition strong_signals :: "feature_vector \<Rightarrow> string list" where
  "strong_signals f =
     (let names = map fst (filter (\<lambda>(_, value). 75 / 100 \<le> value) (sort_key fst (components f)))
      in if names = [] then [''combined weak signals''] else names)"

definition evaluate :: "policy_config \<Rightarrow> feature_vector \<Rightarrow> decision" where
  "evaluate cfg f =
     (if destructive_command_seen f
      then \<lparr>score = 1, alert = True, contain = containment_enabled cfg, reasons = [''destructive command''], features = f\<rparr>
      else if int (operations f) < minimum_operations cfg
      then \<lparr>score = 0, alert = False, contain = False, reasons = [''insufficient window''], features = f\<rparr>
      else (let s = weighted_score cfg f
            in \<lparr>score = s, alert = (alert_threshold cfg \<le> s),
                contain = (containment_enabled cfg \<and> containment_threshold cfg \<le> s),
                reasons = strong_signals f, features = f\<rparr>))"

section \<open>The score\<close>

lemma clamp_bounds: "0 \<le> clamp x" "clamp x \<le> 1"
  by (simp_all add: clamp_def)

lemma clamp_mono: "x \<le> y \<Longrightarrow> clamp x \<le> clamp y"
  by (simp add: clamp_def)

lemma map_of_components [simp]:
  "component f ''entropy'' = clamp ((mean_write_entropy f - 6) / 2)"
  "component f ''high_entropy'' = high_entropy_write_fraction f"
  "component f ''overwrite'' = overwrite_fraction f"
  "component f ''changed'' = fv_changed_byte_fraction f"
  "component f ''coverage'' = clamp (namespace_coverage_fraction f * 20)"
  "component f ''read_before_write'' = read_before_write_fraction f"
  "component f ''write_fraction'' = write_fraction f"
  "component f ''deallocate'' = clamp (deallocate_fraction f * 10)"
  by (simp_all add: component_def components_def)

lemma component_bounds:
  assumes "features_ok f"
  shows "0 \<le> component f name" "component f name \<le> 1"
  using assms clamp_bounds by (auto simp: component_def components_def features_ok_def)

lemma total_weight_pos: "list_all (\<lambda>(_, w). 0 \<le> w) ws \<Longrightarrow> 0 < total_weight ws"
proof -
  assume "list_all (\<lambda>(_, w). 0 \<le> w) ws"
  then have "0 \<le> sum_list (map snd ws)"
    by (intro sum_list_nonneg) (auto simp: list_all_iff)
  then show ?thesis by (auto simp: total_weight_def Let_def)
qed

lemma sum_weighted_mono:
  fixes g h :: "string \<Rightarrow> real"
  assumes "list_all (\<lambda>(_, w). 0 \<le> w) ws" "\<And>n. g n \<le> h n"
  shows "sum_list (map (\<lambda>(n, w). g n * w) ws) \<le> sum_list (map (\<lambda>(n, w). h n * w) ws)"
  using assms(1) by (induction ws) (auto intro!: add_mono mult_right_mono assms(2))

lemma weighted_score_bounds:
  assumes "features_ok f" "list_all (\<lambda>(_, w). 0 \<le> w) (weights cfg)"
  shows "0 \<le> weighted_score cfg f" "weighted_score cfg f \<le> 1"
proof -
  let ?s = "sum_list (map (\<lambda>(name, weight). component f name * weight) (weights cfg))"
  have sums: "sum_list (map (\<lambda>(n, w). c * w) ws) = c * sum_list (map snd ws)" for c :: real and ws :: "(string \<times> real) list"
    by (induction ws) (auto simp: distrib_left)
  have "0 \<le> ?s"
    using assms(2) component_bounds(1) [OF assms(1)] by (intro sum_list_nonneg) (auto simp: list_all_iff)
  moreover have "?s \<le> sum_list (map snd (weights cfg))"
    using sum_weighted_mono [OF assms(2), of "component f" "\<lambda>_. 1"] component_bounds [OF assms(1)] sums [of 1] by simp
  moreover have "sum_list (map snd (weights cfg)) \<le> total_weight (weights cfg)"
    by (simp add: total_weight_def Let_def)
  ultimately show "0 \<le> weighted_score cfg f" "weighted_score cfg f \<le> 1"
    using total_weight_pos [OF assms(2)] by (simp_all add: weighted_score_def)
qed

lemma new_policy_facts:
  assumes "new_policy config = Inr cfg"
  shows "list_all (\<lambda>(_, w). 0 \<le> w) (weights cfg)" "0 \<le> alert_threshold cfg"
    "alert_threshold cfg \<le> containment_threshold cfg" "containment_threshold cfg \<le> 1"
  using assms by (auto simp: new_policy_def Let_def list_ex_iff list_all_iff split: if_splits)

lemma default_policy_new: "new_policy None = Inr default_policy"
  by (simp add: new_policy_def default_policy_def default_weights_def allowed_weights_def)

lemma default_score:
  "weighted_score default_policy f =
     10 / 100 * component f ''entropy'' + 10 / 100 * component f ''high_entropy'' + 10 / 100 * component f ''changed''
     + 24 / 100 * component f ''read_before_write'' + 18 / 100 * component f ''overwrite'' + 16 / 100 * component f ''coverage''
     + 6 / 100 * component f ''write_fraction'' + 6 / 100 * component f ''deallocate''"
  by (simp add: weighted_score_def default_policy_def default_weights_def total_weight_def Let_def del: map_of_components)

section \<open>Properties\<close>


text \<open>A vector to state examples on: encryption in place across the namespace.\<close>

definition sweep_features :: feature_vector where
  "sweep_features = \<lparr>operations = 128, write_fraction = 1 / 2, mean_write_entropy = 79 / 10,
     high_entropy_write_fraction = 1, overwrite_fraction = 1, fv_changed_byte_fraction = 99 / 100,
     unique_write_fraction = 1, namespace_coverage_fraction = 1 / 8, sequential_write_fraction = 0,
     read_before_write_fraction = 1, deallocate_fraction = 0, destructive_command_seen = False\<rparr>"

lemma sweep_features_ok: "features_ok sweep_features"
  by (simp add: features_ok_def sweep_features_def)


text \<open>One vector is nowhere above another in what the score uses.\<close>

definition weaker :: "feature_vector \<Rightarrow> feature_vector \<Rightarrow> bool" where
  "weaker f g \<longleftrightarrow>
     mean_write_entropy f \<le> mean_write_entropy g \<and> high_entropy_write_fraction f \<le> high_entropy_write_fraction g \<and>
     overwrite_fraction f \<le> overwrite_fraction g \<and> fv_changed_byte_fraction f \<le> fv_changed_byte_fraction g \<and>
     namespace_coverage_fraction f \<le> namespace_coverage_fraction g \<and>
     read_before_write_fraction f \<le> read_before_write_fraction g \<and> write_fraction f \<le> write_fraction g \<and>
     deallocate_fraction f \<le> deallocate_fraction g"

lemma component_other: "name \<notin> set allowed_weights \<Longrightarrow> component f name = 0"
  by (simp add: component_def components_def allowed_weights_def)

lemma weaker_component: "weaker f g \<Longrightarrow> component f name \<le> component g name"
proof (cases "name \<in> set allowed_weights")
  case True
  assume "weaker f g"
  then show ?thesis
    using True unfolding allowed_weights_def list.set insert_iff empty_iff by (elim disjE) (simp_all add: weaker_def clamp_mono)
qed (simp add: component_other)

lemma weighted_score_mono:
  assumes "list_all (\<lambda>(_, w). 0 \<le> w) (weights cfg)" "weaker f g"
  shows "weighted_score cfg f \<le> weighted_score cfg g"
  using sum_weighted_mono [OF assms(1) weaker_component [OF assms(2)]] total_weight_pos [OF assms(1)]
  by (simp add: weighted_score_def divide_right_mono)

text \<open>
  The policy is monotone: if no component of a vector is below that of another and neither
  has seen a destructive command, the stronger one does not score lower, and whatever verdict
  the weaker one gets the stronger one gets too.
\<close>

theorem policy_monotone:
  assumes "new_policy config = Inr cfg" "weaker f g" "operations f \<le> operations g"
    and "features_ok g" "\<not> destructive_command_seen f" "\<not> destructive_command_seen g"
  shows "score (evaluate cfg f) \<le> score (evaluate cfg g) \<and>
    (alert (evaluate cfg f) \<longrightarrow> alert (evaluate cfg g)) \<and> (contain (evaluate cfg f) \<longrightarrow> contain (evaluate cfg g))"
  using new_policy_facts [OF assms(1)] weighted_score_mono [OF new_policy_facts(1) [OF assms(1)] assms(2)]
    weighted_score_bounds(1) [OF assms(4) new_policy_facts(1) [OF assms(1)]] assms(3,5,6)
  by (auto simp: evaluate_def Let_def)

theorem policy_monotone_witness:
  "score (evaluate default_policy (sweep_features\<lparr>overwrite_fraction := 0\<rparr>)) \<le> score (evaluate default_policy sweep_features)"
proof -
  have "weaker (sweep_features\<lparr>overwrite_fraction := 0\<rparr>) sweep_features"
    "operations (sweep_features\<lparr>overwrite_fraction := 0\<rparr>) \<le> operations sweep_features"
    "\<not> destructive_command_seen (sweep_features\<lparr>overwrite_fraction := 0\<rparr>)" "\<not> destructive_command_seen sweep_features"
    by (simp_all add: weaker_def sweep_features_def)
  then show ?thesis
    using policy_monotone [OF default_policy_new _ _ sweep_features_ok] by blast
qed

text \<open>
  What the shipped weights decide. Writes that replace nothing and follow no read are never
  alerted, however random their content; in-place encryption of what was read before, over a
  twentieth of the namespace or more, is contained.
\<close>

theorem policy_discriminates:
  assumes "features_ok f" "\<not> destructive_command_seen f" "16 \<le> operations f"
  shows "(overwrite_fraction f = 0 \<and> read_before_write_fraction f = 0 \<longrightarrow> \<not> alert (evaluate default_policy f)) \<and>
    (79 / 10 \<le> mean_write_entropy f \<and> high_entropy_write_fraction f = 1 \<and> 95 / 100 \<le> fv_changed_byte_fraction f \<and>
     overwrite_fraction f = 1 \<and> 9 / 10 \<le> read_before_write_fraction f \<and> 1 / 20 \<le> namespace_coverage_fraction f \<and>
     4 / 10 \<le> write_fraction f \<longrightarrow> contain (evaluate default_policy f))"
proof -
  have b: "component f n \<le> 1" "0 \<le> component f n" for n using component_bounds [OF assms(1)] by auto
  have ev: "alert (evaluate default_policy f) = (72 / 100 \<le> weighted_score default_policy f)"
    "contain (evaluate default_policy f) = (82 / 100 \<le> weighted_score default_policy f)"
    using assms(2,3) by (simp_all add: evaluate_def Let_def) (simp_all add: default_policy_def)
  have "weighted_score default_policy f \<le> 58 / 100" if "overwrite_fraction f = 0" "read_before_write_fraction f = 0"
    using that b(1) [of "''entropy''"] b(1) [of "''high_entropy''"] b(1) [of "''changed''"] b(1) [of "''coverage''"]
      b(1) [of "''write_fraction''"] b(1) [of "''deallocate''"]
    unfolding default_score by simp
  moreover have "82 / 100 \<le> weighted_score default_policy f"
    if "79 / 10 \<le> mean_write_entropy f" "high_entropy_write_fraction f = 1" "95 / 100 \<le> fv_changed_byte_fraction f"
      "overwrite_fraction f = 1" "9 / 10 \<le> read_before_write_fraction f" "1 / 20 \<le> namespace_coverage_fraction f"
      "4 / 10 \<le> write_fraction f"
  proof -
    have "95 / 100 \<le> component f ''entropy''" "component f ''coverage'' = 1"
      using that by (simp_all add: clamp_def)
    then show ?thesis
      using that b(2) [of "''deallocate''"] unfolding default_score by simp
  qed
  ultimately show ?thesis unfolding ev by auto
qed

theorem policy_discriminates_witness:
  "contain (evaluate default_policy sweep_features)"
  using policy_discriminates [OF sweep_features_ok] by (simp add: sweep_features_def)

lemma destructive_iff:
  assumes "analyzer_inv a"
  shows "destructive_command_seen (snapshot_features a) \<longleftrightarrow>
    (\<exists>ob \<in> set (an_window a). ob_kind ob = ADMIN \<or> ob_kind ob = DEALLOCATE)"
  using assms by (auto simp: snapshot_features_def Let_def list_ex_iff analyzer_inv_def list_all_iff observation_ok_def)

text \<open>
  The weight of deallocation never acts. A deallocation in the window already counts as a
  destructive command: the shipped policy gives it score 1 and contains, with no other evidence;
  otherwise the deallocate fraction is 0 and the score stays at or below 0.94.
\<close>

theorem policy_deallocate_weight_dead:
  assumes "new_analyzer config = Inr a" "events_ok evs"
  shows "if \<exists>ob \<in> set (an_window (run_events a evs)). ob_kind ob = DEALLOCATE
    then score (evaluate default_policy (snapshot_features (run_events a evs))) = 1 \<and>
         contain (evaluate default_policy (snapshot_features (run_events a evs)))
    else deallocate_fraction (snapshot_features (run_events a evs)) = 0 \<and>
         (\<not> destructive_command_seen (snapshot_features (run_events a evs)) \<longrightarrow>
          score (evaluate default_policy (snapshot_features (run_events a evs))) \<le> 94 / 100)"
proof -
  let ?r = "run_events a evs"
  let ?f = "snapshot_features ?r"
  have inv: "analyzer_inv ?r" using run_events_inv [OF new_analyzer_inv [OF assms(1)] assms(2)] .
  have b: "component ?f n \<le> 1" for n using component_bounds [OF snapshot_features_ok [OF inv]] by auto
  have none: "deallocate_fraction ?f = 0" if "\<not> (\<exists>ob \<in> set (an_window ?r). ob_kind ob = DEALLOCATE)"
  proof -
    have "filter (\<lambda>ob. ob_kind ob = DEALLOCATE) (an_window ?r) = []" using that by (simp add: filter_empty_conv)
    then show ?thesis by (simp add: snapshot_features_def Let_def tally_def ratio_def)
  qed
  have "weighted_score default_policy ?f \<le> 94 / 100" if "deallocate_fraction ?f = 0"
    using that b [of "''entropy''"] b [of "''high_entropy''"] b [of "''changed''"] b [of "''coverage''"]
      b [of "''write_fraction''"] b [of "''overwrite''"] b [of "''read_before_write''"]
    unfolding default_score by (simp add: clamp_def)
  then show ?thesis
    using none destructive_iff [OF inv] by (auto simp: evaluate_def Let_def) (auto simp: default_policy_def)
qed

definition trim_event :: "io_event \<times> bytes option" where
  "trim_event = (\<lparr>ev_kind = DEALLOCATE, ev_lba = 0, ev_blocks = 1, ev_payload = [], ev_timestamp_ns = 0, ev_opcode = None\<rparr>, None)"

theorem policy_deallocate_weight_dead_witness:
  "contain (evaluate default_policy (snapshot_features (run_events sample_analyzer [trim_event])))"
proof -
  have "events_ok [trim_event]" by (simp add: events_ok_def trim_event_def)
  moreover have "\<exists>ob \<in> set (an_window (run_events sample_analyzer [trim_event])). ob_kind ob = DEALLOCATE"
    by (simp add: run_events_def trim_event_def observe_def record_observation_def sample_analyzer_def default_config_def
        deque_append_def Let_def)
  ultimately show ?thesis
    using policy_deallocate_weight_dead [OF sample_analyzer_new, of "[trim_event]"] by simp
qed

end
