(* ===== verification/Tokens.thy ===== *)
theory Tokens
  imports Json_Facts
begin

text \<open>
  Signed authorizations (\<^verbatim>\<open>aegis_shield/core/tokens.py\<close>). Ed25519 is a parameter: \<open>ed_sign\<close> is signing with the
  private key, \<open>ed_verify signature message\<close> the check with the public key. The fields of an
  authorization have the types of the dataclass; a signed payload whose fields have other JSON
  types is refused here with a \<open>TypeError\<close>.
\<close>

section \<open>URL-safe base 64 without padding\<close>

definition url_char :: "char \<Rightarrow> char" where
  "url_char c = (if c = CHR ''+'' then CHR ''-'' else if c = CHR ''/'' then CHR ''_'' else c)"

definition std_char :: "char \<Rightarrow> char" where
  "std_char c = (if c = CHR ''-'' then CHR ''+'' else if c = CHR ''_'' then CHR ''/'' else c)"

definition rstrip_pad :: "string \<Rightarrow> string" where
  "rstrip_pad s = rev (dropWhile (\<lambda>c. c = CHR ''='') (rev s))"

definition b64url_encode :: "bytes \<Rightarrow> string" where
  "b64url_encode data = rstrip_pad (map url_char (b64encode data))"

text \<open>
  \<open>binascii.a2b_base64\<close> in its lenient mode: characters outside the alphabet are skipped, and a
  complete padding ends the data. \<open>q\<close> is the position in the group of four, \<open>l\<close> the bits
  left over, \<open>p\<close> the number of padding characters seen.
\<close>

fun a2b_base64 :: "nat \<Rightarrow> nat \<Rightarrow> nat \<Rightarrow> string \<Rightarrow> bytes option" where
  "a2b_base64 q l p [] = (if q = 0 then Some [] else None)"
| "a2b_base64 q l p (c # s) =
     (if c = CHR ''='' then
        (if 2 \<le> q \<and> 4 \<le> q + Suc p then Some [] else a2b_base64 q l (if 2 \<le> q then Suc p else p) s)
      else (case b64_val c of
          None \<Rightarrow> a2b_base64 q l p s
        | Some v \<Rightarrow>
            if q = 0 then a2b_base64 1 v 0 s
            else if q = 1 then map_option (Cons (of_nat (l * 4 + v div 16))) (a2b_base64 2 (v mod 16) 0 s)
            else if q = 2 then map_option (Cons (of_nat (l * 16 + v div 4))) (a2b_base64 3 (v mod 4) 0 s)
            else map_option (Cons (of_nat (l * 64 + v))) (a2b_base64 0 0 0 s)))"

definition is_ascii :: "string \<Rightarrow> bool" where
  "is_ascii s \<longleftrightarrow> list_all (\<lambda>c. (of_char c :: nat) < 128) s"

definition b64url_decode :: "string \<Rightarrow> bytes option" where
  "b64url_decode s =
     (if is_ascii s
      then a2b_base64 0 0 0 (map std_char (s @ replicate ((4 - length s mod 4) mod 4) (CHR ''='')))
      else None)"

section \<open>Authorizations\<close>

record recovery_authorization =
  ra_action :: string
  ra_device_id :: string
  ra_expires_unix :: int
  ra_issued_unix :: int
  ra_nonce :: string
  ra_state_version :: int
  ra_target_sequence :: "int option"

definition authorization_dict :: "recovery_authorization \<Rightarrow> json dict" where
  "authorization_dict a =
     [(''action'', JStr (ra_action a)), (''device_id'', JStr (ra_device_id a)),
      (''expires_unix'', JInt (ra_expires_unix a)), (''issued_unix'', JInt (ra_issued_unix a)),
      (''nonce'', JStr (ra_nonce a)), (''state_version'', JInt (ra_state_version a)),
      (''target_sequence'', (case ra_target_sequence a of None \<Rightarrow> JNull | Some n \<Rightarrow> JInt n))]"

definition sign_authorization :: "(bytes \<Rightarrow> bytes) \<Rightarrow> recovery_authorization \<Rightarrow> string" where
  "sign_authorization ed_sign a =
     (let encoded = b64url_encode (text_bytes (canonical (JObj (authorization_dict a))));
          signature = b64url_encode (ed_sign (text_bytes encoded))
      in ''aegis1.'' @ encoded @ ''.'' @ signature)"

text \<open>\<open>str.split(".")\<close>.\<close>

fun split_dot :: "string \<Rightarrow> string list" where
  "split_dot [] = [[]]"
| "split_dot (c # s) =
     (if c = CHR ''.'' then [] # split_dot s
      else (case split_dot s of [] \<Rightarrow> [[c]] | p # ps \<Rightarrow> (c # p) # ps))"

definition text_of_bytes :: "bytes \<Rightarrow> string" where
  "text_of_bytes bs = map (\<lambda>b. char_of (unat b)) bs"

fun str_field :: "json option \<Rightarrow> string option" where
  "str_field (Some (JStr s)) = Some s"
| "str_field _ = None"

fun int_field :: "json option \<Rightarrow> int option" where
  "int_field (Some (JInt i)) = Some i"
| "int_field _ = None"

fun opt_int_field :: "json option \<Rightarrow> int option option" where
  "opt_int_field None = Some None"
| "opt_int_field (Some JNull) = Some None"
| "opt_int_field (Some (JInt i)) = Some (Some i)"
| "opt_int_field _ = None"

definition required_fields :: "string list" where
  "required_fields = [''action'', ''device_id'', ''expires_unix'', ''issued_unix'', ''nonce'', ''state_version'']"

text \<open>\<open>RecoveryAuthorization(**value)\<close>: every required field, no unknown one.\<close>

definition authorization_of :: "json dict \<Rightarrow> recovery_authorization res" where
  "authorization_of d =
     (if \<not> (set required_fields \<subseteq> set (keys d) \<and> set (keys d) \<subseteq> insert ''target_sequence'' (set required_fields))
      then Inl (ValueError ''invalid signed authorization'')
      else (case (str_field (map_of d ''action''), str_field (map_of d ''device_id''), int_field (map_of d ''expires_unix''),
                  int_field (map_of d ''issued_unix''), str_field (map_of d ''nonce''), int_field (map_of d ''state_version''),
                  opt_int_field (map_of d ''target_sequence'')) of
              (Some act, Some dev, Some ex, Some iss, Some nonce, Some sv, Some target) \<Rightarrow>
                Inr \<lparr>ra_action = act, ra_device_id = dev, ra_expires_unix = ex, ra_issued_unix = iss, ra_nonce = nonce,
                     ra_state_version = sv, ra_target_sequence = target\<rparr>
            | _ \<Rightarrow> Inl (TypeError ''authorization field'')))"

text \<open>The \<open>try\<close> block of \<open>verify\<close>.\<close>

definition parse_token :: "(bytes \<Rightarrow> bytes \<Rightarrow> bool) \<Rightarrow> string \<Rightarrow> recovery_authorization res" where
  "parse_token ed_verify token =
     (case split_dot token of
        [prefix, encoded, signature] \<Rightarrow>
          if prefix \<noteq> ''aegis1'' then Inl (ValueError ''invalid signed authorization'')
          else (case b64url_decode signature of
              None \<Rightarrow> Inl (ValueError ''invalid signed authorization'')
            | Some sig \<Rightarrow>
                if \<not> is_ascii encoded \<or> \<not> ed_verify sig (text_bytes encoded)
                then Inl (ValueError ''invalid signed authorization'')
                else (case b64url_decode encoded of
                    None \<Rightarrow> Inl (ValueError ''invalid signed authorization'')
                  | Some payload \<Rightarrow>
                      (case json_loads (text_of_bytes payload) of
                         Some (JObj d) \<Rightarrow> authorization_of d
                       | _ \<Rightarrow> Inl (ValueError ''invalid signed authorization''))))
      | _ \<Rightarrow> Inl (ValueError ''invalid signed authorization''))"

definition token_verify ::
  "(bytes \<Rightarrow> bytes \<Rightarrow> bool) \<Rightarrow> string \<Rightarrow> string \<Rightarrow> string \<Rightarrow> int \<Rightarrow> int \<Rightarrow> recovery_authorization res" where
  "token_verify ed_verify token device action state_version current =
     bind_res (parse_token ed_verify token) (\<lambda>a.
       if ra_device_id a \<noteq> device then Inl (ValueError ''token is for another device'')
       else if ra_action a \<noteq> action then Inl (ValueError ''token action mismatch'')
       else if ra_state_version a \<noteq> state_version then Inl (ValueError ''token state version is stale'')
       else if current + 60 < ra_issued_unix a then Inl (ValueError ''token issued in the future'')
       else if ra_expires_unix a < current then Inl (ValueError ''token expired'')
       else if 900 < ra_expires_unix a - ra_issued_unix a then Inl (ValueError ''token lifetime exceeds 15-minute limit'')
       else Inr a)"

section \<open>Decoding what was encoded\<close>

lemma b64_alphabet_val: "c \<in> set b64_alphabet \<Longrightarrow> \<exists>v. b64_val c = Some v"
proof -
  have "c \<in> set xs \<Longrightarrow> \<exists>v. index_in c xs = Some v" for xs
    by (induction xs) auto
  then show "c \<in> set b64_alphabet \<Longrightarrow> \<exists>v. b64_val c = Some v" by (simp add: b64_val_def)
qed

lemma a2b_encode: "a2b_base64 0 0 0 (b64encode bs) = Some bs"
proof (induction bs rule: b64encode.induct)
  case (2 a)
  then show ?case using regroup(4) [where x = "unat a"] by simp
next
  case (3 a b)
  have "unat b div 16 < 16" by (simp add: div_less_iff_less_mult)
  then show ?case using regroup(1,5) [of "unat b" 0 "unat a"] by simp
next
  case (4 a b c r)
  have "unat b div 16 < 16" "unat c div 64 < 4" by (simp_all add: div_less_iff_less_mult)
  then show ?case
    using "4.IH" regroup(1,2) [of "unat b" "unat c" "unat a"] regroup(3) [of "unat b" "unat c"] by simp
qed simp

lemma pad_not_b64_char: "d < 64 \<Longrightarrow> CHR ''='' \<noteq> b64_char d"
  using b64_char_not_pad by metis

lemma b64encode_shape:
  "\<exists>u k. b64encode bs = u @ replicate k (CHR ''='') \<and> CHR ''='' \<notin> set u \<and> k = (4 - length u mod 4) mod 4"
proof (induction bs rule: b64encode.induct)
  case 1
  then show ?case by (intro exI [of _ "[]"]) simp
next
  case (2 a)
  then show ?case
    by (intro exI [of _ "[b64_char (unat a div 4), b64_char (unat a mod 4 * 16)]"] exI [of _ 2]) (simp add: numeral_2_eq_2 pad_not_b64_char)
next
  case (3 a b)
  then show ?case
    by (intro exI [of _ "[b64_char (unat a div 4), b64_char (unat a mod 4 * 16 + unat b div 16), b64_char (unat b mod 16 * 4)]"]
        exI [of _ 1]) (simp add: pad_not_b64_char)
next
  case (4 a b c r)
  then obtain u k where "b64encode r = u @ replicate k (CHR ''='')" "CHR ''='' \<notin> set u" "k = (4 - length u mod 4) mod 4" by blast
  then show ?case
    by (intro exI [of _ "b64_char (unat a div 4) # b64_char (unat a mod 4 * 16 + unat b div 16)
       # b64_char (unat b mod 16 * 4 + unat c div 64) # b64_char (unat c mod 64) # u"] exI [of _ k])
      (simp add: pad_not_b64_char)
qed

lemma std_url_char: "c \<in> insert (CHR ''='') (set b64_alphabet) \<Longrightarrow> std_char (url_char c) = c"
  by (auto simp: std_char_def url_char_def b64_alphabet_def)

lemma url_char_pad: "url_char c = CHR ''='' \<longleftrightarrow> c = CHR ''=''"
  by (simp add: url_char_def)

lemma rstrip_pad_replicate: "CHR ''='' \<notin> set u \<Longrightarrow> rstrip_pad (u @ replicate k (CHR ''='')) = u"
proof -
  assume u: "CHR ''='' \<notin> set u"
  then have "dropWhile (\<lambda>c. c = CHR ''='') (rev u) = rev u"
    by (cases "rev u") (auto simp: dropWhile_eq_self_iff dest: arg_cong [where f = set])
  then show ?thesis by (simp add: rstrip_pad_def dropWhile_append)
qed

definition token_char :: "char \<Rightarrow> bool" where
  "token_char c \<longleftrightarrow> (of_char c :: nat) < 128 \<and> c \<noteq> CHR ''.''"

lemma token_char_alphabet: "list_all token_char b64_alphabet"
  by (simp add: token_char_def b64_alphabet_def)

lemma token_char_url: "token_char c \<Longrightarrow> token_char (url_char c)"
  by (simp add: token_char_def url_char_def)

lemma b64url_encode_chars: "list_all token_char (b64url_encode bs)"
proof -
  have sub: "set (rstrip_pad s) \<subseteq> set s" for s
    unfolding rstrip_pad_def set_rev using set_dropWhileD by fastforce
  have "token_char c" if "c \<in> set (b64encode bs)" for c
    using that b64encode_chars [of bs] token_char_alphabet
    by (cases "c = CHR ''=''") (auto simp: list_all_iff token_char_def)
  then have "list_all token_char (map url_char (b64encode bs))"
    by (simp add: list_all_iff token_char_url)
  then show ?thesis
    unfolding b64url_encode_def list_all_iff using sub [of "map url_char (b64encode bs)"] by blast
qed

lemma b64url_encode_plain: "is_ascii (b64url_encode bs)" "CHR ''.'' \<notin> set (b64url_encode bs)"
  using b64url_encode_chars [of bs] by (auto simp: is_ascii_def list_all_iff token_char_def)

lemma b64url_roundtrip: "b64url_decode (b64url_encode bs) = Some bs"
proof -
  obtain u k where u: "b64encode bs = u @ replicate k (CHR ''='')" "CHR ''='' \<notin> set u" "k = (4 - length u mod 4) mod 4"
    using b64encode_shape by blast
  have enc: "b64url_encode bs = map url_char u"
    using u(2) rstrip_pad_replicate [of "map url_char u" k] by (simp add: b64url_encode_def u(1) url_char_def image_iff split: if_splits)
  have "map std_char (map url_char u @ replicate k (CHR ''='')) = map std_char (map url_char (b64encode bs))"
    by (simp add: u(1) url_char_def)
  also have "\<dots> = b64encode bs"
    using b64encode_chars [of bs] std_url_char by (simp add: map_idI subset_iff)
  finally show ?thesis
    using b64url_encode_plain(1) [of bs] a2b_encode [of bs] u(3) by (simp add: b64url_decode_def enc)
qed

lemma text_of_bytes_text: "text_of_bytes (text_bytes s) = s"
proof -
  have "char_of (unat (of_nat (of_char c) :: byte)) = c" for c :: char
    by (simp add: unsigned_of_nat take_bit_eq_mod)
  then show ?thesis by (simp add: text_of_bytes_def text_bytes_def map_idI)
qed

section \<open>Splitting\<close>

lemma split_dot_plain: "CHR ''.'' \<notin> set s \<Longrightarrow> split_dot s = [s]"
  by (induction s) auto

lemma split_dot_part: "CHR ''.'' \<notin> set s \<Longrightarrow> split_dot (s @ CHR ''.'' # t) = s # split_dot t"
  by (induction s) auto

lemma join_split_dot: "split_dot s = ps \<Longrightarrow> s = join ''.'' ps"
proof (induction s arbitrary: ps)
  case (Cons c s)
  have ne: "split_dot s \<noteq> []" by (cases s) (auto split: list.splits)
  obtain p ps' where s: "split_dot s = p # ps'" using ne by (cases "split_dot s") auto
  show ?case
    using Cons.IH [OF s] Cons.prems s by (cases ps') auto
qed simp

section \<open>Accepting\<close>

lemma authorization_roundtrip:
  "authorization_of (sorted_dict (authorization_dict a)) = Inr a"
proof -
  have dist: "distinct (keys (authorization_dict a))"
    by (simp add: authorization_dict_def)
  have k: "set (keys (sorted_dict (authorization_dict a))) = set (keys (authorization_dict a))"
    by (simp add: sorted_dict_def image_image)
  note look = map_of_sorted_dict [OF dist]
  have keys: "set required_fields \<subseteq> set (keys (authorization_dict a)) \<and>
      set (keys (authorization_dict a)) \<subseteq> insert ''target_sequence'' (set required_fields)"
    by (auto simp: authorization_dict_def required_fields_def)
  show ?thesis
    unfolding authorization_of_def k look using keys
    by (cases "ra_target_sequence a") (simp_all add: authorization_dict_def)
qed

lemma wf_authorization: "wf_json (JObj (authorization_dict a))"
  by (simp add: authorization_dict_def split: option.splits)

lemma parse_signed:
  assumes "\<And>m. ed_verify (ed_sign m) m"
  shows "parse_token ed_verify (sign_authorization ed_sign a) = Inr a"
proof -
  let ?e = "b64url_encode (text_bytes (canonical (JObj (authorization_dict a))))"
  let ?s = "b64url_encode (ed_sign (text_bytes ?e))"
  have "split_dot (''aegis1'' @ CHR ''.'' # ?e @ CHR ''.'' # ?s) = [''aegis1'', ?e, ?s]"
    using split_dot_part [of "''aegis1''"] split_dot_part [of ?e] split_dot_plain [of ?s] b64url_encode_plain(2) by simp
  then have split: "split_dot (sign_authorization ed_sign a) = [''aegis1'', ?e, ?s]"
    by (simp add: sign_authorization_def Let_def)
  have load: "json_loads (canonical (JObj (authorization_dict a))) = Some (JObj (sorted_dict (authorization_dict a)))"
    using loads_dict [OF wf_authorization, of "[]"] by simp
  show ?thesis
    unfolding parse_token_def split
    using assms b64url_encode_plain(1)
    by (simp add: b64url_roundtrip text_of_bytes_text load authorization_roundtrip)
qed

lemma parse_token_Inr:
  assumes "parse_token ed_verify token = Inr a"
  obtains encoded signature sig payload d where
    "split_dot token = [''aegis1'', encoded, signature]" "b64url_decode signature = Some sig"
    "ed_verify sig (text_bytes encoded)" "b64url_decode encoded = Some payload"
    "json_loads (text_of_bytes payload) = Some (JObj d)" "authorization_of d = Inr a"
proof -
  obtain encoded signature where s: "split_dot token = [''aegis1'', encoded, signature]"
    using assms by (auto simp: parse_token_def split: list.splits if_splits)
  obtain sig payload where p: "b64url_decode signature = Some sig" "ed_verify sig (text_bytes encoded)"
    "b64url_decode encoded = Some payload"
    using assms by (auto simp: parse_token_def s split: if_splits option.splits)
  obtain d where "json_loads (text_of_bytes payload) = Some (JObj d)" "authorization_of d = Inr a"
    using assms p by (auto simp: parse_token_def s split: if_splits option.splits json.splits)
  then show thesis using that s p by blast
qed

text \<open>When \<open>verify\<close> accepts.\<close>

definition admissible :: "recovery_authorization \<Rightarrow> string \<Rightarrow> string \<Rightarrow> int \<Rightarrow> int \<Rightarrow> bool" where
  "admissible a device action sv now \<longleftrightarrow>
     ra_device_id a = device \<and> ra_action a = action \<and> ra_state_version a = sv \<and>
     ra_issued_unix a \<le> now + 60 \<and> now \<le> ra_expires_unix a \<and> ra_expires_unix a - ra_issued_unix a \<le> 900"

lemma token_verify_iff:
  "token_verify ed_verify token device action sv now = Inr a \<longleftrightarrow>
     parse_token ed_verify token = Inr a \<and> admissible a device action sv now"
  by (cases "parse_token ed_verify token") (auto simp: token_verify_def admissible_def)

text \<open>
  A token that the key holder signs is accepted, and yields the authorization that was
  signed, exactly when it is for this device, action and state version, is not from the future by
  more than a minute, has not expired and lives at most fifteen minutes. Relies on Ed25519
  accepting its own signatures.
\<close>

theorem token_roundtrip:
  assumes "\<And>m. ed_verify (ed_sign m) m"
  shows "(token_verify ed_verify (sign_authorization ed_sign a) device action sv now = Inr a) =
    (ra_device_id a = device \<and> ra_action a = action \<and> ra_state_version a = sv \<and>
     ra_issued_unix a \<le> now + 60 \<and> now \<le> ra_expires_unix a \<and> ra_expires_unix a - ra_issued_unix a \<le> 900)"
  using parse_signed [where ed_verify = ed_verify and ed_sign = ed_sign and a = a] assms by (simp add: token_verify_iff admissible_def)

text \<open>An authorization to state examples on, and a stand-in signature scheme: the signature is the message.\<close>

definition sample_auth :: recovery_authorization where
  "sample_auth = \<lparr>ra_action = ''enter_maintenance'', ra_device_id = ''dev'', ra_expires_unix = 1500, ra_issued_unix = 1000,
     ra_nonce = ''n1'', ra_state_version = 4, ra_target_sequence = None\<rparr>"

theorem token_roundtrip_witness:
  "token_verify (\<lambda>s m. s = m) (sign_authorization (\<lambda>m. m) sample_auth) ''dev'' ''enter_maintenance'' 4 1200 = Inr sample_auth \<and>
   token_verify (\<lambda>s m. s = m) (sign_authorization (\<lambda>m. m) sample_auth) ''dev'' ''enter_maintenance'' 4 1501 \<noteq> Inr sample_auth"
  using token_roundtrip [of "\<lambda>s m. s = m" "\<lambda>m. m" sample_auth] by (simp add: sample_auth_def)

text \<open>
  Whatever string is accepted is a three-part token whose payload text carries a signature that
  the public key verifies; the authorization is what that payload says, and it meets every condition
  on device, action, version and time.
\<close>

theorem token_accept_sound:
  assumes "token_verify ed_verify token device action sv now = Inr a"
  shows "\<exists>encoded signature sig payload d.
    token = ''aegis1.'' @ encoded @ ''.'' @ signature \<and> b64url_decode signature = Some sig \<and>
    ed_verify sig (text_bytes encoded) \<and> b64url_decode encoded = Some payload \<and>
    json_loads (text_of_bytes payload) = Some (JObj d) \<and> authorization_of d = Inr a \<and>
    ra_device_id a = device \<and> ra_action a = action \<and> ra_state_version a = sv \<and>
    ra_issued_unix a \<le> now + 60 \<and> now \<le> ra_expires_unix a \<and> ra_expires_unix a \<le> ra_issued_unix a + 900"
proof -
  have p: "parse_token ed_verify token = Inr a" "admissible a device action sv now"
    using assms by (simp_all add: token_verify_iff)
  from p(1) obtain encoded signature sig payload d where
    s: "split_dot token = [''aegis1'', encoded, signature]" "b64url_decode signature = Some sig"
    "ed_verify sig (text_bytes encoded)" "b64url_decode encoded = Some payload"
    "json_loads (text_of_bytes payload) = Some (JObj d)" "authorization_of d = Inr a"
    by (rule parse_token_Inr)
  have "token = ''aegis1.'' @ encoded @ ''.'' @ signature"
    using join_split_dot [OF s(1)] by simp
  moreover have "ra_device_id a = device \<and> ra_action a = action \<and> ra_state_version a = sv \<and>
      ra_issued_unix a \<le> now + 60 \<and> now \<le> ra_expires_unix a \<and> ra_expires_unix a \<le> ra_issued_unix a + 900"
    using p(2) by (simp add: admissible_def)
  ultimately show ?thesis using s(2-) by blast
qed

theorem token_accept_sound_witness:
  "\<exists>encoded signature sig payload d.
    sign_authorization (\<lambda>m. m) sample_auth = ''aegis1.'' @ encoded @ ''.'' @ signature \<and> b64url_decode signature = Some sig \<and>
    sig = text_bytes encoded \<and> b64url_decode encoded = Some payload \<and>
    json_loads (text_of_bytes payload) = Some (JObj d) \<and> authorization_of d = Inr sample_auth \<and>
    ra_device_id sample_auth = ''dev'' \<and> ra_action sample_auth = ''enter_maintenance'' \<and> ra_state_version sample_auth = 4 \<and>
    ra_issued_unix sample_auth \<le> 1200 + 60 \<and> 1200 \<le> ra_expires_unix sample_auth \<and>
    ra_expires_unix sample_auth \<le> ra_issued_unix sample_auth + 900"
proof (rule token_accept_sound [where ed_verify = "\<lambda>s m. s = m"])
  show "token_verify (\<lambda>s m. s = m) (sign_authorization (\<lambda>m. m) sample_auth) ''dev'' ''enter_maintenance'' 4 1200 = Inr sample_auth"
    using parse_signed [of "\<lambda>s m. s = m" "\<lambda>m. m" sample_auth] by (simp add: token_verify_iff admissible_def sample_auth_def)
qed

end
