(* ===== verification/Engine.thy ===== *)
theory Engine
  imports Journal_Spec Audit_Spec Policy Tokens
begin

text \<open>
  The engine (\<^verbatim>\<open>aegis_shield/core/engine.py\<close>): the device state machine over the journal, the analyzer, the policy,
  the audit log and the persisted state file. An \<open>AegisEngine\<close> and the files it owns are one
  record; every method is a function from it to a result and the record afterwards. The engine's
  lock makes every method atomic, so concurrent callers are sequences of these functions.

  Parameters: \<open>frepr\<close> is the text \<open>json.dumps\<close> writes for a float, \<open>ed_verify\<close> the Ed25519 check.
  The clock is the one of the audit log.
\<close>

section \<open>State\<close>

text \<open>\<open>containment_sequence\<close> and \<open>recovery_sequence\<close> hold what the state file may hold: null or a number.\<close>

record engine =
  e_journal :: journal
  e_policy :: policy_config
  e_audit :: audit_log
  e_analyzer :: analyzer
  e_state_file :: "string option"
  e_state :: aegis_state
  e_version :: int
  e_containment :: json
  e_recovery :: json
  e_nonces :: "int dict"

definition log_event :: "string \<Rightarrow> json dict \<Rightarrow> engine \<Rightarrow> engine" where
  "log_event ev details e = e\<lparr>e_audit := snd (audit_append ev details (e_audit e))\<rparr>"

text \<open>\<open>time.time_ns()\<close> and \<open>int(time.time())\<close>, each one reading of the clock.\<close>

definition engine_ns :: "engine \<Rightarrow> int" where
  "engine_ns e = time_ns (e_audit e)"

definition engine_seconds :: "engine \<Rightarrow> int" where
  "engine_seconds e = time_ns (e_audit e) div 1000000000"

definition engine_tick :: "engine \<Rightarrow> engine" where
  "engine_tick e = e\<lparr>e_audit := tick (e_audit e)\<rparr>"

section \<open>Persistence\<close>

definition state_payload_text :: "json dict \<Rightarrow> string" where
  "state_payload_text d = dumps_indent2 (JObj d) @ [nl]"

definition state_digest :: "json dict \<Rightarrow> string" where
  "state_digest d = sha256_hex (state_payload_text d)"

definition state_digest_event :: string where
  "state_digest_event = ''state_persisted''"

definition max_token_lifetime :: int where
  "max_token_lifetime = 900"

text \<open>\<open>_prune_nonces\<close> on a loaded value: a dictionary, the legacy list, or anything else.\<close>

fun prune_items :: "json dict \<Rightarrow> int \<Rightarrow> int dict res" where
  "prune_items [] current = Inr []"
| "prune_items ((n, v) # d) current =
     bind_res (py_int v) (\<lambda>expiry. bind_res (prune_items d current) (\<lambda>rest.
       Inr (if current < expiry then (n, expiry) # rest else rest)))"

fun legacy_nonces :: "json list \<Rightarrow> int \<Rightarrow> int dict \<Rightarrow> int dict res" where
  "legacy_nonces [] current acc = Inr acc"
| "legacy_nonces (v # vs) current acc =
     (case py_str v of
        Some n \<Rightarrow> legacy_nonces vs current (AList.update n (current + max_token_lifetime) acc)
      | None \<Rightarrow> Inl (TypeError ''legacy nonce''))"

definition prune_loaded :: "json \<Rightarrow> int \<Rightarrow> int dict res" where
  "prune_loaded v current =
     (case v of
        JObj d \<Rightarrow> prune_items d current
      | JArr vs \<Rightarrow> legacy_nonces vs current []
      | _ \<Rightarrow> Inr [])"

text \<open>\<open>_prune_nonces\<close> on the dictionary the engine holds.\<close>

definition prune_nonces :: "int dict \<Rightarrow> int \<Rightarrow> int dict" where
  "prune_nonces ns current = filter (\<lambda>(_, expiry). current < expiry) ns"

definition state_payload :: "engine \<Rightarrow> json dict" where
  "state_payload e =
     [(''state'', JStr (state_value (e_state e))), (''state_version'', JInt (e_version e)),
      (''containment_sequence'', e_containment e), (''recovery_sequence'', e_recovery e),
      (''used_nonces'', JObj (map (\<lambda>(n, expiry). (n, JInt expiry)) (sort_key fst (e_nonces e))))]"

text \<open>The two halves of \<open>_save_state\<close>: the digest goes to the audit log before the file is replaced.\<close>

definition record_digest :: "engine \<Rightarrow> engine" where
  "record_digest e =
     (let e1 = (engine_tick e)\<lparr>e_nonces := prune_nonces (e_nonces e) (engine_seconds e)\<rparr>
      in log_event state_digest_event [(''digest'', JStr (state_digest (state_payload e1)))] e1)"

definition write_state_file :: "engine \<Rightarrow> engine" where
  "write_state_file e = e\<lparr>e_state_file := Some (state_payload_text (state_payload e))\<rparr>"

definition save_state :: "engine \<Rightarrow> engine" where
  "save_state e = write_state_file (record_digest e)"

text \<open>\<open>_recorded_state_digest\<close>: the digest of the last \<open>state_persisted\<close> entry of the active audit file.\<close>

text \<open>JSON null reads as \<open>None\<close>.\<close>

fun non_null :: "json option \<Rightarrow> json option" where
  "non_null (Some JNull) = None"
| "non_null v = v"

fun scan_digest :: "json option \<Rightarrow> string list \<Rightarrow> json option res" where
  "scan_digest digest [] = Inr digest"
| "scan_digest digest (raw # rest) =
     (if strip raw = [] then scan_digest digest rest
      else (case json_loads raw of
          None \<Rightarrow> Inr None
        | Some (JObj d) \<Rightarrow>
            if map_of d ''event'' = Some (JStr state_digest_event)
            then (case map_of d ''details'' of
                    None \<Rightarrow> scan_digest None rest
                  | Some (JObj dd) \<Rightarrow>
                      scan_digest (non_null (map_of dd ''digest'')) rest
                  | Some _ \<Rightarrow> Inl (AttributeError ''get''))
            else scan_digest digest rest
        | Some _ \<Rightarrow> Inl (AttributeError ''get'')))"

definition recorded_digest :: "string \<Rightarrow> json option res" where
  "recorded_digest audit_text =
     (case verify_text audit_text of
        Inl _ \<Rightarrow> Inr None
      | Inr _ \<Rightarrow> scan_digest None (lines_of audit_text))"

datatype load_result = NoState | Loaded "json dict" | Untrusted string

text \<open>The \<open>try\<close> block of \<open>_load_state\<close>: a dictionary with a known state and an integer version.\<close>

definition readable_state :: "string \<Rightarrow> json dict res" where
  "readable_state raw =
     (case json_loads raw of
        None \<Rightarrow> Inl (ValueError ''JSONDecodeError'')
      | Some (JObj d) \<Rightarrow>
          bind_res (dict_item d ''state'') (\<lambda>s.
          bind_res (case s of JStr v \<Rightarrow> state_of_value v | _ \<Rightarrow> Inl (ValueError ''not a valid AegisState'')) (\<lambda>_.
          bind_res (dict_int d ''state_version'') (\<lambda>_. Inr d)))
      | Some _ \<Rightarrow> Inl (TypeError ''state file is not a dictionary''))"

text \<open>\<open>type(exc).__name__\<close> of the exceptions the block can raise.\<close>

fun exc_name :: "exc \<Rightarrow> string" where
  "exc_name (ValueError m) = (if m = ''JSONDecodeError'' then m else ''ValueError'')"
| "exc_name (KeyError _) = ''KeyError''"
| "exc_name (TypeError _) = ''TypeError''"
| "exc_name (OverflowError _) = ''OverflowError''"
| "exc_name _ = ''Exception''"

definition load_state :: "engine \<Rightarrow> load_result res" where
  "load_state e =
     (case e_state_file e of
        None \<Rightarrow>
          bind_res (recorded_digest (au_text (e_audit e))) (\<lambda>recorded.
            Inr (if recorded \<noteq> None then Untrusted ''state file is missing but the audit log records one'' else NoState))
      | Some raw \<Rightarrow>
          (case readable_state raw of
             Inl x \<Rightarrow> Inr (Untrusted (''state file is unreadable ('' @ exc_name x @ '')''))
           | Inr d \<Rightarrow>
               bind_res (recorded_digest (au_text (e_audit e))) (\<lambda>recorded.
                 Inr (case recorded of
                        None \<Rightarrow>
                          if au_text (e_audit e) = [] then Loaded d
                          else Untrusted ''state file has no matching audit record''
                      | Some r \<Rightarrow>
                          if JStr (state_digest d) \<noteq> r then Untrusted ''state file digest does not match the audit record''
                          else Loaded d))))"

section \<open>State machine\<close>

fun allowed :: "aegis_state \<Rightarrow> aegis_state list" where
  "allowed BOOT_SELFTEST = [NORMAL, PROVISIONING, FAULT]"
| "allowed PROVISIONING = [NORMAL, FAULT]"
| "allowed NORMAL = [ELEVATED, CONTAINED, MAINTENANCE, FAULT]"
| "allowed ELEVATED = [NORMAL, CONTAINED, FAULT]"
| "allowed CONTAINED = [RECOVERY_READ_ONLY, MAINTENANCE, FAULT]"
| "allowed RECOVERY_READ_ONLY = [MAINTENANCE, FAULT]"
| "allowed MAINTENANCE = [NORMAL, FAULT]"
| "allowed FAULT = [MAINTENANCE]"

definition enter_fault :: "string \<Rightarrow> engine \<Rightarrow> engine" where
  "enter_fault reason e =
     (let previous = e_state e;
          e1 = e\<lparr>e_state := FAULT, e_version := e_version e + 1\<rparr>
      in save_state (log_event ''fault_entered''
           [(''from'', JStr (state_value previous)), (''reason'', JStr reason), (''version'', JInt (e_version e1))] e1))"

definition transition :: "aegis_state \<Rightarrow> string \<Rightarrow> (engine, unit) oper" where
  "transition target reason e =
     (if target \<notin> set (allowed (e_state e))
      then (Inl (RuntimeError (''illegal transition '' @ state_value (e_state e) @ '' -> '' @ state_value target)), e)
      else (let previous = e_state e;
                e1 = e\<lparr>e_state := target, e_version := e_version e + 1\<rparr>
            in (Inr (), save_state (log_event ''state_transition''
                 [(''from'', JStr (state_value previous)), (''to'', JStr (state_value target)), (''reason'', JStr reason),
                  (''version'', JInt (e_version e1))] e1))))"

section \<open>Starting\<close>

definition restore :: "json dict \<Rightarrow> (engine, unit) oper" where
  "restore d e =
     (case bind_res (dict_item d ''state'') (\<lambda>s. case s of JStr v \<Rightarrow> state_of_value v | _ \<Rightarrow> Inl (ValueError ''state'')) of
        Inl x \<Rightarrow> (Inl x, e)
      | Inr st \<Rightarrow>
          (case dict_int d ''state_version'' of
             Inl x \<Rightarrow> (Inl x, e\<lparr>e_state := st\<rparr>)
           | Inr v \<Rightarrow>
               (let get = (\<lambda>k. case map_of d k of None \<Rightarrow> JNull | Some x \<Rightarrow> x);
                    e1 = e\<lparr>e_state := st, e_version := v, e_containment := get ''containment_sequence'',
                           e_recovery := get ''recovery_sequence''\<rparr>;
                    e2 = engine_tick e1
                in case prune_loaded (case map_of d ''used_nonces'' of None \<Rightarrow> JObj [] | Some x \<Rightarrow> x) (engine_seconds e1) of
                     Inl x \<Rightarrow> (Inl x, e2)
                   | Inr ns \<Rightarrow>
                       (Inr (), log_event ''engine_restored''
                          [(''state'', JStr (state_value st)), (''state_version'', JInt v),
                           (''containment_sequence'', e_containment e1)] (e2\<lparr>e_nonces := ns\<rparr>)))))"

text \<open>
  \<open>AegisEngine.__init__\<close>, on a record that carries the opened journal, the policy, the audit files with
  the clock, and the state file; the other fields are assigned here.
\<close>

definition boot :: "(engine, unit) oper" where
  "boot e =
     (case open_audit (e_audit e) of
        Inl x \<Rightarrow> (Inl x, e)
      | Inr au \<Rightarrow>
          (case new_analyzer (default_config (blocks (e_journal e))) of
             Inl x \<Rightarrow> (Inl x, e\<lparr>e_audit := au\<rparr>)
           | Inr an \<Rightarrow>
               (let e0 = e\<lparr>e_audit := au, e_analyzer := an, e_state := BOOT_SELFTEST, e_version := 0,
                           e_containment := JNull, e_recovery := JNull, e_nonces := []\<rparr>;
                    e1 = (case recovered_tail (e_journal e) of
                            None \<Rightarrow> e0
                          | Some r \<Rightarrow> log_event ''journal_tail_recovered''
                              [(''bytes_discarded'', JInt (int (tr_bytes_discarded r))), (''reason'', JStr (tr_reason r)),
                               (''preserved_as'', JStr (tr_sidecar r))] e0)
                in case load_state e1 of
                     Inl x \<Rightarrow> (Inl x, e1)
                   | Inr (Untrusted reason) \<Rightarrow> (Inr (), enter_fault (''engine state could not be trusted: '' @ reason) e1)
                   | Inr (Loaded d) \<Rightarrow> restore d e1
                   | Inr NoState \<Rightarrow> transition NORMAL ''self-test complete'' e1)))"

section \<open>I/O\<close>

definition journal_read_at :: "journal \<Rightarrow> int \<Rightarrow> int \<Rightarrow> json \<Rightarrow> bytes res" where
  "journal_read_at j lba n v =
     (case v of
        JNull \<Rightarrow> journal_read j lba n None
      | JInt k \<Rightarrow> journal_read j lba n (Some k)
      | JBool b \<Rightarrow> journal_read j lba n (Some (if b then 1 else 0))
      | _ \<Rightarrow> bind_res (check_range (blocks j) lba n) (\<lambda>_. Inl (TypeError ''at_sequence'')))"

definition io_ev :: "io_kind \<Rightarrow> int \<Rightarrow> int \<Rightarrow> bytes \<Rightarrow> int \<Rightarrow> int option \<Rightarrow> io_event" where
  "io_ev kind lba n payload ts opcode =
     \<lparr>ev_kind = kind, ev_lba = lba, ev_blocks = n, ev_payload = payload, ev_timestamp_ns = ts, ev_opcode = opcode\<rparr>"

definition engine_read :: "int \<Rightarrow> int \<Rightarrow> (engine, bytes) oper" where
  "engine_read lba n e =
     (let sequence = (if e_state e = RECOVERY_READ_ONLY then e_recovery e else JNull);
          ev = io_ev READ lba n [] (engine_ns e) None
      in case observe ev None (e_analyzer e) of
           (Inl x, an) \<Rightarrow> (Inl x, (engine_tick e)\<lparr>e_analyzer := an\<rparr>)
         | (Inr _, an) \<Rightarrow> (journal_read_at (e_journal e) lba n sequence, (engine_tick e)\<lparr>e_analyzer := an\<rparr>))"

definition feature_json :: "(real \<Rightarrow> string) \<Rightarrow> feature_vector \<Rightarrow> json" where
  "feature_json frepr f = JObj
     [(''operations'', JInt (int (operations f))), (''write_fraction'', JFloat (frepr (write_fraction f))),
      (''mean_write_entropy'', JFloat (frepr (mean_write_entropy f))),
      (''high_entropy_write_fraction'', JFloat (frepr (high_entropy_write_fraction f))),
      (''overwrite_fraction'', JFloat (frepr (overwrite_fraction f))),
      (''changed_byte_fraction'', JFloat (frepr (fv_changed_byte_fraction f))),
      (''unique_write_fraction'', JFloat (frepr (unique_write_fraction f))),
      (''namespace_coverage_fraction'', JFloat (frepr (namespace_coverage_fraction f))),
      (''sequential_write_fraction'', JFloat (frepr (sequential_write_fraction f))),
      (''read_before_write_fraction'', JFloat (frepr (read_before_write_fraction f))),
      (''deallocate_fraction'', JFloat (frepr (deallocate_fraction f))),
      (''destructive_command_seen'', JBool (destructive_command_seen f))]"

definition decision_json :: "(real \<Rightarrow> string) \<Rightarrow> decision \<Rightarrow> json" where
  "decision_json frepr d = JObj
     [(''score'', JFloat (frepr (score d))), (''alert'', JBool (alert d)), (''contain'', JBool (contain d)),
      (''reasons'', JArr (map JStr (reasons d))), (''features'', feature_json frepr (features d))]"

text \<open>What \<open>write\<close> does once the data is in the journal.\<close>

definition react :: "decision \<Rightarrow> int \<Rightarrow> (engine, decision) oper" where
  "react d seq e =
     (if contain d
      then bind_op (transition CONTAINED ''policy threshold crossed'') (\<lambda>_. return_op d) (e\<lparr>e_containment := JInt seq\<rparr>)
      else if alert d \<and> e_state e = NORMAL
      then bind_op (transition ELEVATED ''policy alert threshold crossed'') (\<lambda>_. return_op d) e
      else (Inr d, e))"

definition engine_write :: "(real \<Rightarrow> string) \<Rightarrow> int \<Rightarrow> bytes \<Rightarrow> (engine, decision) oper" where
  "engine_write frepr lba payload e =
     (if e_state e \<noteq> NORMAL \<and> e_state e \<noteq> ELEVATED
      then (Inl (PermissionError (''writes prohibited in '' @ state_value (e_state e))), e)
      else if block_size (e_journal e) = 0 then (Inl ZeroDivisionError, e)
      else if int (length payload) mod block_size (e_journal e) \<noteq> 0 then (Inl (ValueError ''payload must be block aligned''), e)
      else (let n = int (length payload) div block_size (e_journal e) in
            case journal_read (e_journal e) lba n None of
              Inl x \<Rightarrow> (Inl x, e)
            | Inr before \<Rightarrow>
                (let ev = io_ev WRITE lba n payload (engine_ns e) None;
                     e0 = engine_tick e
                 in case journal_append lba payload (e_journal e) of
                      (Inl x, j) \<Rightarrow> (Inl x, e0\<lparr>e_journal := j\<rparr>)
                    | (Inr seq, j) \<Rightarrow>
                        (case observe ev (Some before) (e_analyzer e) of
                           (Inl x, an) \<Rightarrow> (Inl x, e0\<lparr>e_journal := j, e_analyzer := an\<rparr>)
                         | (Inr f, an) \<Rightarrow>
                             (let d = evaluate (e_policy e) f;
                                  e1 = log_event ''write_persisted''
                                    [(''lba'', JInt lba), (''blocks'', JInt n), (''sequence'', JInt seq),
                                     (''decision'', decision_json frepr d)] (e0\<lparr>e_journal := j, e_analyzer := an\<rparr>)
                              in react d seq e1)))))"

definition engine_flush :: "(engine, unit) oper" where
  "engine_flush e = (Inr (), log_event ''flush_complete'' [(''sequence'', JInt (last_sequence (e_journal e)))] e)"

definition reject_destructive_command :: "int \<Rightarrow> string \<Rightarrow> (engine, decision) oper" where
  "reject_destructive_command opcode name e =
     (let ev = io_ev ADMIN 0 0 [] (engine_ns e) (Some opcode) in
      case observe ev None (e_analyzer e) of
        (Inl x, an) \<Rightarrow> (Inl x, (engine_tick e)\<lparr>e_analyzer := an\<rparr>)
      | (Inr f, an) \<Rightarrow>
          (let d = evaluate (e_policy e) f;
               e1 = log_event ''destructive_command_rejected'' [(''opcode'', JInt opcode), (''name'', JStr name)]
                      ((engine_tick e)\<lparr>e_analyzer := an\<rparr>)
           in if e_state e1 = NORMAL \<or> e_state e1 = ELEVATED
              then bind_op (transition CONTAINED (''rejected '' @ name)) (\<lambda>_. return_op d)
                     (e1\<lparr>e_containment := JInt (last_sequence (e_journal e1))\<rparr>)
              else (Inr d, e1)))"

section \<open>Authorizations\<close>

text \<open>\<open>repr\<close> of the value of a state.\<close>

definition quoted :: "string \<Rightarrow> string" where
  "quoted s = CHR 0x27 # s @ [CHR 0x27]"

text \<open>\<open>verifier.verify(..., now=now)\<close> as the engine calls it: without \<open>now\<close> the clock is read.\<close>

definition verify_time :: "int option \<Rightarrow> engine \<Rightarrow> int" where
  "verify_time now e = (case now of None \<Rightarrow> engine_seconds e | Some t \<Rightarrow> t)"

definition engine_verify ::
  "(bytes \<Rightarrow> bytes \<Rightarrow> bool) \<Rightarrow> string \<Rightarrow> string \<Rightarrow> int option \<Rightarrow> (engine, recovery_authorization) oper" where
  "engine_verify ed_verify token action now e =
     (let e1 = (case now of None \<Rightarrow> engine_tick e | Some _ \<Rightarrow> e)
      in (token_verify ed_verify token (device_id (e_journal e)) action (e_version e) (verify_time now e), e1))"

definition authorize_recovery ::
  "(bytes \<Rightarrow> bytes \<Rightarrow> bool) \<Rightarrow> string \<Rightarrow> bool \<Rightarrow> int option \<Rightarrow> (engine, unit) oper" where
  "authorize_recovery ed_verify token physical_presence now e =
     (if e_state e \<noteq> CONTAINED
      then (Inl (RuntimeError ''recovery authorization is valid only while contained''), e)
      else if \<not> physical_presence then (Inl (PermissionError ''physical presence input is not asserted''), e)
      else bind_op (engine_verify ed_verify token ''enter_recovery_read_only'' now) (\<lambda>a e1.
             if ra_nonce a \<in> set (keys (e_nonces e1)) then (Inl (ValueError ''token nonce already used''), e1)
             else (case ra_target_sequence a of
                 None \<Rightarrow> (Inl (ValueError ''invalid recovery sequence''), e1)
               | Some target \<Rightarrow>
                   if \<not> (0 \<le> target \<and> target \<le> last_sequence (e_journal e1))
                   then (Inl (ValueError ''invalid recovery sequence''), e1)
                   else transition RECOVERY_READ_ONLY ''signed authorization plus physical presence''
                          (save_state (e1\<lparr>e_nonces := AList.update (ra_nonce a) (ra_expires_unix a) (e_nonces e1),
                                          e_recovery := JInt target\<rparr>)))) e)"

definition maintenance_entry_states :: "aegis_state list" where
  "maintenance_entry_states = [NORMAL, CONTAINED, RECOVERY_READ_ONLY, FAULT]"

definition enter_maintenance ::
  "(bytes \<Rightarrow> bytes \<Rightarrow> bool) \<Rightarrow> string \<Rightarrow> bool \<Rightarrow> int option \<Rightarrow> (engine, unit) oper" where
  "enter_maintenance ed_verify token physical_presence now e =
     (if e_state e \<notin> set maintenance_entry_states
      then (Inl (RuntimeError (''cannot enter maintenance from '' @ quoted (state_value (e_state e)) @
              ''; allowed entry states are: normal, contained, recovery_read_only, fault'')), e)
      else if \<not> physical_presence then (Inl (PermissionError ''physical presence is not asserted''), e)
      else bind_op (engine_verify ed_verify token ''enter_maintenance'' now) (\<lambda>a e1.
             if ra_nonce a \<in> set (keys (e_nonces e1)) then (Inl (ValueError ''token nonce already used''), e1)
             else transition MAINTENANCE ''maintenance authorized via signed token''
                    (save_state (e1\<lparr>e_nonces := AList.update (ra_nonce a) (ra_expires_unix a) (e_nonces e1)\<rparr>))) e)"

definition compaction_states :: "aegis_state list" where
  "compaction_states = [NORMAL, MAINTENANCE]"

definition compact_journal :: "string \<Rightarrow> (engine, string) oper" where
  "compact_journal prefix e =
     (if e_state e \<notin> set compaction_states
      then (Inl (RuntimeError (''compaction refused in '' @ quoted (state_value (e_state e)) @
              ''; the journal is the forensic record of an active incident. Allowed states: normal, maintenance'')), e)
      else (let name = prefix @ ''-'' @ show_int (engine_ns e);
                e0 = engine_tick e
            in case journal_compact name (e_journal e) of
                 (Inl x, j) \<Rightarrow> (Inl x, e0\<lparr>e_journal := j\<rparr>)
               | (Inr _, j) \<Rightarrow>
                   (Inr name, log_event ''journal_compacted'' [(''snapshot_name'', JStr name)]
                      (save_state (e0\<lparr>e_journal := j, e_containment := JNull, e_recovery := JNull\<rparr>)))))"

definition exit_maintenance :: "bool \<Rightarrow> (engine, string option) oper" where
  "exit_maintenance do_compact e =
     (if e_state e \<noteq> MAINTENANCE
      then (Inl (RuntimeError (''exit_maintenance called from '' @ quoted (state_value (e_state e)) @ ''; must be in maintenance'')), e)
      else bind_op (if do_compact then bind_op (compact_journal ''pre-maintenance'') (\<lambda>n. return_op (Some n))
                    else return_op None)
             (\<lambda>name e1. bind_op (transition NORMAL ''maintenance complete'') (\<lambda>_. return_op name)
                          (e1\<lparr>e_containment := JNull, e_recovery := JNull\<rparr>)) e)"

definition writes_allowed :: "aegis_state \<Rightarrow> bool" where
  "writes_allowed s \<longleftrightarrow> s = NORMAL \<or> s = ELEVATED"

definition engine_status :: "engine \<Rightarrow> json dict" where
  "engine_status e =
     [(''device_id'', JStr (device_id (e_journal e))), (''state'', JStr (state_value (e_state e))),
      (''state_version'', JInt (e_version e)), (''last_sequence'', JInt (last_sequence (e_journal e))),
      (''containment_sequence'', e_containment e), (''recovery_sequence'', e_recovery e),
      (''writes_allowed'', JBool (writes_allowed (e_state e)))]"

end
