(* ===== verification/Engine_Steps.thy ===== *)
theory Engine_Steps
  imports Engine
begin

text \<open>
  The engine as a state machine: one operation per public method, runs as sequences of them, and
  the properties that hold along every run. The engine's lock makes the methods atomic, so the
  interleavings of its concurrent callers are exactly these sequences.
\<close>

section \<open>Operations and runs\<close>

datatype engine_op =
    Op_Read int int
  | Op_Write int bytes
  | Op_Flush
  | Op_Reject int string
  | Op_Authorize string bool "int option"
  | Op_Maintain string bool "int option"
  | Op_Exit bool
  | Op_Compact string

text \<open>Whether the call returned, and the engine afterwards.\<close>

definition outcome :: "('s, 'a) oper \<Rightarrow> 's \<Rightarrow> bool \<times> 's" where
  "outcome m s = (case m s of (r, s') \<Rightarrow> (\<not> isl r, s'))"

fun call :: "(real \<Rightarrow> string) \<Rightarrow> (bytes \<Rightarrow> bytes \<Rightarrow> bool) \<Rightarrow> engine_op \<Rightarrow> engine \<Rightarrow> bool \<times> engine" where
  "call frepr ed (Op_Read lba n) e = outcome (engine_read lba n) e"
| "call frepr ed (Op_Write lba payload) e = outcome (engine_write frepr lba payload) e"
| "call frepr ed Op_Flush e = outcome engine_flush e"
| "call frepr ed (Op_Reject opcode name) e = outcome (reject_destructive_command opcode name) e"
| "call frepr ed (Op_Authorize token presence now) e = outcome (authorize_recovery ed token presence now) e"
| "call frepr ed (Op_Maintain token presence now) e = outcome (enter_maintenance ed token presence now) e"
| "call frepr ed (Op_Exit do_compact) e = outcome (exit_maintenance do_compact) e"
| "call frepr ed (Op_Compact prefix) e = outcome (compact_journal prefix) e"

definition run_ops :: "(real \<Rightarrow> string) \<Rightarrow> (bytes \<Rightarrow> bytes \<Rightarrow> bool) \<Rightarrow> engine \<Rightarrow> engine_op list \<Rightarrow> engine" where
  "run_ops frepr ed e ops = foldl (\<lambda>e op. snd (call frepr ed op e)) e ops"

lemma outcome_simps [simp]:
  "snd (outcome m s) = snd (m s)"
  "fst (outcome m s) = (\<not> isl (fst (m s)))"
  by (simp_all add: outcome_def split: prod.splits)

section \<open>What the helpers leave alone\<close>

lemma log_event_frame [simp]:
  "e_journal (log_event ev d e) = e_journal e" "e_policy (log_event ev d e) = e_policy e"
  "e_analyzer (log_event ev d e) = e_analyzer e" "e_state_file (log_event ev d e) = e_state_file e"
  "e_state (log_event ev d e) = e_state e" "e_version (log_event ev d e) = e_version e"
  "e_containment (log_event ev d e) = e_containment e" "e_recovery (log_event ev d e) = e_recovery e"
  "e_nonces (log_event ev d e) = e_nonces e" "e_audit (log_event ev d e) = snd (audit_append ev d (e_audit e))"
  by (simp_all add: log_event_def)

lemma engine_tick_frame [simp]:
  "e_journal (engine_tick e) = e_journal e" "e_policy (engine_tick e) = e_policy e"
  "e_analyzer (engine_tick e) = e_analyzer e" "e_state_file (engine_tick e) = e_state_file e"
  "e_state (engine_tick e) = e_state e" "e_version (engine_tick e) = e_version e"
  "e_containment (engine_tick e) = e_containment e" "e_recovery (engine_tick e) = e_recovery e"
  "e_nonces (engine_tick e) = e_nonces e" "e_audit (engine_tick e) = tick (e_audit e)"
  by (simp_all add: engine_tick_def)

lemma record_digest_frame [simp]:
  "e_journal (record_digest e) = e_journal e" "e_policy (record_digest e) = e_policy e"
  "e_analyzer (record_digest e) = e_analyzer e" "e_state_file (record_digest e) = e_state_file e"
  "e_state (record_digest e) = e_state e" "e_version (record_digest e) = e_version e"
  "e_containment (record_digest e) = e_containment e" "e_recovery (record_digest e) = e_recovery e"
  "e_nonces (record_digest e) = prune_nonces (e_nonces e) (engine_seconds e)"
  by (simp_all add: record_digest_def Let_def)

lemma save_state_frame [simp]:
  "e_journal (save_state e) = e_journal e" "e_policy (save_state e) = e_policy e"
  "e_analyzer (save_state e) = e_analyzer e" "e_state (save_state e) = e_state e"
  "e_version (save_state e) = e_version e" "e_containment (save_state e) = e_containment e"
  "e_recovery (save_state e) = e_recovery e" "e_nonces (save_state e) = prune_nonces (e_nonces e) (engine_seconds e)"
  "e_audit (save_state e) = e_audit (record_digest e)"
  by (simp_all add: save_state_def write_state_file_def)

lemma transition_frame [simp]:
  "e_journal (snd (transition t r e)) = e_journal e" "e_policy (snd (transition t r e)) = e_policy e"
  "e_analyzer (snd (transition t r e)) = e_analyzer e" "e_containment (snd (transition t r e)) = e_containment e"
  "e_recovery (snd (transition t r e)) = e_recovery e"
  by (simp_all add: transition_def Let_def)

lemma transition_state:
  "e_state (snd (transition t r e)) = (if t \<in> set (allowed (e_state e)) then t else e_state e)"
  "e_version (snd (transition t r e)) = e_version e + (if t \<in> set (allowed (e_state e)) then 1 else 0)"
  "isl (fst (transition t r e)) = (t \<notin> set (allowed (e_state e)))"
  by (simp_all add: transition_def Let_def)

lemma engine_verify_frame:
  "e_journal (snd (engine_verify ed tok act now e)) = e_journal e" "e_state (snd (engine_verify ed tok act now e)) = e_state e"
  "e_version (snd (engine_verify ed tok act now e)) = e_version e" "e_nonces (snd (engine_verify ed tok act now e)) = e_nonces e"
  "e_analyzer (snd (engine_verify ed tok act now e)) = e_analyzer e" "e_policy (snd (engine_verify ed tok act now e)) = e_policy e"
  by (simp_all add: engine_verify_def split: option.splits)

lemma bind_return_snd: "snd (bind_op m (\<lambda>_. return_op x) s) = snd (m s)"
  by (simp add: bind_op_def split: prod.splits sum.splits)

lemma bind_return_isl: "isl (fst (bind_op m (\<lambda>_. return_op x) s)) = isl (fst (m s))"
  by (simp add: bind_op_def split: prod.splits sum.splits)

section \<open>State and version\<close>

text \<open>The transitions the methods can make, and what each needs.\<close>

inductive edge :: "aegis_state \<Rightarrow> aegis_state \<Rightarrow> bool" where
  "edge NORMAL ELEVATED"
| "edge NORMAL CONTAINED"
| "edge ELEVATED CONTAINED"
| "edge CONTAINED RECOVERY_READ_ONLY"
| "s \<in> set maintenance_entry_states \<Longrightarrow> edge s MAINTENANCE"
| "edge MAINTENANCE NORMAL"

inductive_simps edge_simps: "edge s t"

definition moves :: "engine \<Rightarrow> engine \<Rightarrow> bool" where
  "moves e e' \<longleftrightarrow>
     (e_state e' = e_state e \<and> e_version e' = e_version e) \<or>
     (edge (e_state e) (e_state e') \<and> e_version e' = e_version e + 1)"

lemma moves_same [intro]: "e_state e' = e_state e \<Longrightarrow> e_version e' = e_version e \<Longrightarrow> moves e e'"
  by (simp add: moves_def)

lemma moves_transition:
  assumes "e_state e = e_state e0" "e_version e = e_version e0"
    and "t \<in> set (allowed (e_state e)) \<Longrightarrow> edge (e_state e) t"
  shows "moves e0 (snd (transition t r e))"
  using assms by (auto simp: moves_def transition_state)

lemma moves_react: "writes_allowed (e_state e) \<Longrightarrow> moves e (snd (react d seq e))"
  by (auto simp: react_def bind_return_snd writes_allowed_def edge_simps intro!: moves_transition)

lemma moves_write: "moves e (snd (engine_write frepr lba payload e))"
proof -
  have m: "moves e (snd (react d seq e1))" if "e_state e1 = e_state e" "e_version e1 = e_version e" "writes_allowed (e_state e)"
    for d seq e1
    using moves_react [of e1 d seq] that by (simp add: moves_def)
  show ?thesis
    by (auto simp: engine_write_def Let_def writes_allowed_def split: sum.splits prod.splits intro!: m)
qed

lemma moves_reject: "moves e (snd (reject_destructive_command opcode name e))"
  by (auto simp: reject_destructive_command_def Let_def bind_return_snd edge_simps split: sum.splits prod.splits
      intro!: moves_transition)

lemma moves_authorize: "moves e (snd (authorize_recovery ed token presence now e))"
  using engine_verify_frame [of ed token "''enter_recovery_read_only''" now e]
  by (auto simp: authorize_recovery_def bind_op_def edge_simps split: sum.splits prod.splits option.splits
      intro!: moves_transition)

lemma moves_maintain: "moves e (snd (enter_maintenance ed token presence now e))"
  using engine_verify_frame [of ed token "''enter_maintenance''" now e]
  by (auto simp: enter_maintenance_def bind_op_def edge_simps split: sum.splits prod.splits intro!: moves_transition)

lemma compact_journal_state:
  "e_state (snd (compact_journal prefix e)) = e_state e" "e_version (snd (compact_journal prefix e)) = e_version e"
  by (auto simp: compact_journal_def Let_def split: sum.splits prod.splits)

text \<open>The first part of \<open>exit_maintenance\<close>.\<close>

definition exit_compaction :: "bool \<Rightarrow> (engine, string option) oper" where
  "exit_compaction do_compact =
     (if do_compact then bind_op (compact_journal ''pre-maintenance'') (\<lambda>n. return_op (Some n)) else return_op None)"

lemma bind_op_snd:
  "snd (bind_op m f s) = (case fst (m s) of Inl x \<Rightarrow> snd (m s) | Inr y \<Rightarrow> snd (f y (snd (m s))))"
  by (simp add: bind_op_def split: prod.splits sum.splits)

lemma exit_compaction_snd:
  "snd (exit_compaction do_compact e) = (if do_compact then snd (compact_journal ''pre-maintenance'' e) else e)"
  by (simp add: exit_compaction_def bind_op_snd split: sum.splits)

lemma exit_maintenance_snd:
  "snd (exit_maintenance do_compact e) =
     (if e_state e \<noteq> MAINTENANCE then e
      else (case fst (exit_compaction do_compact e) of
              Inl x \<Rightarrow> snd (exit_compaction do_compact e)
            | Inr _ \<Rightarrow> snd (transition NORMAL ''maintenance complete''
                ((snd (exit_compaction do_compact e))\<lparr>e_containment := JNull, e_recovery := JNull\<rparr>))))"
  by (simp add: exit_maintenance_def exit_compaction_def [symmetric] bind_op_snd bind_return_snd split: sum.splits)

lemma moves_exit: "moves e (snd (exit_maintenance do_compact e))"
proof -
  have s: "e_state (snd (exit_compaction do_compact e)) = e_state e" "e_version (snd (exit_compaction do_compact e)) = e_version e"
    by (simp_all add: exit_compaction_snd compact_journal_state)
  show ?thesis
    using s by (auto simp: exit_maintenance_snd edge_simps split: sum.splits intro!: moves_transition)
qed

lemma moves_call: "moves e (snd (call frepr ed op e))"
proof (cases op)
  case (Op_Read lba n)
  then show ?thesis by (auto simp: engine_read_def Let_def split: prod.splits sum.splits)
next
  case Op_Flush
  then show ?thesis by (auto simp: engine_flush_def)
next
  case (Op_Compact prefix)
  then show ?thesis by (auto simp: compact_journal_state)
qed (auto simp: moves_write moves_reject moves_authorize moves_maintain moves_exit)

lemma run_ops_version: "e_version e \<le> e_version (run_ops frepr ed e ops)"
proof (induction ops rule: rev_induct)
  case (snoc op ops)
  have "moves (run_ops frepr ed e ops) (run_ops frepr ed e (ops @ [op]))"
    using moves_call by (simp add: run_ops_def)
  then show ?case using snoc by (auto simp: moves_def)
qed (simp add: run_ops_def)

section \<open>Leaving containment\<close>

text \<open>A call that ends in another state than it began in returned, and was the method for that edge.\<close>

lemma authorize_success:
  assumes "fst (authorize_recovery ed token presence now e) = Inr ()"
  obtains a where "e_state e = CONTAINED" "presence"
    "token_verify ed token (device_id (e_journal e)) ''enter_recovery_read_only'' (e_version e) (verify_time now e) = Inr a"
    "ra_nonce a \<notin> set (keys (e_nonces e))" "e_version (snd (authorize_recovery ed token presence now e)) = e_version e + 1"
    "e_state (snd (authorize_recovery ed token presence now e)) = RECOVERY_READ_ONLY"
proof -
  let ?v = "engine_verify ed token ''enter_recovery_read_only'' now e"
  have st: "e_state e = CONTAINED" "presence"
    using assms by (auto simp: authorize_recovery_def split: if_splits)
  obtain a where a: "fst ?v = Inr a"
    using assms st by (cases "fst ?v") (auto simp: authorize_recovery_def bind_op_def split: prod.splits)
  have n: "ra_nonce a \<notin> set (keys (e_nonces e))"
    using assms st a engine_verify_frame(4) [of ed token "''enter_recovery_read_only''" now e]
    by (auto simp: authorize_recovery_def bind_op_def split: prod.splits if_splits)
  have r: "e_version (snd (authorize_recovery ed token presence now e)) = e_version e + 1"
    "e_state (snd (authorize_recovery ed token presence now e)) = RECOVERY_READ_ONLY"
    using assms st a engine_verify_frame [of ed token "''enter_recovery_read_only''" now e]
    by (auto simp: authorize_recovery_def bind_op_def transition_state split: prod.splits if_splits option.splits)
  have "token_verify ed token (device_id (e_journal e)) ''enter_recovery_read_only'' (e_version e) (verify_time now e) = Inr a"
    using a by (simp add: engine_verify_def)
  then show thesis using st n r by (intro that)
qed

lemma maintain_success:
  assumes "fst (enter_maintenance ed token presence now e) = Inr ()"
  obtains a where "e_state e \<in> set maintenance_entry_states" "presence"
    "token_verify ed token (device_id (e_journal e)) ''enter_maintenance'' (e_version e) (verify_time now e) = Inr a"
    "ra_nonce a \<notin> set (keys (e_nonces e))" "e_version (snd (enter_maintenance ed token presence now e)) = e_version e + 1"
    "e_state (snd (enter_maintenance ed token presence now e)) = MAINTENANCE"
proof -
  let ?v = "engine_verify ed token ''enter_maintenance'' now e"
  have st: "e_state e \<in> set maintenance_entry_states" "presence"
    using assms by (auto simp: enter_maintenance_def split: if_splits)
  obtain a where a: "fst ?v = Inr a"
    using assms st by (cases "fst ?v") (auto simp: enter_maintenance_def bind_op_def split: prod.splits)
  have n: "ra_nonce a \<notin> set (keys (e_nonces e))"
    using assms st a engine_verify_frame(4) [of ed token "''enter_maintenance''" now e]
    by (auto simp: enter_maintenance_def bind_op_def split: prod.splits if_splits)
  have r: "e_version (snd (enter_maintenance ed token presence now e)) = e_version e + 1"
    "e_state (snd (enter_maintenance ed token presence now e)) = MAINTENANCE"
    using assms st a engine_verify_frame [of ed token "''enter_maintenance''" now e]
    by (auto simp: enter_maintenance_def bind_op_def transition_state maintenance_entry_states_def split: prod.splits if_splits)
  have "token_verify ed token (device_id (e_journal e)) ''enter_maintenance'' (e_version e) (verify_time now e) = Inr a"
    using a by (simp add: engine_verify_def)
  then show thesis using st n r by (intro that)
qed

end
