(* ===== verification/Engine_Spec.thy ===== *)
theory Engine_Spec
  imports Engine_Steps
begin

text \<open>
  The properties of the engine: its state machine, containment and its release, the write path, and
  what a restart restores or refuses.
\<close>

section \<open>An engine to state examples on\<close>

definition cold_engine :: engine where
  "cold_engine = \<lparr>e_journal = sample1, e_policy = default_policy, e_audit = sample_log0, e_analyzer = sample_analyzer,
     e_state_file = None, e_state = BOOT_SELFTEST, e_version = 0, e_containment = JNull, e_recovery = JNull, e_nonces = []\<rparr>"

definition sample_engine :: engine where
  "sample_engine = snd (boot cold_engine)"

lemma sample_recovered: "recovered_tail sample1 = None" "device_id sample1 = ''dev''"
proof -
  obtain j where j: "provision False ''id'' 4 512 (Some ''dev'') = Inr j" "journal_rel j []"
    by (rule provision_rel [of 4 512]) (simp_all, blast)
  have "open_journal (j_files j) (j_snapshots j) = Inr (j\<lparr>recovered_tail := None\<rparr>)"
    using reopen [OF j(2), of "j_snapshots j"] by simp
  have "recovered_tail j = None \<and> device_id j = ''dev''"
  proof -
    let ?fs = "\<lparr>f_metadata = canonical (metadata_json ''dev'' 4 512) @ [nl], f_base = replicate (nat (4 * 512)) 0,
                 f_log = [], f_sidecars = []\<rparr> :: ns"
    have "open_journal ?fs [] = Inr j"
      using j(1) by (simp add: provision_def)
    then show ?thesis
      by (simp add: open_journal_def read_metadata_json is_ws_def replay_def finish_replay_def) auto
  qed
  then show "recovered_tail sample1 = None" "device_id sample1 = ''dev''"
    using j(1) by (simp_all add: sample1_def sample0_def)
qed

lemma sample_engine_facts:
  "fst (boot cold_engine) = Inr ()" "e_state sample_engine = NORMAL" "e_version sample_engine = 1"
  "e_journal sample_engine = sample1" "e_policy sample_engine = default_policy" "e_nonces sample_engine = []"
proof -
  have op: "open_audit (e_audit cold_engine) = Inr sample_log0"
    by (simp add: cold_engine_def open_audit_def audit_verify_def verify_text_def) (simp add: sample_log0_def)
  have an: "new_analyzer (default_config (blocks (e_journal cold_engine))) =
      Inr \<lparr>an_config = default_config 4, an_window = [], an_written_blocks = Map.empty, an_recent_reads = [], an_last_write_end = None\<rparr>"
    by (simp add: cold_engine_def sample1_facts new_analyzer_def default_config_def)
  have ld: "load_state (cold_engine\<lparr>e_audit := sample_log0, e_analyzer := x, e_state := BOOT_SELFTEST, e_version := 0,
      e_containment := JNull, e_recovery := JNull, e_nonces := []\<rparr>) = Inr NoState" for x
    by (simp add: load_state_def cold_engine_def recorded_digest_def verify_text_def sample_log0_def)
  have b: "boot cold_engine = transition NORMAL ''self-test complete'' (cold_engine\<lparr>e_audit := sample_log0,
      e_analyzer := \<lparr>an_config = default_config 4, an_window = [], an_written_blocks = Map.empty, an_recent_reads = [], an_last_write_end = None\<rparr>,
      e_state := BOOT_SELFTEST, e_version := 0, e_containment := JNull, e_recovery := JNull, e_nonces := []\<rparr>)"
    using ld by (simp add: boot_def op an Let_def) (simp add: cold_engine_def sample_recovered)
  show "fst (boot cold_engine) = Inr ()" "e_state sample_engine = NORMAL" "e_version sample_engine = 1"
    "e_journal sample_engine = sample1" "e_policy sample_engine = default_policy" "e_nonces sample_engine = []"
    by (simp_all add: sample_engine_def b transition_def Let_def prune_nonces_def) (simp_all add: cold_engine_def)
qed

definition contained_engine :: engine where
  "contained_engine = sample_engine\<lparr>e_state := CONTAINED, e_version := 4\<rparr>"

lemma contained_engine_facts:
  "e_state contained_engine = CONTAINED" "e_version contained_engine = 4" "e_journal contained_engine = sample1"
  "e_nonces contained_engine = []" "e_policy contained_engine = default_policy"
  by (simp_all add: contained_engine_def sample_engine_facts)

abbreviation sample_token :: string where
  "sample_token \<equiv> sign_authorization (\<lambda>m. m) sample_auth"

abbreviation sample_ed :: "bytes \<Rightarrow> bytes \<Rightarrow> bool" where
  "sample_ed \<equiv> (\<lambda>s m. s = m)"

lemma sample_token_ok: "token_verify sample_ed sample_token ''dev'' ''enter_maintenance'' 4 1200 = Inr sample_auth"
  using parse_signed [of sample_ed "\<lambda>m. m" sample_auth] by (simp add: token_verify_iff admissible_def sample_auth_def)

lemma sample_maintain:
  "fst (enter_maintenance sample_ed sample_token True (Some 1200) contained_engine) = Inr ()"
  "e_state (snd (enter_maintenance sample_ed sample_token True (Some 1200) contained_engine)) = MAINTENANCE"
proof -
  have v: "engine_verify sample_ed sample_token ''enter_maintenance'' (Some 1200) contained_engine = (Inr sample_auth, contained_engine)"
    using sample_token_ok by (simp add: engine_verify_def verify_time_def contained_engine_facts sample_recovered)
  show "fst (enter_maintenance sample_ed sample_token True (Some 1200) contained_engine) = Inr ()"
    "e_state (snd (enter_maintenance sample_ed sample_token True (Some 1200) contained_engine)) = MAINTENANCE"
    by (simp_all add: enter_maintenance_def bind_op_def v contained_engine_facts maintenance_entry_states_def transition_def Let_def)
qed

section \<open>The state machine\<close>

text \<open>
  C27. Every method of the engine, whether it returns or raises, either leaves state and version as
  they were or makes exactly one of nine transitions and increases the version by one. No method
  leads from ELEVATED back to NORMAL, and none leads from CONTAINED, RECOVERY_READ_ONLY or FAULT to
  a state that accepts writes.
\<close>

theorem engine_transitions:
  "(e_state (snd (call frepr ed op e)) = e_state e \<and> e_version (snd (call frepr ed op e)) = e_version e) \<or>
   ((e_state e, e_state (snd (call frepr ed op e))) \<in>
      {(NORMAL, ELEVATED), (NORMAL, CONTAINED), (NORMAL, MAINTENANCE), (ELEVATED, CONTAINED),
       (CONTAINED, RECOVERY_READ_ONLY), (CONTAINED, MAINTENANCE), (RECOVERY_READ_ONLY, MAINTENANCE),
       (FAULT, MAINTENANCE), (MAINTENANCE, NORMAL)} \<and>
    e_version (snd (call frepr ed op e)) = e_version e + 1)"
  using moves_call [of e frepr ed op] by (auto simp: moves_def edge_simps maintenance_entry_states_def)

lemma authorize_fails_same: "isl (fst (authorize_recovery ed token presence now e)) \<Longrightarrow>
  e_state (snd (authorize_recovery ed token presence now e)) = e_state e"
  using engine_verify_frame [of ed token "''enter_recovery_read_only''" now e]
  by (auto simp: authorize_recovery_def bind_op_def transition_state split: sum.splits prod.splits option.splits if_splits)

lemma maintain_fails_same: "isl (fst (enter_maintenance ed token presence now e)) \<Longrightarrow>
  e_state (snd (enter_maintenance ed token presence now e)) = e_state e"
  using engine_verify_frame [of ed token "''enter_maintenance''" now e]
  by (auto simp: enter_maintenance_def bind_op_def transition_state split: sum.splits prod.splits if_splits)

lemma not_isl_unit: "\<not> isl (r :: unit res) \<Longrightarrow> r = Inr ()"
  by (cases r) auto

lemma contained_others_same:
  assumes "e_state e = CONTAINED"
  shows "e_state (snd (engine_write frepr lba payload e)) = CONTAINED"
    "e_state (snd (reject_destructive_command opcode name e)) = CONTAINED"
    "e_state (snd (exit_maintenance do_compact e)) = CONTAINED"
    "e_state (snd (engine_read lba n e)) = CONTAINED"
    "e_state (snd (engine_flush e)) = CONTAINED"
  using assms
  by (auto simp: engine_write_def reject_destructive_command_def exit_maintenance_def engine_read_def engine_flush_def Let_def
      split: prod.splits sum.splits)

lemma exit_authorized:
  assumes "e_state e = CONTAINED" "e_state (snd (call frepr ed op e)) \<noteq> CONTAINED"
  shows "\<exists>token now a action.
    (op = Op_Authorize token True now \<and> action = ''enter_recovery_read_only'' \<or>
     op = Op_Maintain token True now \<and> action = ''enter_maintenance'') \<and>
    token_verify ed token (device_id (e_journal e)) action (e_version e) (verify_time now e) = Inr a \<and>
    ra_nonce a \<notin> set (keys (e_nonces e))"
proof (cases op)
  case (Op_Authorize token presence now)
  then have "fst (authorize_recovery ed token presence now e) = Inr ()"
    using assms authorize_fails_same [of ed token presence now e] not_isl_unit by auto
  then show ?thesis by (rule authorize_success) (use Op_Authorize in auto)
next
  case (Op_Maintain token presence now)
  then have "fst (enter_maintenance ed token presence now e) = Inr ()"
    using assms maintain_fails_same [of ed token presence now e] not_isl_unit by auto
  then show ?thesis by (rule maintain_success) (use Op_Maintain in auto)
qed (use assms contained_others_same [OF assms(1)] compact_journal_state in auto)

text \<open>
  C28. The only way out of containment: a call that leaves CONTAINED is \<open>authorize_recovery\<close> or
  \<open>enter_maintenance\<close>, with physical presence asserted, on a token that verifies for this device,
  that action, the present state version and the present time, and whose nonce has not been used.
\<close>

theorem containment_exit_authorized:
  assumes "e_state e = CONTAINED" "e_state (snd (call frepr ed op e)) \<noteq> CONTAINED"
  shows "\<exists>token now a action.
    (op = Op_Authorize token True now \<and> action = ''enter_recovery_read_only'' \<or>
     op = Op_Maintain token True now \<and> action = ''enter_maintenance'') \<and>
    token_verify ed token (device_id (e_journal e)) action (e_version e) (verify_time now e) = Inr a \<and>
    ra_nonce a \<notin> set (keys (e_nonces e))"
  using assms by (rule exit_authorized)

theorem containment_exit_authorized_witness:
  "\<exists>token now a action.
    (Op_Maintain sample_token True (Some 1200) = Op_Authorize token True now \<and> action = ''enter_recovery_read_only'' \<or>
     Op_Maintain sample_token True (Some 1200) = Op_Maintain token True now \<and> action = ''enter_maintenance'') \<and>
    token_verify sample_ed token (device_id (e_journal contained_engine)) action (e_version contained_engine) (verify_time now contained_engine) = Inr a \<and>
    ra_nonce a \<notin> set (keys (e_nonces contained_engine))"
  by (rule containment_exit_authorized [where frepr = "\<lambda>_. []"]) (simp_all add: contained_engine_facts sample_maintain)

text \<open>
  C29. A token works once. After a token has been accepted, by either method, no sequence of further
  calls makes the engine accept it again, whatever time is passed and whether or not its nonce has
  been pruned in the meantime.
\<close>

theorem token_single_use:
  assumes "fst (enter_maintenance ed token presence now e) = Inr () \<and> e1 = snd (enter_maintenance ed token presence now e) \<or>
    fst (authorize_recovery ed token presence now e) = Inr () \<and> e1 = snd (authorize_recovery ed token presence now e)"
  shows "fst (enter_maintenance ed token presence' now' (run_ops frepr ed e1 ops)) \<noteq> Inr () \<and>
    fst (authorize_recovery ed token presence' now' (run_ops frepr ed e1 ops)) \<noteq> Inr ()"
proof -
  obtain a where a: "parse_token ed token = Inr a" "ra_state_version a = e_version e" "e_version e1 = e_version e + 1"
    using assms
  proof
    assume m: "fst (enter_maintenance ed token presence now e) = Inr () \<and> e1 = snd (enter_maintenance ed token presence now e)"
    then show thesis using that by (auto elim!: maintain_success simp: token_verify_iff admissible_def)
  next
    assume m: "fst (authorize_recovery ed token presence now e) = Inr () \<and> e1 = snd (authorize_recovery ed token presence now e)"
    then show thesis using that by (auto elim!: authorize_success simp: token_verify_iff admissible_def)
  qed
  have later: "ra_state_version a < e_version (run_ops frepr ed e1 ops)"
    using run_ops_version [of e1 frepr ed ops] a(2,3) by simp
  have "token_verify ed token dev act (e_version (run_ops frepr ed e1 ops)) cur \<noteq> Inr b" for dev act cur b
    using a(1) later by (auto simp: token_verify_iff admissible_def)
  then show ?thesis by (metis maintain_success authorize_success)
qed

theorem token_single_use_witness:
  "fst (enter_maintenance sample_ed sample_token True (Some 1200)
     (run_ops (\<lambda>_. []) sample_ed (snd (enter_maintenance sample_ed sample_token True (Some 1200) contained_engine)) [Op_Exit False]))
   \<noteq> Inr ()"
  using token_single_use [where frepr = "\<lambda>_. []" and ops = "[Op_Exit False]"] sample_maintain(1) by blast

section \<open>The write path\<close>

lemma length_extent:
  assumes "0 < bs" "0 \<le> b" "0 \<le> n" "b + n \<le> nb" "int (length img) = nb * bs"
  shows "int (length (extent bs b n img)) = n * bs"
proof -
  have "(b + n) * bs \<le> nb * bs" using assms by (intro mult_right_mono) auto
  then have "nat (b * bs) + nat (n * bs) \<le> length img"
    using assms by (simp add: distrib_right nat_add_distrib [symmetric])
  then show ?thesis using assms by (simp add: extent_def)
qed

lemma observe_write:
  assumes "length before = length payload"
  shows "\<exists>an. observe (io_ev WRITE lba n payload ts op) (Some before) a = (Inr (snapshot_features an), an)"
proof -
  obtain x where "changed_byte_fraction before payload = Inr x"
    using assms by (cases "changed_byte_fraction before payload") (auto simp: changed_byte_fraction_def split: if_splits)
  then show ?thesis by (auto simp: observe_def io_ev_def write_facts_of_def Let_def)
qed

lemma react_state:
  assumes "writes_allowed (e_state e)"
  shows "fst (react d seq e) = Inr d" "e_journal (snd (react d seq e)) = e_journal e"
    "e_analyzer (snd (react d seq e)) = e_analyzer e"
    "e_state (snd (react d seq e)) = (if contain d then CONTAINED else if alert d \<and> e_state e = NORMAL then ELEVATED else e_state e)"
    "e_containment (snd (react d seq e)) = (if contain d then JInt seq else e_containment e)"
  using assms by (auto simp: react_def bind_op_def return_op_def transition_def writes_allowed_def Let_def split: if_splits)

lemma write_read_before:
  assumes "reachable j" "block_size j \<noteq> 0" "int (length payload) mod block_size j = 0"
  shows "if valid_write (blocks j) (block_size j) (lba, payload)
    then \<exists>before. journal_read j lba (int (length payload) div block_size j) None = Inr before \<and> length before = length payload
    else journal_read j lba (int (length payload) div block_size j) None = Inl (ValueError ''block range outside virtual namespace'')"
proof -
  note rd = reachable_reads [OF assms(1)]
  let ?n = "int (length payload) div block_size j" and ?img = "disk (block_size j) (f_base (j_files j)) (seen None (hist j))"
  have bs: "0 < block_size j" and base: "int (length (f_base (j_files j))) = blocks j * block_size j"
    and ws: "list_all (valid_write (blocks j) (block_size j)) (seen None (hist j))"
    using rd by (simp_all add: reads_as_def seen_def)
  have n: "?n * block_size j = int (length payload)" using assms(3) by (simp add: mod_0_imp_dvd)
  have img: "int (length ?img) = blocks j * block_size j" using length_disk [OF bs ws base] base by simp
  show ?thesis
  proof (cases "valid_write (blocks j) (block_size j) (lba, payload)")
    case True
    then have r: "0 \<le> lba" "1 \<le> ?n" "lba + ?n \<le> blocks j"
      using valid_write_bytes(1) [OF bs True] by (simp_all add: valid_write_def wcount_def)
    have "int (length (extent (block_size j) lba ?n ?img)) = int (length payload)"
      using length_extent [OF bs r(1) _ r(3) img] r(2) n by simp
    then show ?thesis
      using True r journal_read_disk [OF rd, of lba ?n None] by simp
  next
    case False
    have "payload = [] \<Longrightarrow> ?n < 1" by simp
    then have "lba < 0 \<or> ?n < 1 \<or> blocks j < lba + ?n"
      using False assms(3) by (auto simp: valid_write_def wcount_def)
    then show ?thesis
      using False journal_read_disk [OF rd, of lba ?n None] by simp
  qed
qed

text \<open>An accepted write, step by step.\<close>

lemma engine_write_accepted:
  assumes j: "reachable (e_journal e)" and st: "writes_allowed (e_state e)"
    and v: "valid_write (blocks (e_journal e)) (block_size (e_journal e)) (lba, payload)"
  obtains before an d e' where
    "observe (io_ev WRITE lba (int (length payload) div block_size (e_journal e)) payload (engine_ns e) None) (Some before)
       (e_analyzer e) = (Inr (snapshot_features an), an)"
    "d = evaluate (e_policy e) (snapshot_features an)" "engine_write frepr lba payload e = (Inr d, e')"
    "e_analyzer e' = an" "hist (e_journal e') = hist (e_journal e) @ [(lba, payload)]"
    "e_state e' = (if contain d then CONTAINED else if alert d \<and> e_state e = NORMAL then ELEVATED else e_state e)"
    "e_containment e' = (if contain d then JInt (last_sequence (e_journal e) + 1) else e_containment e)"
proof -
  let ?j = "e_journal e"
  note rel = reachable_rel [OF j]
  have bs: "0 < block_size ?j" using rel by (simp add: journal_rel_def)
  have al: "int (length payload) mod block_size ?j = 0" using v by (simp add: valid_write_def)
  obtain before where b: "journal_read ?j lba (int (length payload) div block_size ?j) None = Inr before"
    "length before = length payload" using write_read_before [OF j _ al, of lba] v bs by auto
  obtain j' where ap: "journal_append lba payload ?j = (Inr (last_sequence ?j + 1), j')"
    and h: "hist j' = hist ?j @ [(lba, payload)]"
    using append_rel [OF rel v] reachable_last [OF j] rel_hist [OF append_rel(2) [OF rel v]]
    by (cases "journal_append lba payload ?j") (metis fst_conv snd_conv)
  obtain an where ob: "observe (io_ev WRITE lba (int (length payload) div block_size ?j) payload (engine_ns e) None) (Some before)
      (e_analyzer e) = (Inr (snapshot_features an), an)"
    using observe_write [OF b(2)] by blast
  define d where "d = evaluate (e_policy e) (snapshot_features an)"
  define e1 where "e1 = log_event ''write_persisted'' [(''lba'', JInt lba), (''blocks'', JInt (int (length payload) div block_size ?j)),
      (''sequence'', JInt (last_sequence ?j + 1)), (''decision'', decision_json frepr d)]
      ((engine_tick e)\<lparr>e_journal := j', e_analyzer := an\<rparr>)"
  have "(e_state e \<noteq> NORMAL \<and> e_state e \<noteq> ELEVATED) = False" using st by (auto simp: writes_allowed_def)
  then have w: "engine_write frepr lba payload e = react d (last_sequence ?j + 1) e1"
    unfolding engine_write_def using bs by (simp only: if_False) (simp add: al b(1) ap ob d_def e1_def Let_def)
  have f: "e_state e1 = e_state e" "e_journal e1 = j'" "e_analyzer e1 = an" "e_containment e1 = e_containment e"
    by (simp_all add: e1_def)
  then have "writes_allowed (e_state e1)" using st by simp
  note r = react_state [OF this, of d "last_sequence ?j + 1"]
  have "engine_write frepr lba payload e = (Inr d, snd (react d (last_sequence ?j + 1) e1))"
    using w r(1) by (metis prod.collapse)
  then show thesis
    by (rule that [OF ob d_def]) (simp_all add: r f h)
qed

text \<open>
  C30. The write path. In a state that does not accept writes the call raises and changes nothing.
  A payload that is not a positive number of blocks inside the namespace raises and changes nothing.
  Otherwise the write is in the journal before the verdict is acted on: the call returns the policy's
  decision on the window that includes this write, the journal's history has grown by exactly this
  write, and the state is CONTAINED (anchored at this write's sequence), ELEVATED or unchanged as the
  decision says.
\<close>

theorem engine_write_effect:
  assumes "reachable (e_journal e)"
  shows "if \<not> writes_allowed (e_state e)
    then engine_write frepr lba payload e = (Inl (PermissionError (''writes prohibited in '' @ state_value (e_state e))), e)
    else if \<not> valid_write (blocks (e_journal e)) (block_size (e_journal e)) (lba, payload)
    then \<exists>m. engine_write frepr lba payload e = (Inl (ValueError m), e)
    else \<exists>d e'. engine_write frepr lba payload e = (Inr d, e') \<and>
           hist (e_journal e') = hist (e_journal e) @ [(lba, payload)] \<and>
           d = evaluate (e_policy e) (snapshot_features (e_analyzer e')) \<and>
           e_state e' = (if contain d then CONTAINED else if alert d \<and> e_state e = NORMAL then ELEVATED else e_state e) \<and>
           e_containment e' = (if contain d then JInt (last_sequence (e_journal e) + 1) else e_containment e)"
proof (cases "writes_allowed (e_state e) \<and> valid_write (blocks (e_journal e)) (block_size (e_journal e)) (lba, payload)")
  case True
  then have st: "writes_allowed (e_state e)" and v: "valid_write (blocks (e_journal e)) (block_size (e_journal e)) (lba, payload)"
    by auto
  obtain an d e' where "d = evaluate (e_policy e) (snapshot_features an)" "engine_write frepr lba payload e = (Inr d, e')"
    "e_analyzer e' = an" "hist (e_journal e') = hist (e_journal e) @ [(lba, payload)]"
    "e_state e' = (if contain d then CONTAINED else if alert d \<and> e_state e = NORMAL then ELEVATED else e_state e)"
    "e_containment e' = (if contain d then JInt (last_sequence (e_journal e) + 1) else e_containment e)"
    using assms st v by (rule engine_write_accepted)
  then show ?thesis using st v by simp
next
  case False
  have bs: "0 < block_size (e_journal e)" using reachable_rel [OF assms] by (simp add: journal_rel_def)
  then show ?thesis
    using False write_read_before [OF assms, of payload lba]
    by (auto simp: engine_write_def writes_allowed_def valid_write_def Let_def split: if_splits)
qed

theorem engine_write_effect_witness:
  "(\<exists>d e'. engine_write (\<lambda>_. ''0.5'') 2 (page 9) sample_engine = (Inr d, e') \<and>
     hist (e_journal e') = [(1, page 7), (2, page 9)]) \<and>
   engine_write (\<lambda>_. ''0.5'') 2 (page 9) contained_engine = (Inl (PermissionError ''writes prohibited in contained''), contained_engine)"
proof -
  have "reachable (e_journal sample_engine)" "reachable (e_journal contained_engine)"
    by (simp_all add: sample_engine_facts contained_engine_facts sample1_facts)
  note w = engine_write_effect [OF this(1), of "\<lambda>_. ''0.5''" 2 "page 9"] engine_write_effect [OF this(2), of "\<lambda>_. ''0.5''" 2 "page 9"]
  have "valid_write (blocks (e_journal sample_engine)) (block_size (e_journal sample_engine)) (2, page 9)"
    by (simp add: valid_write_def wcount_def sample_engine_facts sample1_facts)
  then show ?thesis
    using w by (auto simp: sample_engine_facts contained_engine_facts writes_allowed_def sample1_facts)
qed

section \<open>Frozen images\<close>

lemma compact_jimage:
  assumes "reachable j"
  shows "jimage (snd (journal_compact name j)) = jimage j"
proof (cases "fst (snapshot name None j)")
  case (Inl x)
  then have "snd (journal_compact name j) = snd (snapshot name None j)"
    by (cases "snapshot name None j") (auto simp: journal_compact_def bind_op_def)
  moreover have "block_size (snd (snapshot name None j)) = block_size j"
    by (auto simp: snapshot_def Let_def put_snapshot_def split: sum.splits)
  ultimately show ?thesis by (simp add: jimage_def snapshot_files)
next
  case (Inr x)
  note rel = reachable_rel [OF assms]
  note c = compact_rel [OF rel snapshot_ok [OF rel Inr]]
  show ?thesis using jimage_rel [OF c(2)] c(3) jimage_rel [OF rel] by simp
qed

lemma compact_journal_image:
  "reachable (e_journal e) \<Longrightarrow> jimage (e_journal (snd (compact_journal prefix e))) = jimage (e_journal e)"
  using compact_jimage [of "e_journal e" "prefix @ ''-'' @ show_int (engine_ns e)"]
  by (auto simp: compact_journal_def Let_def split: prod.splits sum.splits)

lemma frozen_call:
  assumes "reachable (e_journal e)" "e_state e \<noteq> NORMAL" "e_state e \<noteq> ELEVATED"
  shows "jimage (e_journal (snd (call frepr ed op e))) = jimage (e_journal e)"
proof (cases op)
  case (Op_Write lba payload)
  then show ?thesis using assms by (simp add: engine_write_def)
next
  case (Op_Authorize token presence now)
  then show ?thesis
    using engine_verify_frame(1) [of ed token "''enter_recovery_read_only''" now e]
    by (auto simp: authorize_recovery_def bind_op_def split: prod.splits sum.splits option.splits)
next
  case (Op_Maintain token presence now)
  then show ?thesis
    using engine_verify_frame(1) [of ed token "''enter_maintenance''" now e]
    by (auto simp: enter_maintenance_def bind_op_def split: prod.splits sum.splits)
next
  case (Op_Exit do_compact)
  then show ?thesis
    using compact_journal_image [OF assms(1), of "''pre-maintenance''"]
    by (auto simp: exit_maintenance_snd exit_compaction_snd split: sum.splits)
next
  case (Op_Compact prefix)
  then show ?thesis using compact_journal_image [OF assms(1)] by simp
qed (use assms in \<open>auto simp: engine_read_def engine_flush_def reject_destructive_command_def Let_def split: prod.splits sum.splits\<close>)

text \<open>
  C31. Outside NORMAL and ELEVATED no method of the engine changes a byte of the device: whatever is
  called, in CONTAINED, RECOVERY_READ_ONLY, MAINTENANCE or FAULT, the image stays what it was.
\<close>

theorem image_frozen:
  assumes "reachable (e_journal e)" "e_state e \<noteq> NORMAL" "e_state e \<noteq> ELEVATED"
  shows "jimage (e_journal (snd (call frepr ed op e))) = jimage (e_journal e)"
  using assms by (rule frozen_call)

theorem image_frozen_witness:
  "jimage (e_journal (snd (call (\<lambda>_. []) sample_ed (Op_Write 2 (page 9)) contained_engine))) = jimage sample1"
  using image_frozen [of contained_engine "\<lambda>_. []" sample_ed "Op_Write 2 (page 9)"]
  by (simp add: contained_engine_facts sample1_facts)



end
