(* ===== verification/Engine_Restart.thy ===== *)
theory Engine_Restart
  imports Engine_Spec
begin

text \<open>
  Restarts. A state change is in the state file and its digest in the audit log before the call
  returns; starting again on these files restores it. Every file that does not match the recorded
  digest leads to FAULT. The theory also shows where this protection ends: the digest is looked up in
  the active audit file only, and rotation moves it away.
\<close>

section \<open>The recorded digest\<close>

definition entry_digest :: "json option \<Rightarrow> entry \<Rightarrow> json option" where
  "entry_digest digest e =
     (if fst e = state_digest_event then map_option sort_keys (non_null (map_of (fst (snd e)) ''digest'')) else digest)"

lemma non_null_sorted: "non_null (map_option sort_keys v) = map_option sort_keys (non_null v)"
  by (cases v rule: non_null.cases) simp_all

lemma scan_event:
  assumes "wf_json (JObj d)"
  shows "scan_digest digest (event_line ev d h ts # rest) = scan_digest (entry_digest digest (ev, d, ts)) rest"
proof -
  let ?f = "full_event ev d h ts"
  have dist: "distinct (keys ?f)" "distinct (keys d)" using assms by (simp_all add: event_body_def)
  have load: "json_loads (event_line ev d h ts) = Some (JObj (sorted_dict ?f))"
    unfolding event_line_eq using wf_event(2) [OF assms] by (rule loads_dict) (simp add: is_ws_def)
  have nb: "strip (event_line ev d h ts) \<noteq> []"
  proof -
    obtain t where "canonical (JObj ?f) = CHR ''{'' # t" using canonical_dict_hd by blast
    then show ?thesis by (simp add: event_line_eq brace_nonblank)
  qed
  have look: "map_of (sorted_dict ?f) ''event'' = Some (JStr ev)"
    "map_of (sorted_dict ?f) ''details'' = Some (JObj (sorted_dict d))"
    unfolding map_of_sorted_dict [OF dist(1)] by (simp_all add: event_body_def sort_keys_JObj del: sort_keys.simps(2))
  show ?thesis
    unfolding scan_digest.simps(2) load option.case json.case look
    using nb by (simp add: entry_digest_def map_of_sorted_dict [OF dist(2)] non_null_sorted)
qed

lemma scan_audit_lines:
  "list_all entry_ok es \<Longrightarrow>
   scan_digest digest (audit_lines h es @ rest) = scan_digest (foldl entry_digest digest es) rest"
proof (induction es arbitrary: h digest)
  case (Cons e es)
  obtain ev d ts where e: "e = (ev, d, ts)" by (cases e) auto
  then show ?case using Cons by (simp add: scan_event entry_ok_def del: scan_digest.simps wf_json.simps)
qed simp

lemma recorded_rel:
  assumes "audit_rel a es"
  shows "recorded_digest (au_text a) = Inr (foldl entry_digest None es)"
proof -
  have ok: "list_all entry_ok es" "au_text a = concat (audit_lines zero_hash es)"
    using assms by (simp_all add: audit_rel_def)
  have "verify_text (au_text a) = Inr (au_last_hash a)"
    using verify_rel [OF assms] by (simp add: audit_verify_def)
  then show ?thesis
    using scan_audit_lines [OF ok(1), of None zero_hash "[]"] lines_of_audit [OF ok(1), of zero_hash "[]"]
    by (simp add: recorded_digest_def ok(2))
qed

section \<open>The engine's invariant\<close>

fun scalar :: "json \<Rightarrow> bool" where
  "scalar JNull = True"
| "scalar (JInt _) = True"
| "scalar _ = False"

definition engine_inv :: "engine \<Rightarrow> bool" where
  "engine_inv e \<longleftrightarrow> (\<exists>es. audit_rel (e_audit e) es) \<and> scalar (e_containment e) \<and> scalar (e_recovery e) \<and>
     distinct (keys (e_nonces e))"

lemma scalar_simps: "scalar v \<Longrightarrow> wf_json v" "scalar v \<Longrightarrow> sort_keys v = v"
  by (cases v; simp)+

lemma engine_inv_update [simp]:
  "engine_inv (e\<lparr>e_journal := j\<rparr>) = engine_inv e" "engine_inv (e\<lparr>e_analyzer := an\<rparr>) = engine_inv e"
  "engine_inv (e\<lparr>e_state := s\<rparr>) = engine_inv e" "engine_inv (e\<lparr>e_version := v\<rparr>) = engine_inv e"
  "engine_inv (e\<lparr>e_state_file := f\<rparr>) = engine_inv e"
  by (simp_all add: engine_inv_def)

lemma engine_inv_tick [simp]: "engine_inv (engine_tick e) = engine_inv e"
  by (simp add: engine_inv_def tick_def audit_rel_def)

lemma engine_inv_log:
  assumes "engine_inv e" "wf_json (JObj d)"
  shows "engine_inv (log_event ev d e)"
  using assms audit_append_rel by (auto simp: engine_inv_def simp del: wf_json.simps)

lemma keys_prune: "distinct (keys ns) \<Longrightarrow> distinct (keys (prune_nonces ns t))"
  by (induction ns) (auto simp: prune_nonces_def)

lemma engine_inv_record:
  assumes "engine_inv e"
  shows "engine_inv (record_digest e)"
  using assms unfolding record_digest_def Let_def
  by (intro engine_inv_log) (auto simp: engine_inv_def keys_prune tick_def audit_rel_def)

lemma engine_inv_save: "engine_inv e \<Longrightarrow> engine_inv (save_state e)"
  by (simp add: save_state_def write_state_file_def engine_inv_record)

lemma engine_inv_transition: "engine_inv e \<Longrightarrow> engine_inv (snd (transition t r e))"
  by (auto simp: transition_def Let_def intro!: engine_inv_save engine_inv_log)

section \<open>What was saved is what is loaded\<close>

definition persisted :: "engine \<Rightarrow> bool" where
  "persisted e \<longleftrightarrow> e_state_file e = Some (state_payload_text (state_payload e)) \<and>
     recorded_digest (au_text (e_audit e)) = Inr (Some (JStr (state_digest (state_payload e))))"

lemma append_digest_recorded:
  assumes "audit_rel a es"
  shows "recorded_digest (au_text (snd (audit_append state_digest_event [(''digest'', JStr x)] a))) = Inr (Some (JStr x))"
proof (cases "needs_rotation a")
  case True
  have "recorded_digest (au_text (append_event state_digest_event [(''digest'', JStr x)] (rotate_log a))) = Inr (Some (JStr x))"
    using recorded_rel [OF append_event_rel [OF rotate_log_rel, of "[(''digest'', JStr x)]" state_digest_event a]]
    by (simp add: entry_digest_def)
  then show ?thesis using True by (simp add: audit_append_def Let_def)
next
  case False
  have "recorded_digest (au_text (append_event state_digest_event [(''digest'', JStr x)] a)) = Inr (Some (JStr x))"
    using recorded_rel [OF append_event_rel [OF assms, of "[(''digest'', JStr x)]" state_digest_event]]
    by (simp add: entry_digest_def)
  then show ?thesis using False by (simp add: audit_append_def Let_def)
qed

lemma record_digest_recorded:
  assumes "engine_inv e"
  shows "recorded_digest (au_text (e_audit (record_digest e))) = Inr (Some (JStr (state_digest (state_payload (record_digest e)))))"
proof -
  let ?e1 = "(engine_tick e)\<lparr>e_nonces := prune_nonces (e_nonces e) (engine_seconds e)\<rparr>"
  obtain es where "audit_rel (tick (e_audit e)) es"
    using assms by (auto simp: engine_inv_def tick_def audit_rel_def)
  then have "recorded_digest (au_text (snd (audit_append state_digest_event [(''digest'', JStr (state_digest (state_payload ?e1)))]
      (tick (e_audit e))))) = Inr (Some (JStr (state_digest (state_payload ?e1))))"
    by (rule append_digest_recorded)
  moreover have "state_payload (record_digest e) = state_payload ?e1"
    by (simp add: state_payload_def)
  ultimately show ?thesis by (simp add: record_digest_def Let_def)
qed

lemma save_state_persisted: "engine_inv e \<Longrightarrow> persisted (save_state e)"
  using record_digest_recorded [of e]
  by (simp add: persisted_def save_state_def write_state_file_def state_payload_def)

lemma keys_map_sort: "keys (map (\<lambda>(n, expiry). (n, JInt expiry)) (sort_key fst ns)) = keys (sort_key fst ns)"
  by (simp add: case_prod_unfold comp_def)

lemma wf_payload:
  assumes "engine_inv e"
  shows "wf_json (JObj (state_payload e))"
proof -
  have "distinct (keys (sort_key fst (e_nonces e)))"
    using assms distinct_keys_sort [of "e_nonces e"] by (simp add: engine_inv_def)
  then have "wf_json (JObj (map (\<lambda>(n, expiry). (n, JInt expiry)) (sort_key fst (e_nonces e))))"
    unfolding wf_json.simps keys_map_sort by (auto simp: list_all_iff)
  then show ?thesis
    using assms scalar_simps(1) by (simp add: state_payload_def engine_inv_def del: wf_json.simps(3)) (simp add: list_all_iff)
qed

lemma state_digest_sorted: "state_payload_text (sorted_dict d) = state_payload_text d"
  using sort_keys_idem [of "JObj d"]
  by (simp add: state_payload_text_def dumps_indent2_def sort_keys_JObj del: sort_keys.simps sort_keys_idem)

lemma distinct_payload: "distinct (keys (state_payload e))"
  by (simp add: state_payload_def)

lemma payload_items:
  "dict_item (sorted_dict (state_payload e)) ''state'' = Inr (JStr (state_value (e_state e)))"
  "dict_int (sorted_dict (state_payload e)) ''state_version'' = Inr (e_version e)"
  "map_of (sorted_dict (state_payload e)) ''containment_sequence'' = Some (sort_keys (e_containment e))"
  "map_of (sorted_dict (state_payload e)) ''recovery_sequence'' = Some (sort_keys (e_recovery e))"
  "map_of (sorted_dict (state_payload e)) ''used_nonces'' =
     Some (sort_keys (JObj (map (\<lambda>(n, expiry). (n, JInt expiry)) (sort_key fst (e_nonces e)))))"
  using map_of_sorted_dict [OF distinct_payload [of e]]
  by (simp_all add: dict_item_def dict_int_def) (simp_all add: state_payload_def)

lemma readable_payload:
  assumes "engine_inv e"
  shows "readable_state (state_payload_text (state_payload e)) = Inr (sorted_dict (state_payload e))"
proof -
  have "json_loads (state_payload_text (state_payload e)) = Some (JObj (sorted_dict (state_payload e)))"
    unfolding state_payload_text_def sort_keys_JObj [symmetric]
    using wf_payload [OF assms] by (rule loads_indent2) (simp add: is_ws_def)
  then show ?thesis
    by (simp add: readable_state_def payload_items)
qed

lemma load_persisted:
  assumes "engine_inv e" "persisted e" "e_state_file e' = e_state_file e" "au_text (e_audit e') = au_text (e_audit e)"
  shows "load_state e' = Inr (Loaded (sorted_dict (state_payload e)))"
  using assms readable_payload [OF assms(1)] state_digest_sorted [of "state_payload e"]
  by (simp add: load_state_def persisted_def state_digest_def)

section \<open>Starting again\<close>

text \<open>What a restart finds: the files, and a clock.\<close>

definition restart :: "(nat \<Rightarrow> int) \<Rightarrow> engine \<Rightarrow> engine" where
  "restart clk e = e\<lparr>e_audit := (e_audit e)\<lparr>au_clock := clk, au_ticks := 0, au_last_hash := zero_hash\<rparr>\<rparr>"

text \<open>The engine at the point where \<open>__init__\<close> loads the state.\<close>

definition booting :: "engine \<Rightarrow> audit_log \<Rightarrow> engine" where
  "booting e au = e\<lparr>e_audit := au,
     e_analyzer := \<lparr>an_config = default_config (blocks (e_journal e)), an_window = [], an_written_blocks = Map.empty,
       an_recent_reads = [], an_last_write_end = None\<rparr>,
     e_state := BOOT_SELFTEST, e_version := 0, e_containment := JNull, e_recovery := JNull, e_nonces := []\<rparr>"

lemma booting_frame [simp]:
  "e_audit (booting e au) = au" "e_journal (booting e au) = e_journal e" "e_state_file (booting e au) = e_state_file e"
  "e_policy (booting e au) = e_policy e" "e_state (booting e au) = BOOT_SELFTEST" "e_version (booting e au) = 0"
  "e_containment (booting e au) = JNull" "e_recovery (booting e au) = JNull" "e_nonces (booting e au) = []"
  by (simp_all add: booting_def)

definition bootable :: "engine \<Rightarrow> bool" where
  "bootable e \<longleftrightarrow> 1 \<le> blocks (e_journal e) \<and> recovered_tail (e_journal e) = None"

lemma boot_eq:
  assumes "open_audit (e_audit e) = Inr au" "bootable e"
  shows "boot e = (case load_state (booting e au) of
      Inl x \<Rightarrow> (Inl x, booting e au)
    | Inr (Untrusted reason) \<Rightarrow> (Inr (), enter_fault (''engine state could not be trusted: '' @ reason) (booting e au))
    | Inr (Loaded d) \<Rightarrow> restore d (booting e au)
    | Inr NoState \<Rightarrow> transition NORMAL ''self-test complete'' (booting e au))"
proof -
  have "new_analyzer (default_config (blocks (e_journal e))) =
      Inr \<lparr>an_config = default_config (blocks (e_journal e)), an_window = [], an_written_blocks = Map.empty,
        an_recent_reads = [], an_last_write_end = None\<rparr>"
    using assms(2) by (simp add: bootable_def new_analyzer_def default_config_def)
  then show ?thesis
    using assms by (simp add: boot_def bootable_def Let_def booting_def [of e au, symmetric])
qed

definition reopened :: "(nat \<Rightarrow> int) \<Rightarrow> engine \<Rightarrow> audit_log" where
  "reopened clk e = (e_audit e)\<lparr>au_clock := clk, au_ticks := 0\<rparr>"

lemma boot_restart:
  assumes "audit_rel (e_audit e) es" "bootable e"
  shows "boot (restart clk e) = (case load_state (booting (restart clk e) (reopened clk e)) of
      Inl x \<Rightarrow> (Inl x, booting (restart clk e) (reopened clk e))
    | Inr (Untrusted reason) \<Rightarrow> (Inr (), enter_fault (''engine state could not be trusted: '' @ reason) (booting (restart clk e) (reopened clk e)))
    | Inr (Loaded d) \<Rightarrow> restore d (booting (restart clk e) (reopened clk e))
    | Inr NoState \<Rightarrow> transition NORMAL ''self-test complete'' (booting (restart clk e) (reopened clk e)))"
proof (rule boot_eq)
  have "audit_rel (reopened clk e) es"
    using assms(1) by (simp add: audit_rel_def reopened_def)
  then show "open_audit (e_audit (restart clk e)) = Inr (reopened clk e)"
    using open_audit_rel [of "reopened clk e" es zero_hash] by (simp add: restart_def reopened_def)
qed (use assms(2) in \<open>simp add: bootable_def restart_def\<close>)

lemma restart_frame [simp]:
  "e_journal (restart clk e) = e_journal e" "e_state_file (restart clk e) = e_state_file e"
  "au_text (reopened clk e) = au_text (e_audit e)" "e_policy (restart clk e) = e_policy e"
  by (simp_all add: restart_def reopened_def)

lemma enter_fault_state [simp]:
  "e_state (enter_fault r e) = FAULT" "e_version (enter_fault r e) = e_version e + 1" "e_journal (enter_fault r e) = e_journal e"
  by (simp_all add: enter_fault_def Let_def)

text \<open>Pruning the nonces of a loaded state.\<close>

lemma prune_items_ints:
  "list_all (\<lambda>(n, v). \<exists>i. v = JInt i) d \<Longrightarrow>
   \<exists>ns. prune_items d t = Inr ns \<and> set ns = {(n, x). (n, JInt x) \<in> set d \<and> t < x}"
proof (induction d)
  case (Cons a d)
  obtain n i where a: "a = (n, JInt i)" using Cons.prems by (cases a) auto
  obtain ns where ns: "prune_items d t = Inr ns" "set ns = {(n, x). (n, JInt x) \<in> set d \<and> t < x}"
    using Cons by auto
  show ?case using a ns by auto
qed simp

lemma loaded_nonces:
  "\<exists>ns. prune_loaded (sort_keys (JObj (map (\<lambda>(n, expiry). (n, JInt expiry)) (sort_key fst (e_nonces e))))) t = Inr ns \<and>
     set ns = {(n, x) \<in> set (e_nonces e). t < x}"
proof -
  let ?d = "sort_key fst (map (\<lambda>kv. (fst kv, sort_keys (snd kv))) (map (\<lambda>(n, expiry). (n, JInt expiry)) (sort_key fst (e_nonces e))))"
  have sd: "set ?d = (\<lambda>(n, x). (n, JInt x)) ` set (e_nonces e)"
    by (auto simp: image_image case_prod_unfold)
  then have "list_all (\<lambda>(n, v). \<exists>i. v = JInt i) ?d" by (auto simp: list_all_iff)
  then obtain ns where "prune_items ?d t = Inr ns" "set ns = {(n, x). (n, JInt x) \<in> set ?d \<and> t < x}"
    using prune_items_ints by blast
  then show ?thesis unfolding sd by (intro exI [of _ ns]) (auto simp: prune_loaded_def)
qed

lemma keys_prune_items: "prune_items d t = Inr ns \<Longrightarrow> distinct (keys d) \<Longrightarrow> set (keys ns) \<subseteq> set (keys d) \<and> distinct (keys ns)"
proof (induction d arbitrary: ns)
  case (Cons a d)
  obtain n v where a: "a = (n, v)" by (cases a)
  obtain x rest where r: "prune_items d t = Inr rest" "ns = (if t < x then (n, x) # rest else rest)"
    using Cons.prems(1) by (auto simp: a bind_res_Inr_conv)
  have "set (keys rest) \<subseteq> set (keys d) \<and> distinct (keys rest)"
    using Cons r(1) by simp
  then show ?case using Cons.prems(2) by (auto simp: a r(2))
qed simp

lemma keys_loaded:
  assumes "prune_loaded (sort_keys (JObj (map (\<lambda>(n, expiry). (n, JInt expiry)) (sort_key fst ns0)))) t = Inr ns"
    and "distinct (keys ns0)"
  shows "distinct (keys ns)"
proof -
  let ?d = "map (\<lambda>(n, expiry). (n, JInt expiry)) (sort_key fst ns0)"
  have "distinct (keys ?d)" unfolding keys_map_sort using assms(2) distinct_keys_sort by blast
  then have "distinct (keys (sorted_dict ?d))" unfolding sorted_dict_def distinct_keys_sort by (simp only: map_map comp_def fst_conv)
  then show ?thesis
    using assms(1) keys_prune_items [of "sorted_dict ?d" t ns] by (simp add: prune_loaded_def sort_keys_JObj del: sort_keys.simps)
qed

text \<open>What \<open>__init__\<close> does with the state a file holds.\<close>

lemma restore_saved:
  assumes inv: "engine_inv e0" and b: "engine_inv b"
  obtains e' where "restore (sorted_dict (state_payload e0)) b = (Inr (), e')" "engine_inv e'"
    "e_state e' = e_state e0" "e_version e' = e_version e0" "e_containment e' = e_containment e0" "e_recovery e' = e_recovery e0"
    "e_journal e' = e_journal b" "e_state_file e' = e_state_file b"
    "set (e_nonces e') = {(n, x) \<in> set (e_nonces e0). engine_seconds b < x}"
    "e_audit e' = snd (audit_append ''engine_restored'' [(''state'', JStr (state_value (e_state e0))),
       (''state_version'', JInt (e_version e0)), (''containment_sequence'', e_containment e0)] (tick (e_audit b)))"
proof -
  let ?d = "sorted_dict (state_payload e0)"
  have sc: "sort_keys (e_containment e0) = e_containment e0" "sort_keys (e_recovery e0) = e_recovery e0"
    and wf: "wf_json (e_containment e0)"
    using inv scalar_simps by (auto simp: engine_inv_def)
  define b1 where "b1 = b\<lparr>e_state := e_state e0, e_version := e_version e0, e_containment := e_containment e0, e_recovery := e_recovery e0\<rparr>"
  have sec: "engine_seconds b1 = engine_seconds b" by (simp add: b1_def engine_seconds_def)
  obtain ns where ns: "prune_loaded (sort_keys (JObj (map (\<lambda>(n, expiry). (n, JInt expiry)) (sort_key fst (e_nonces e0)))))
      (engine_seconds b) = Inr ns" "set ns = {(n, x) \<in> set (e_nonces e0). engine_seconds b < x}"
    using loaded_nonces by blast
  have dist: "distinct (keys ns)" using keys_loaded [OF ns(1)] inv by (simp add: engine_inv_def)
  let ?e' = "log_event ''engine_restored''
      [(''state'', JStr (state_value (e_state e0))), (''state_version'', JInt (e_version e0)), (''containment_sequence'', e_containment e0)]
      ((engine_tick b1)\<lparr>e_nonces := ns\<rparr>)"
  have eq: "restore ?d b = (Inr (), ?e')"
    unfolding restore_def payload_items bind_res_simps json.case state_of_value sum.case option.case Let_def sc
    unfolding b1_def [symmetric] sec ns(1) sum.case by (simp add: b1_def)
  have "engine_inv ((engine_tick b1)\<lparr>e_nonces := ns\<rparr>)"
    using inv b dist by (simp add: engine_inv_def b1_def tick_def audit_rel_def)
  then have "engine_inv ?e'" using wf by (intro engine_inv_log) simp_all
  then show thesis using ns(2) by (intro that [OF eq]) (simp_all add: b1_def)
qed

section \<open>What every method keeps\<close>

definition good_repr :: "(real \<Rightarrow> string) \<Rightarrow> bool" where
  "good_repr frepr \<longleftrightarrow> (\<forall>x. float_lexeme (frepr x))"

lemma wf_decision: "good_repr frepr \<Longrightarrow> wf_json (decision_json frepr d)"
  by (simp add: decision_json_def feature_json_def good_repr_def list_all_iff)

lemma engine_inv_fields:
  "engine_inv e \<Longrightarrow> scalar c \<Longrightarrow> engine_inv (e\<lparr>e_containment := c\<rparr>)"
  "engine_inv e \<Longrightarrow> scalar c \<Longrightarrow> engine_inv (e\<lparr>e_recovery := c\<rparr>)"
  "engine_inv e \<Longrightarrow> engine_inv (e\<lparr>e_nonces := AList.update n x (e_nonces e)\<rparr>)"
  by (simp_all add: engine_inv_def AList.distinct_update)

lemma engine_inv_verify: "engine_inv (snd (engine_verify ed tok act now e)) = engine_inv e"
  by (simp add: engine_verify_def split: option.splits)

end
