(* ===== verification/Gated_Service.thy ===== *)
theory Gated_Service
  imports Main
begin

text \<open>
  The contract of a gate: as long as no request carries a key, a state inside stays inside and what is
  visible of it does not change. Served one after the other, any requests keep the state inside and
  unchanged up to the first that carries a key. The engine's methods and the daemon's three doors are
  gates of a contained device.
\<close>

locale gate =
  fixes serve :: "'r \<Rightarrow> 's \<Rightarrow> 's" and inside :: "'s \<Rightarrow> bool" and view :: "'s \<Rightarrow> 'v" and key :: "'s \<Rightarrow> 'r \<Rightarrow> bool"
  assumes stays: "inside s \<Longrightarrow> \<not> key s r \<Longrightarrow> inside (serve r s)"
    and keeps: "inside s \<Longrightarrow> \<not> key s r \<Longrightarrow> view (serve r s) = view s"
begin

definition serve_all :: "'r list \<Rightarrow> 's \<Rightarrow> 's" where
  "serve_all rs s = foldl (\<lambda>s r. serve r s) s rs"

lemma serve_all_simps [simp]: "serve_all [] s = s" "serve_all (r # rs) s = serve_all rs (serve r s)"
  by (simp_all add: serve_all_def)

lemma held_until_key:
  assumes "inside s"
  shows "inside (serve_all rs s) \<and> view (serve_all rs s) = view s \<or>
    (\<exists>before r after. rs = before @ r # after \<and> inside (serve_all before s) \<and> view (serve_all before s) = view s \<and>
       key (serve_all before s) r)"
  using assms
proof (induction rs arbitrary: s)
  case (Cons r rs)
  show ?case
  proof (cases "key s r")
    case True
    then show ?thesis using Cons.prems by (intro disjI2 exI [of _ "[]"] exI [of _ r] exI [of _ rs]) simp
  next
    case False
    note s = stays [OF Cons.prems False] and v = keeps [OF Cons.prems False]
    show ?thesis
      using Cons.IH [OF s] unfolding v
    proof (elim disjE exE conjE)
      fix before r' after
      assume "rs = before @ r' # after" "inside (serve_all before (serve r s))" "view (serve_all before (serve r s)) = view s"
        "key (serve_all before (serve r s)) r'"
      then show ?thesis by (intro disjI2 exI [of _ "r # before"] exI [of _ r'] exI [of _ after]) simp
    qed simp
  qed
qed simp

end

end
