(* ===== verification/Engine_Runs.thy ===== *)
theory Engine_Runs
  imports Engine_Restart Gated_Service
begin

text \<open>
  Runs of an engine over its whole life: the first start on a provisioned namespace, calls of its
  methods in any order, and restarts on the files as they are. The invariant of these runs relates
  the state file and the digest in the active audit file to the engine in memory; from it follows
  what a restart does at any point, with the digest still in the active audit file or rotated out of
  it, and after a power cut between the two halves of \<open>_save_state\<close>.
\<close>

section \<open>State file, audit log and memory\<close>

text \<open>The fields a state file holds; a restored engine may have dropped expired nonces.\<close>

definition agrees :: "engine \<Rightarrow> engine \<Rightarrow> bool" where
  "agrees e0 e \<longleftrightarrow> e_state e = e_state e0 \<and> e_version e = e_version e0 \<and> e_containment e = e_containment e0 \<and>
     e_recovery e = e_recovery e0 \<and> set (e_nonces e) \<subseteq> set (e_nonces e0)"

definition recorded :: "engine \<Rightarrow> json option res" where
  "recorded e = recorded_digest (au_text (e_audit e))"

definition synced :: "engine \<Rightarrow> bool" where
  "synced e \<longleftrightarrow> (\<exists>e0. engine_inv e0 \<and> agrees e0 e \<and> e_state_file e = Some (state_payload_text (state_payload e0)) \<and>
     recorded e \<in> {Inr None, Inr (Some (JStr (state_digest (state_payload e0))))})"

definition sound :: "engine \<Rightarrow> bool" where
  "sound e \<longleftrightarrow> engine_inv e \<and> synced e \<and> au_text (e_audit e) \<noteq> []"

lemma append_nonempty [simp]: "au_text (snd (audit_append ev d a)) \<noteq> []"
  by (simp add: audit_append_def append_event_def Let_def event_line_def)

lemma agrees_update [simp]:
  "agrees e0 (e\<lparr>e_journal := j\<rparr>) = agrees e0 e" "agrees e0 (e\<lparr>e_analyzer := an\<rparr>) = agrees e0 e"
  "agrees e0 (engine_tick e) = agrees e0 e" "agrees e0 (log_event ev d e) = agrees e0 e"
  by (simp_all add: agrees_def)

lemma recorded_update [simp]:
  "recorded (e\<lparr>e_journal := j\<rparr>) = recorded e" "recorded (e\<lparr>e_analyzer := an\<rparr>) = recorded e" "recorded (engine_tick e) = recorded e"
  by (simp_all add: recorded_def tick_def)

lemma sound_update [simp]:
  "sound (e\<lparr>e_journal := j\<rparr>) = sound e" "sound (e\<lparr>e_analyzer := an\<rparr>) = sound e" "sound (engine_tick e) = sound e"
  by (simp_all add: sound_def synced_def tick_def)

lemma recorded_log:
  assumes "engine_inv e" "wf_json (JObj d)" "ev \<noteq> state_digest_event"
  shows "recorded (log_event ev d e) = (if needs_rotation (e_audit e) then Inr None else recorded e)"
proof -
  obtain es where rel: "audit_rel (e_audit e) es" using assms(1) by (auto simp: engine_inv_def)
  show ?thesis
  proof (cases "needs_rotation (e_audit e)")
    case True
    have "recorded_digest (au_text (append_event ev d (rotate_log (e_audit e)))) = Inr None"
      using recorded_rel [OF append_event_rel [OF rotate_log_rel assms(2), of ev "e_audit e"]] assms(3)
      by (simp add: entry_digest_def state_digest_event_def)
    then show ?thesis using True by (simp add: recorded_def audit_append_def Let_def)
  next
    case False
    have "recorded_digest (au_text (append_event ev d (e_audit e))) = Inr (foldl entry_digest None es)"
      using recorded_rel [OF append_event_rel [OF rel assms(2), of ev]] assms(3) by (simp add: entry_digest_def)
    then show ?thesis using False recorded_rel [OF rel] by (simp add: recorded_def audit_append_def Let_def)
  qed
qed

lemma sound_log:
  assumes "sound e" "wf_json (JObj d)" "ev \<noteq> state_digest_event"
  shows "sound (log_event ev d e)"
  using assms engine_inv_log [of e d ev] recorded_log [of e d ev]
  by (auto simp: sound_def synced_def simp del: wf_json.simps)

lemma sound_save:
  assumes "engine_inv e"
  shows "sound (save_state e)"
proof -
  have "synced (save_state e)"
    unfolding synced_def using engine_inv_save [OF assms] save_state_persisted [OF assms]
    by (intro exI [of _ "save_state e"]) (auto simp: agrees_def persisted_def recorded_def)
  then show ?thesis by (simp add: sound_def engine_inv_save [OF assms]) (simp add: record_digest_def Let_def)
qed

lemma sound_transition_allowed:
  assumes "engine_inv e" "t \<in> set (allowed (e_state e))"
  shows "sound (snd (transition t r e))"
  using assms by (auto simp: transition_def Let_def intro!: sound_save engine_inv_log)

lemma sound_inv: "sound e \<Longrightarrow> engine_inv e"
  by (simp add: sound_def)

lemma sound_transition:
  assumes "sound e"
  shows "sound (snd (transition t r e))"
proof (cases "t \<in> set (allowed (e_state e))")
  case True
  then show ?thesis using assms by (intro sound_transition_allowed sound_inv)
next
  case False
  then show ?thesis using assms by (simp add: transition_def)
qed

section \<open>Every method keeps the invariant\<close>

lemma sound_react:
  assumes "sound e" "writes_allowed (e_state e)"
  shows "sound (snd (react d seq e))"
proof -
  have "CONTAINED \<in> set (allowed (e_state (e\<lparr>e_containment := JInt seq\<rparr>)))"
    using assms(2) by (auto simp: writes_allowed_def)
  moreover have "engine_inv (e\<lparr>e_containment := JInt seq\<rparr>)"
    using assms(1) by (intro engine_inv_fields) (simp_all add: sound_inv)
  ultimately show ?thesis
    using assms(1) sound_transition_allowed by (simp add: react_def bind_return_snd sound_transition)
qed

lemma sound_write:
  assumes "sound e" "good_repr frepr"
  shows "sound (snd (engine_write frepr lba payload e))"
proof -
  have log: "sound (log_event ''write_persisted'' [(''lba'', JInt lba), (''blocks'', JInt n), (''sequence'', JInt seq),
      (''decision'', decision_json frepr d)] ((engine_tick e)\<lparr>e_journal := j, e_analyzer := an\<rparr>))" for n seq d j an
    using assms(1) wf_decision [OF assms(2)] by (intro sound_log) (simp_all add: state_digest_event_def)
  show ?thesis
    using assms(1)
    by (auto simp: engine_write_def Let_def writes_allowed_def split: if_splits sum.splits prod.splits intro!: sound_react log)
qed

lemma sound_reject:
  assumes "sound e"
  shows "sound (snd (reject_destructive_command opcode name e))"
proof -
  have log: "sound (log_event ''destructive_command_rejected'' [(''opcode'', JInt opcode), (''name'', JStr name)]
      ((engine_tick e)\<lparr>e_analyzer := an\<rparr>))" for an
    using assms by (intro sound_log) (simp_all add: state_digest_event_def)
  show ?thesis
    using assms log
    by (auto simp: reject_destructive_command_def Let_def bind_return_snd split: if_splits sum.splits prod.splits
        intro!: sound_transition_allowed engine_inv_fields dest: sound_inv)
qed

lemma sound_verify: "sound (snd (engine_verify ed tok act now e)) = sound e"
  by (simp add: engine_verify_def split: option.splits)

lemma sound_authorize:
  assumes "sound e"
  shows "sound (snd (authorize_recovery ed token presence now e))"
proof -
  obtain r e1 where v: "engine_verify ed token ''enter_recovery_read_only'' now e = (r, e1)" by fastforce
  have i: "sound e1" using sound_verify [of ed token "''enter_recovery_read_only''" now e] assms v by simp
  have "engine_inv (e1\<lparr>e_nonces := AList.update n x (e_nonces e1), e_recovery := JInt target\<rparr>)" for n x target
    using sound_inv [OF i] by (intro engine_inv_fields) simp_all
  then show ?thesis
    using assms i v by (cases r) (auto simp: authorize_recovery_def bind_op_def split: option.splits intro!: sound_transition sound_save)
qed

lemma sound_maintain:
  assumes "sound e"
  shows "sound (snd (enter_maintenance ed token presence now e))"
proof -
  obtain r e1 where v: "engine_verify ed token ''enter_maintenance'' now e = (r, e1)" by fastforce
  have i: "sound e1" using sound_verify [of ed token "''enter_maintenance''" now e] assms v by simp
  have "engine_inv (e1\<lparr>e_nonces := AList.update n x (e_nonces e1)\<rparr>)" for n x
    using sound_inv [OF i] by (intro engine_inv_fields)
  then show ?thesis
    using assms i v by (cases r) (auto simp: enter_maintenance_def bind_op_def intro!: sound_transition sound_save)
qed

lemma sound_compact:
  assumes "sound e"
  shows "sound (snd (compact_journal prefix e))"
proof -
  have "engine_inv ((engine_tick e)\<lparr>e_journal := j, e_containment := JNull, e_recovery := JNull\<rparr>)" for j
    using sound_inv [OF assms] by (intro engine_inv_fields) simp_all
  then have "sound (log_event ''journal_compacted'' [(''snapshot_name'', JStr name)]
      (save_state ((engine_tick e)\<lparr>e_journal := j, e_containment := JNull, e_recovery := JNull\<rparr>)))" for name j
    by (intro sound_log sound_save) (simp_all add: state_digest_event_def)
  then show ?thesis
    using assms by (auto simp: compact_journal_def Let_def split: prod.splits sum.splits)
qed

lemma sound_exit:
  assumes "sound e"
  shows "sound (snd (exit_maintenance do_compact e))"
proof -
  let ?e1 = "snd (exit_compaction do_compact e)"
  have i: "sound ?e1" "e_state ?e1 = e_state e"
    using assms by (simp_all add: exit_compaction_snd compact_journal_state sound_compact)
  then have "engine_inv (?e1\<lparr>e_containment := JNull, e_recovery := JNull\<rparr>)"
    using sound_inv by (intro engine_inv_fields) simp_all
  then show ?thesis
    using assms i by (auto simp: exit_maintenance_snd split: sum.splits intro!: sound_transition_allowed)
qed

lemma sound_flush: "sound e \<Longrightarrow> sound (snd (engine_flush e))"
  by (auto simp: engine_flush_def state_digest_event_def intro!: sound_log)

lemma sound_read: "sound e \<Longrightarrow> sound (snd (engine_read lba n e))"
  by (auto simp: engine_read_def Let_def split: prod.splits sum.splits)

lemma sound_call:
  assumes "sound e" "good_repr frepr"
  shows "sound (snd (call frepr ed op e))"
  by (cases op) (use assms in \<open>simp_all add: sound_read sound_write sound_flush sound_reject sound_authorize sound_maintain sound_exit sound_compact\<close>)

section \<open>The journal along a run\<close>

lemma reachable_compact: "reachable (e_journal e) \<Longrightarrow> reachable (e_journal (snd (compact_journal prefix e)))"
  using reachable.compacted [of "e_journal e" "prefix @ ''-'' @ show_int (engine_ns e)"]
  by (auto simp: compact_journal_def Let_def split: prod.splits sum.splits)

lemma journal_react [simp]: "e_journal (snd (react d seq e)) = e_journal e"
  by (simp add: react_def bind_return_snd)

lemma reachable_write: "reachable (e_journal e) \<Longrightarrow> reachable (e_journal (snd (engine_write frepr lba payload e)))"
  using reachable.appended [of "e_journal e" lba payload]
  by (auto simp: engine_write_def Let_def split: prod.splits sum.splits)

lemma reachable_call:
  assumes "reachable (e_journal e)"
  shows "reachable (e_journal (snd (call frepr ed op e)))"
proof (cases op)
  case (Op_Write lba payload)
  then show ?thesis using reachable_write [OF assms] by simp
next
  case (Op_Authorize token presence now)
  then show ?thesis
    using assms engine_verify_frame(1) [of ed token "''enter_recovery_read_only''" now e]
    by (auto simp: authorize_recovery_def bind_op_def split: prod.splits sum.splits option.splits)
next
  case (Op_Maintain token presence now)
  then show ?thesis
    using assms engine_verify_frame(1) [of ed token "''enter_maintenance''" now e]
    by (auto simp: enter_maintenance_def bind_op_def split: prod.splits sum.splits)
next
  case (Op_Exit do_compact)
  then show ?thesis
    using assms reachable_compact [OF assms] by (auto simp: exit_maintenance_snd exit_compaction_snd split: sum.splits)
next
  case (Op_Compact prefix)
  then show ?thesis using reachable_compact [OF assms] by simp
qed (use assms in \<open>auto simp: engine_read_def engine_flush_def reject_destructive_command_def Let_def bind_return_snd
      split: prod.splits sum.splits\<close>)

section \<open>A contained engine as a gate\<close>

lemma held_call:
  assumes "reachable (e_journal e)" "e_state e = CONTAINED" "e_state (snd (call frepr ed op e)) = CONTAINED"
  shows "jimage (e_journal (snd (call frepr ed op e))) = jimage (e_journal e)" "reachable (e_journal (snd (call frepr ed op e)))"
  using assms by (simp_all add: frozen_call reachable_call del: call.simps)

text \<open>A call that presents an accepted token at the device.\<close>

definition exit_call :: "(bytes \<Rightarrow> bytes \<Rightarrow> bool) \<Rightarrow> engine \<Rightarrow> engine_op \<Rightarrow> bool" where
  "exit_call ed e op \<longleftrightarrow>
     (\<exists>token now a action.
        (op = Op_Authorize token True now \<and> action = ''enter_recovery_read_only'' \<or>
         op = Op_Maintain token True now \<and> action = ''enter_maintenance'') \<and>
        token_verify ed token (device_id (e_journal e)) action (e_version e) (verify_time now e) = Inr a \<and>
        ra_nonce a \<notin> set (keys (e_nonces e)))"

lemma contained_call:
  assumes "reachable (e_journal e) \<and> e_state e = CONTAINED" "\<not> exit_call ed e op"
  shows "reachable (e_journal (snd (call frepr ed op e))) \<and> e_state (snd (call frepr ed op e)) = CONTAINED"
    "jimage (e_journal (snd (call frepr ed op e))) = jimage (e_journal e)"
proof -
  have "e_state (snd (call frepr ed op e)) = CONTAINED"
    using exit_authorized [of e frepr ed op] assms unfolding exit_call_def by blast
  then show "reachable (e_journal (snd (call frepr ed op e))) \<and> e_state (snd (call frepr ed op e)) = CONTAINED"
    "jimage (e_journal (snd (call frepr ed op e))) = jimage (e_journal e)" using held_call assms(1) by blast+
qed

interpretation calls: gate "\<lambda>op e. snd (call frepr ed op e)" "\<lambda>e. reachable (e_journal e) \<and> e_state e = CONTAINED"
  "\<lambda>e. jimage (e_journal e)" "exit_call ed" for frepr ed
  by unfold_locales (rule contained_call; assumption)+

text \<open>Over any calls a contained engine stays contained and its image the same, up to the first that presents an accepted token.\<close>

theorem contained_until_exit:
  assumes "reachable (e_journal e)" "e_state e = CONTAINED"
  shows "e_state (run_ops frepr ed e ops) = CONTAINED \<and> jimage (e_journal (run_ops frepr ed e ops)) = jimage (e_journal e) \<or>
    (\<exists>before op after. ops = before @ op # after \<and> e_state (run_ops frepr ed e before) = CONTAINED \<and>
       jimage (e_journal (run_ops frepr ed e before)) = jimage (e_journal e) \<and> exit_call ed (run_ops frepr ed e before) op)"
proof -
  have "calls.serve_all frepr ed ops e = run_ops frepr ed e ops" for ops by (simp add: calls.serve_all_def run_ops_def)
  then show ?thesis using calls.held_until_key [where s = e and rs = ops and frepr = frepr and ed = ed] assms by simp blast
qed

section \<open>The size limit along a run\<close>

definition audit_limit :: "engine \<Rightarrow> int" where
  "audit_limit e = au_max_bytes (e_audit e)"

lemma audit_append_limit [simp]: "au_max_bytes (snd (audit_append ev d a)) = au_max_bytes a"
  by (simp add: audit_append_def append_event_def rotate_log_def Let_def tick_def)

lemma limit_frame [simp]:
  "audit_limit (log_event ev d e) = audit_limit e" "audit_limit (engine_tick e) = audit_limit e" "audit_limit (e\<lparr>e_journal := j\<rparr>) = audit_limit e"
  "audit_limit (e\<lparr>e_analyzer := an\<rparr>) = audit_limit e" "audit_limit (e\<lparr>e_state := s\<rparr>) = audit_limit e" "audit_limit (e\<lparr>e_version := v\<rparr>) = audit_limit e"
  "audit_limit (e\<lparr>e_containment := c\<rparr>) = audit_limit e" "audit_limit (e\<lparr>e_recovery := r\<rparr>) = audit_limit e" "audit_limit (e\<lparr>e_nonces := ns\<rparr>) = audit_limit e"
  "audit_limit (e\<lparr>e_state_file := f\<rparr>) = audit_limit e"
  by (simp_all add: audit_limit_def tick_def)

lemma limit_save [simp]: "audit_limit (save_state e) = audit_limit e"
  by (simp add: save_state_def write_state_file_def record_digest_def Let_def)

lemma limit_transition [simp]: "audit_limit (snd (transition t r e)) = audit_limit e"
  by (simp add: transition_def Let_def)

lemma limit_fault [simp]: "audit_limit (enter_fault r e) = audit_limit e"
  by (simp add: enter_fault_def Let_def)

lemma limit_verify: "audit_limit (snd (engine_verify ed tok act now e)) = audit_limit e"
  by (simp add: engine_verify_def split: option.splits)

lemma limit_react [simp]: "audit_limit (snd (react d seq e)) = audit_limit e"
  by (simp add: react_def bind_return_snd)

lemma limit_compact [simp]: "audit_limit (snd (compact_journal prefix e)) = audit_limit e"
  by (auto simp: compact_journal_def Let_def split: prod.splits sum.splits)

lemma limit_exit [simp]: "audit_limit (snd (exit_maintenance do_compact e)) = audit_limit e"
  by (auto simp: exit_maintenance_snd exit_compaction_snd split: sum.splits)

lemma limit_authorize [simp]: "audit_limit (snd (authorize_recovery ed token presence now e)) = audit_limit e"
  using limit_verify [of ed token "''enter_recovery_read_only''" now e]
  by (auto simp: authorize_recovery_def bind_op_def split: prod.splits sum.splits option.splits)

lemma limit_maintain [simp]: "audit_limit (snd (enter_maintenance ed token presence now e)) = audit_limit e"
  using limit_verify [of ed token "''enter_maintenance''" now e]
  by (auto simp: enter_maintenance_def bind_op_def split: prod.splits sum.splits)

lemma limit_call: "audit_limit (snd (call frepr ed op e)) = audit_limit e"
  by (cases op) (auto simp: engine_read_def engine_write_def engine_flush_def reject_destructive_command_def Let_def bind_return_snd
      split: prod.splits sum.splits)

lemma limit_restore: "audit_limit (snd (restore d e)) = audit_limit e"
  by (auto simp: restore_def Let_def split: sum.splits)

section \<open>Runs\<close>

text \<open>
  A restart: the journal is opened from its files, the clock is new, and \<open>__init__\<close> runs on the audit
  log and the state file as they are. Between the calls others read the clock, change the directory of
  snapshots and write events of their own to the audit log, as the routes of the API do.
\<close>

definition power_cycle :: "(nat \<Rightarrow> int) \<Rightarrow> (engine, unit) oper" where
  "power_cycle clk e =
     (case open_journal (j_files (e_journal e)) (j_snapshots (e_journal e)) of
        Inl x \<Rightarrow> (Inl x, e)
      | Inr j \<Rightarrow> boot (restart clk (e\<lparr>e_journal := j\<rparr>)))"

inductive engine_reachable :: "(real \<Rightarrow> string) \<Rightarrow> (bytes \<Rightarrow> bytes \<Rightarrow> bool) \<Rightarrow> engine \<Rightarrow> bool" for frepr ed where
  first: "reachable (e_journal e) \<Longrightarrow> e_state_file e = None \<Longrightarrow> au_text (e_audit e) = [] \<Longrightarrow>
    au_max_bytes (e_audit e) = default_max_bytes \<Longrightarrow> boot e = (Inr (), e') \<Longrightarrow> engine_reachable frepr ed e'"
| call: "engine_reachable frepr ed e \<Longrightarrow> engine_reachable frepr ed (snd (call frepr ed op e))"
| cycle: "engine_reachable frepr ed e \<Longrightarrow> power_cycle clk e = (Inr (), e') \<Longrightarrow> engine_reachable frepr ed e'"
| ticked: "engine_reachable frepr ed e \<Longrightarrow> engine_reachable frepr ed (engine_tick e)"
| relisted: "engine_reachable frepr ed e \<Longrightarrow> engine_reachable frepr ed (e\<lparr>e_journal := (e_journal e)\<lparr>j_snapshots := snaps\<rparr>\<rparr>)"
| noted: "engine_reachable frepr ed e \<Longrightarrow> wf_json (JObj d) \<Longrightarrow> ev \<noteq> state_digest_event \<Longrightarrow>
    engine_reachable frepr ed (log_event ev d e)"

lemma blocks_frame:
  "blocks (snd (journal_append b d j)) = blocks j" "blocks (snd (snapshot name s j)) = blocks j"
  "blocks (snd (journal_compact name j)) = blocks j"
proof -
  show "blocks (snd (journal_append b d j)) = blocks j"
    by (auto simp: journal_append_def Let_def split: sum.splits)
  show s: "blocks (snd (snapshot name s j)) = blocks j" for s
    by (auto simp: snapshot_def Let_def put_snapshot_def split: sum.splits)
  show "blocks (snd (journal_compact name j)) = blocks j"
    using s [of None] by (auto simp: journal_compact_def bind_op_def split: sum.splits prod.splits)
qed

lemma reachable_blocks: "reachable j \<Longrightarrow> 1 \<le> blocks j"
proof (induction rule: reachable.induct)
  case (provisioned uuid nb bs dev j)
  then have p: "1 \<le> nb" "512 \<le> bs" "bs AND (bs - 1) = 0"
    by (auto simp: provision_def split: if_splits)
  show ?case using provision_rel [OF p, of uuid dev] provisioned p(1) by auto
next
  case (reopened j snaps j')
  then show ?case using reopen [OF reachable_rel [OF reopened(1)], of snaps] by auto
next
  case (torn j k w snaps j')
  then show ?case
    using open_torn [OF reachable_rel [OF torn(1)] torn(2,3) refl, of snaps] by (auto simp: set_aside_def)
qed (simp_all add: blocks_frame)

text \<open>What \<open>__init__\<close> does before it loads the state.\<close>

definition tail_event :: "journal \<Rightarrow> engine \<Rightarrow> engine" where
  "tail_event j e = (case recovered_tail j of
     None \<Rightarrow> e
   | Some r \<Rightarrow> log_event ''journal_tail_recovered''
       [(''bytes_discarded'', JInt (int (tr_bytes_discarded r))), (''reason'', JStr (tr_reason r)),
        (''preserved_as'', JStr (tr_sidecar r))] e)"

lemma tail_event_frame [simp]:
  "e_journal (tail_event j e) = e_journal e" "e_state_file (tail_event j e) = e_state_file e"
  "e_state (tail_event j e) = e_state e" "e_version (tail_event j e) = e_version e"
  by (simp_all add: tail_event_def split: option.splits)

lemma engine_inv_tail: "engine_inv e \<Longrightarrow> engine_inv (tail_event j e)"
  by (auto simp: tail_event_def split: option.splits intro!: engine_inv_log)

lemma boot_general:
  assumes "open_audit (e_audit e) = Inr au" "1 \<le> blocks (e_journal e)"
  shows "boot e = (let b = tail_event (e_journal e) (booting e au) in case load_state b of
      Inl x \<Rightarrow> (Inl x, b)
    | Inr (Untrusted reason) \<Rightarrow> (Inr (), enter_fault (''engine state could not be trusted: '' @ reason) b)
    | Inr (Loaded d) \<Rightarrow> restore d b
    | Inr NoState \<Rightarrow> transition NORMAL ''self-test complete'' b)"
proof -
  have "new_analyzer (default_config (blocks (e_journal e))) =
      Inr \<lparr>an_config = default_config (blocks (e_journal e)), an_window = [], an_written_blocks = Map.empty,
        an_recent_reads = [], an_last_write_end = None\<rparr>"
    using assms(2) by (simp add: new_analyzer_def default_config_def)
  then show ?thesis
    using assms(1) by (simp add: boot_def booting_def tail_event_def Let_def)
qed

lemma engine_inv_booting: "audit_rel au es \<Longrightarrow> engine_inv (booting e au)"
  by (auto simp: engine_inv_def)

lemma first_boot:
  assumes "1 \<le> blocks (e_journal e)" "e_state_file e = None" "au_text (e_audit e) = []"
  obtains b where "boot e = transition NORMAL ''self-test complete'' b" "engine_inv b" "e_state b = BOOT_SELFTEST"
    "e_journal b = e_journal e" "e_version b = 0" "audit_limit b = audit_limit e"
proof -
  define au where "au = (e_audit e)\<lparr>au_last_hash := zero_hash\<rparr>"
  have op: "open_audit (e_audit e) = Inr au" and rel: "audit_rel au []"
    using assms(3) by (simp_all add: au_def open_audit_def audit_verify_def verify_text_def audit_rel_def)
  let ?b = "tail_event (e_journal e) (booting e au)"
  have inv: "engine_inv ?b" by (intro engine_inv_tail engine_inv_booting [OF rel])
  have "recorded (booting e au) = Inr None" using recorded_rel [OF rel] by (simp add: recorded_def)
  then have "recorded ?b = Inr None"
    using recorded_log [OF engine_inv_booting [OF rel]]
    by (simp add: tail_event_def state_digest_event_def split: option.splits)
  then have "load_state ?b = Inr NoState"
    using assms(2) by (simp add: load_state_def recorded_def)
  then show thesis
    using boot_general [OF op assms(1)] inv
    by (intro that [of ?b]) (simp_all add: Let_def tail_event_def audit_limit_def au_def split: option.splits)
qed

section \<open>One restart\<close>

text \<open>Opening the journal and the audit log of a sound engine, up to the point where the state is loaded.\<close>

definition woken :: "(nat \<Rightarrow> int) \<Rightarrow> engine \<Rightarrow> engine" where
  "woken clk e = booting (restart clk (e\<lparr>e_journal := (e_journal e)\<lparr>recovered_tail := None\<rparr>\<rparr>)) (reopened clk e)"

lemma woken_frame [simp]:
  "e_journal (woken clk e) = (e_journal e)\<lparr>recovered_tail := None\<rparr>" "e_state_file (woken clk e) = e_state_file e"
  "recorded (woken clk e) = recorded e" "audit_limit (woken clk e) = audit_limit e" "e_state (woken clk e) = BOOT_SELFTEST" "e_version (woken clk e) = 0"
  by (simp_all add: woken_def recorded_def audit_limit_def reopened_def)

lemma woken_seconds: "engine_seconds (woken clk e) = clk 0 div 1000000000"
  by (simp add: woken_def engine_seconds_def time_ns_def reopened_def)

lemma woken_inv: "engine_inv e \<Longrightarrow> engine_inv (woken clk e)"
  by (auto simp: engine_inv_def woken_def reopened_def audit_rel_def)

lemma power_cycle_eq:
  assumes "engine_inv e" "reachable (e_journal e)"
  shows "power_cycle clk e = (case load_state (woken clk e) of
      Inl x \<Rightarrow> (Inl x, woken clk e)
    | Inr (Untrusted reason) \<Rightarrow> (Inr (), enter_fault (''engine state could not be trusted: '' @ reason) (woken clk e))
    | Inr (Loaded d) \<Rightarrow> restore d (woken clk e)
    | Inr NoState \<Rightarrow> transition NORMAL ''self-test complete'' (woken clk e))"
proof -
  let ?j = "e_journal e"
  let ?e = "e\<lparr>e_journal := ?j\<lparr>recovered_tail := None\<rparr>\<rparr>"
  have op: "open_journal (j_files ?j) (j_snapshots ?j) = Inr (?j\<lparr>recovered_tail := None\<rparr>)"
    using reopen [OF reachable_rel [OF assms(2)], of "j_snapshots ?j"] by simp
  obtain es where rel: "audit_rel (e_audit ?e) es" using assms(1) by (auto simp: engine_inv_def)
  have b: "bootable ?e" using reachable_blocks [OF assms(2)] by (simp add: bootable_def)
  have w: "booting (restart clk ?e) (reopened clk ?e) = woken clk e"
    by (simp add: woken_def reopened_def)
  show ?thesis
    using boot_restart [OF rel b, of clk] unfolding w by (simp only: power_cycle_def op sum.case)
qed

text \<open>What \<open>_load_state\<close> returns for a file written by \<open>_save_state\<close>, by the digest on record.\<close>

lemma load_saved:
  assumes "engine_inv e0" "engine_inv e" "e_state_file e = Some (state_payload_text (state_payload e0))"
  shows "case recorded e of
      Inr (Some r) \<Rightarrow> load_state e = Inr (if r = JStr (state_digest (state_payload e0)) then Loaded (sorted_dict (state_payload e0))
        else Untrusted ''state file digest does not match the audit record'')
    | Inr None \<Rightarrow> load_state e = Inr (if au_text (e_audit e) = [] then Loaded (sorted_dict (state_payload e0))
        else Untrusted ''state file has no matching audit record'')
    | Inl x \<Rightarrow> False"
proof -
  obtain es where rel: "audit_rel (e_audit e) es" using assms(2) by (auto simp: engine_inv_def)
  have r: "recorded e = Inr (foldl entry_digest None es)" using recorded_rel [OF rel] by (simp add: recorded_def)
  have d: "state_digest (sorted_dict (state_payload e0)) = state_digest (state_payload e0)"
    using state_digest_sorted by (simp add: state_digest_def)
  show ?thesis
    using r unfolding load_state_def assms(3) option.case readable_payload [OF assms(1)] sum.case recorded_def [symmetric]
    by (auto simp: d split: option.splits)
qed

lemma sound_fault: "engine_inv e \<Longrightarrow> sound (enter_fault r e)"
  by (auto simp: enter_fault_def Let_def intro!: sound_save engine_inv_log)

lemma cycle_outcome:
  assumes snd: "sound e" and j: "reachable (e_journal e)"
  obtains e' where "power_cycle clk e = (Inr (), e')" "sound e'" "e_journal e' = (e_journal e)\<lparr>recovered_tail := None\<rparr>"
    "audit_limit e' = audit_limit e" "case recorded e of
       Inr (Some r) \<Rightarrow> e_state e' = e_state e \<and> e_version e' = e_version e \<and> e_containment e' = e_containment e \<and>
         e_recovery e' = e_recovery e \<and> (\<forall>(n, x) \<in> set (e_nonces e). clk 0 div 1000000000 < x \<longrightarrow> (n, x) \<in> set (e_nonces e'))
     | _ \<Rightarrow> e_state e' = FAULT \<and> e_version e' = 1"
proof -
  obtain e0 where e0: "engine_inv e0" "agrees e0 e" "e_state_file e = Some (state_payload_text (state_payload e0))"
    and rec: "recorded e \<in> {Inr None, Inr (Some (JStr (state_digest (state_payload e0))))}"
    using snd by (auto simp: sound_def synced_def)
  note inv = sound_inv [OF snd]
  let ?b = "woken clk e"
  have bi: "engine_inv ?b" and ne: "au_text (e_audit ?b) \<noteq> []"
    using woken_inv [OF inv] snd by (simp_all add: sound_def woken_def)
  note cyc = power_cycle_eq [OF inv j, of clk] and ld = load_saved [OF e0(1) bi, simplified, OF e0(3)]
  consider (kept) "recorded e = Inr (Some (JStr (state_digest (state_payload e0))))" | (gone) "recorded e = Inr None"
    using rec by blast
  then show thesis
  proof cases
    case kept
    let ?d = "[(''state'', JStr (state_value (e_state e0))), (''state_version'', JInt (e_version e0)), (''containment_sequence'', e_containment e0)]"
    obtain e' where e': "restore (sorted_dict (state_payload e0)) ?b = (Inr (), e')" "engine_inv e'" "e_state e' = e_state e0"
      "e_version e' = e_version e0" "e_containment e' = e_containment e0" "e_recovery e' = e_recovery e0" "e_journal e' = e_journal ?b"
      "e_state_file e' = e_state_file ?b" "set (e_nonces e') = {(n, x) \<in> set (e_nonces e0). engine_seconds ?b < x}"
      "e_audit e' = snd (audit_append ''engine_restored'' ?d (tick (e_audit ?b)))"
      using e0(1) bi by (rule restore_saved)
    have wf: "wf_json (JObj ?d)" using e0(1) scalar_simps(1) by (simp add: engine_inv_def)
    have "recorded e' = recorded (log_event ''engine_restored'' ?d (engine_tick ?b))" by (simp add: recorded_def e'(10))
    also have "\<dots> \<in> {Inr None, recorded e}"
      using bi by (subst recorded_log [OF _ wf]) (simp_all add: state_digest_event_def)
    finally have "synced e'"
      unfolding synced_def using e0 e' kept by (intro exI [of _ e0]) (auto simp: agrees_def)
    then have "sound e'" using e'(2,10) by (simp add: sound_def)
    moreover have "power_cycle clk e = (Inr (), e')" using cyc ld kept e'(1) by simp
    moreover have "audit_limit e' = audit_limit e" using limit_restore [of "sorted_dict (state_payload e0)" ?b] e'(1) by simp
    ultimately show ?thesis
      using e' e0(2) kept by (intro that [of e']) (auto simp: agrees_def woken_seconds)
  next
    case gone
    let ?e' = "enter_fault (''engine state could not be trusted: '' @ ''state file has no matching audit record'') ?b"
    have "power_cycle clk e = (Inr (), ?e')" using cyc ld gone ne by simp
    then show ?thesis using gone bi by (intro that [of ?e']) (simp_all add: sound_fault)
  qed
qed

lemma life:
  assumes "engine_reachable frepr ed e" "good_repr frepr"
  shows "sound e \<and> reachable (e_journal e) \<and> audit_limit e = default_max_bytes"
  using assms(1)
proof (induction rule: engine_reachable.induct)
  case (first e e')
  obtain b where b: "boot e = transition NORMAL ''self-test complete'' b" "engine_inv b" "e_state b = BOOT_SELFTEST" "e_journal b = e_journal e"
    "audit_limit b = audit_limit e"
    using first_boot [OF reachable_blocks [OF first(1)] first(2,3)] .
  have "e' = snd (transition NORMAL ''self-test complete'' b)" using b(1) first(5) by (metis snd_conv)
  then show ?case using sound_transition_allowed [OF b(2)] b(3-5) first(1) first(4) [folded audit_limit_def] by simp
next
  case (call e op)
  then show ?case using sound_call [OF _ assms(2)] reachable_call limit_call by metis
next
  case (cycle e clk e')
  then obtain e'' where "power_cycle clk e = (Inr (), e'')" "sound e''" "e_journal e'' = (e_journal e)\<lparr>recovered_tail := None\<rparr>"
    "audit_limit e'' = audit_limit e"
    using cycle_outcome [of e clk] by metis
  moreover have "reachable ((e_journal e)\<lparr>recovered_tail := None\<rparr>)"
    using cycle reachable.reopened [of "e_journal e" "j_snapshots (e_journal e)"] reopen [OF reachable_rel, of "e_journal e" "j_snapshots (e_journal e)"]
    by simp
  ultimately show ?case using cycle by simp
next
  case (noted e d ev)
  then show ?case using sound_log by simp
qed (simp_all add: reachable.relisted)

end
