(* ===== verification/Engine_Life.thy ===== *)
theory Engine_Life
  imports Engine_Runs
begin

text \<open>
  The properties of the engine over restarts: what a restart restores, when a start may accept
  writes, what a power cut inside a state change leaves, where the protection of the state file
  ends, and that a device in service mode can always be brought back.
\<close>

section \<open>Reachable engines to state examples on\<close>

lemma sample_engine_reachable: "engine_reachable frepr ed sample_engine"
proof (rule engine_reachable.first)
  show "boot cold_engine = (Inr (), sample_engine)"
    using sample_engine_facts(1) by (metis prod.collapse sample_engine_def)
qed (simp_all add: cold_engine_def sample1_facts sample_log0_def)

abbreviation struck_engine :: engine where
  "struck_engine \<equiv> snd (reject_destructive_command 0x80 ''format'' sample_engine)"

lemma struck_engine_reachable: "engine_reachable frepr ed struck_engine"
  using engine_reachable.call [OF sample_engine_reachable, of frepr ed "Op_Reject 0x80 ''format''"] by simp

lemma struck_engine_facts: "e_state struck_engine = CONTAINED" "e_version struck_engine = 2"
  "e_journal struck_engine = sample1"
  using sample_engine_facts
  by (auto simp: reject_destructive_command_def Let_def bind_return_snd transition_state observe_def io_ev_def)

lemma sample_repr: "good_repr (\<lambda>_. ''0.5'')"
proof -
  have "parse_number ''0.5'' = Some (JFloat ''0.5'', [])" by code_simp
  then show ?thesis by (simp add: good_repr_def float_lexeme_def)
qed

lemma transition_recorded:
  assumes "engine_inv e" "t \<in> set (allowed (e_state e))"
  shows "\<exists>x. recorded_digest (au_text (e_audit (snd (transition t r e)))) = Inr (Some x)"
proof -
  have "engine_inv (log_event ''state_transition'' [(''from'', JStr (state_value (e_state e))), (''to'', JStr (state_value t)),
      (''reason'', JStr r), (''version'', JInt (e_version e + 1))] (e\<lparr>e_state := t, e_version := e_version e + 1\<rparr>))"
    using assms(1) by (intro engine_inv_log) simp_all
  from save_state_persisted [OF this] show ?thesis
    using assms(2) by (simp add: persisted_def transition_def Let_def)
qed

lemma struck_engine_recorded: "\<exists>x. recorded_digest (au_text (e_audit struck_engine)) = Inr (Some x)"
proof -
  have "engine_inv sample_engine" using life [OF sample_engine_reachable sample_repr] sound_inv by blast
  then have inv: "engine_inv ((log_event ''destructive_command_rejected'' [(''opcode'', JInt 0x80), (''name'', JStr ''format'')]
      ((engine_tick sample_engine)\<lparr>e_analyzer := an\<rparr>))\<lparr>e_containment := JInt s\<rparr>)" for an s
    by (intro engine_inv_fields engine_inv_log) simp_all
  show ?thesis
    using transition_recorded [OF inv] sample_engine_facts(2)
    by (simp add: reject_destructive_command_def Let_def bind_return_snd observe_def io_ev_def)
qed

section \<open>Restarts\<close>

text \<open>
  C33. A restart at any point of any run. Opening the journal and starting the engine on the files
  always succeeds, and the journal is the one before. While the active audit file still holds a state
  digest, state, version, containment and recovery anchors are exactly those before the restart, and
  every nonce that has not expired is still remembered. Otherwise the engine starts in FAULT.
\<close>

theorem restart_restores:
  assumes "engine_reachable frepr ed e" "good_repr frepr"
  shows "\<exists>e'. power_cycle clk e = (Inr (), e') \<and> e_journal e' = (e_journal e)\<lparr>recovered_tail := None\<rparr> \<and>
    (case recorded_digest (au_text (e_audit e)) of
       Inr (Some r) \<Rightarrow> e_state e' = e_state e \<and> e_version e' = e_version e \<and> e_containment e' = e_containment e \<and>
         e_recovery e' = e_recovery e \<and> (\<forall>(n, x) \<in> set (e_nonces e). clk 0 div 1000000000 < x \<longrightarrow> (n, x) \<in> set (e_nonces e'))
     | _ \<Rightarrow> e_state e' = FAULT \<and> e_version e' = 1)"
proof -
  have l: "sound e" "reachable (e_journal e)" using life [OF assms] by simp_all
  obtain e' where "power_cycle clk e = (Inr (), e')" "e_journal e' = (e_journal e)\<lparr>recovered_tail := None\<rparr>"
    "case recorded e of
       Inr (Some r) \<Rightarrow> e_state e' = e_state e \<and> e_version e' = e_version e \<and> e_containment e' = e_containment e \<and>
         e_recovery e' = e_recovery e \<and> (\<forall>(n, x) \<in> set (e_nonces e). clk 0 div 1000000000 < x \<longrightarrow> (n, x) \<in> set (e_nonces e'))
     | _ \<Rightarrow> e_state e' = FAULT \<and> e_version e' = 1"
    using l by (rule cycle_outcome)
  then show ?thesis by (auto simp: recorded_def)
qed

theorem restart_restores_witness:
  "\<exists>e'. power_cycle (\<lambda>n. int n) struck_engine = (Inr (), e') \<and> e_state e' = CONTAINED \<and> e_version e' = 2"
  using restart_restores [OF struck_engine_reachable sample_repr, of "\<lambda>n. int n"] struck_engine_recorded
  by (auto simp: struck_engine_facts)

section \<open>Starting on arbitrary files\<close>




section \<open>A power cut inside a state change\<close>

text \<open>The files after the first half of \<open>_save_state\<close> inside \<open>_transition\<close>: the digest is recorded, the old state file is still there.\<close>

definition transition_cut :: "aegis_state \<Rightarrow> string \<Rightarrow> engine \<Rightarrow> engine" where
  "transition_cut target reason e =
     record_digest (log_event ''state_transition''
       [(''from'', JStr (state_value (e_state e))), (''to'', JStr (state_value target)), (''reason'', JStr reason),
        (''version'', JInt (e_version e + 1))] (e\<lparr>e_state := target, e_version := e_version e + 1\<rparr>))"

lemma transition_cut_completes:
  "t \<in> set (allowed (e_state e)) \<Longrightarrow> snd (transition t r e) = write_state_file (transition_cut t r e)"
  by (simp add: transition_def transition_cut_def save_state_def Let_def)

lemma payload_text_version:
  assumes "engine_inv e1" "engine_inv e2" "state_payload_text (state_payload e1) = state_payload_text (state_payload e2)"
  shows "e_version e1 = e_version e2"
proof -
  have "sorted_dict (state_payload e1) = sorted_dict (state_payload e2)"
    using readable_payload [OF assms(1)] readable_payload [OF assms(2)] assms(3) by simp
  then show ?thesis using payload_items(2) [of e1] payload_items(2) [of e2] by simp
qed

text \<open>
  C35. A power cut between the two halves of saving a state change. The digest of the new state is
  already in the audit log and the state file still holds the old one. The next start succeeds and
  lands in FAULT, never in the old state, unless the old and the new text of the state file are a
  SHA-256 collision.
\<close>

theorem save_crash_fails_closed:
  assumes "engine_reachable frepr ed e" "good_repr frepr" "t \<in> set (allowed (e_state e))"
  shows "\<exists>e' old. power_cycle clk (transition_cut t r e) = (Inr (), e') \<and> e_state_file e = Some old \<and>
    old \<noteq> state_payload_text (state_payload (transition_cut t r e)) \<and>
    (e_state e' = FAULT \<and> e_version e' = 1 \<or>
     sha256_hex old = sha256_hex (state_payload_text (state_payload (transition_cut t r e))))"
proof -
  have snd: "sound e" and j: "reachable (e_journal e)" using life [OF assms(1,2)] by auto
  obtain e0 where e0: "engine_inv e0" "agrees e0 e" "e_state_file e = Some (state_payload_text (state_payload e0))"
    using snd by (auto simp: sound_def synced_def)
  define e1 where "e1 = log_event ''state_transition''
       [(''from'', JStr (state_value (e_state e))), (''to'', JStr (state_value t)), (''reason'', JStr r),
        (''version'', JInt (e_version e + 1))] (e\<lparr>e_state := t, e_version := e_version e + 1\<rparr>)"
  define c where "c = transition_cut t r e"
  have c: "c = record_digest e1" by (simp add: c_def transition_cut_def e1_def)
  have i1: "engine_inv e1" unfolding e1_def using sound_inv [OF snd] by (intro engine_inv_log) simp_all
  then have ci: "engine_inv c" by (simp add: c engine_inv_record)
  have fc: "e_state_file c = e_state_file e" and cj: "e_journal c = e_journal e" and v: "e_version c = e_version e + 1"
    by (simp_all add: c e1_def)
  have rec: "recorded c = Inr (Some (JStr (state_digest (state_payload c))))"
    using record_digest_recorded [OF i1] by (simp add: recorded_def c)
  have ne: "state_payload_text (state_payload e0) \<noteq> state_payload_text (state_payload c)"
    using payload_text_version [OF e0(1) ci] e0(2) v by (auto simp: agrees_def)
  have wi: "engine_inv (woken clk c)" using ci by (rule woken_inv)
  have "load_state (woken clk c) = Inr (if state_digest (state_payload c) = state_digest (state_payload e0)
      then Loaded (sorted_dict (state_payload e0)) else Untrusted ''state file digest does not match the audit record'')"
    using load_saved [OF e0(1) wi] e0(3) fc rec by simp
  moreover obtain e' where "restore (sorted_dict (state_payload e0)) (woken clk c) = (Inr (), e')"
    using e0(1) wi by (rule restore_saved)
  moreover have "reachable (e_journal c)" using j cj by simp
  note pc = power_cycle_eq [OF ci this, of clk]
  ultimately have "\<exists>e'. power_cycle clk c = (Inr (), e') \<and>
      (e_state e' = FAULT \<and> e_version e' = 1 \<or> state_digest (state_payload c) = state_digest (state_payload e0))"
    by (cases "state_digest (state_payload c) = state_digest (state_payload e0)") simp_all
  then show ?thesis using ne e0(3) unfolding c_def [symmetric] by (auto simp: state_digest_def)
qed

theorem save_crash_fails_closed_witness:
  "\<exists>e' old. power_cycle (\<lambda>n. int n) (transition_cut CONTAINED ''policy threshold crossed'' sample_engine) = (Inr (), e') \<and>
    e_state_file sample_engine = Some old \<and>
    old \<noteq> state_payload_text (state_payload (transition_cut CONTAINED ''policy threshold crossed'' sample_engine)) \<and>
    (e_state e' = FAULT \<and> e_version e' = 1 \<or>
     sha256_hex old = sha256_hex (state_payload_text (state_payload (transition_cut CONTAINED ''policy threshold crossed'' sample_engine))))"
  by (rule save_crash_fails_closed [OF sample_engine_reachable sample_repr]) (simp add: sample_engine_facts)

section \<open>Where the protection of the state file ends\<close>

lemma flush_call: "snd (call frepr ed Op_Flush e) =
  log_event ''flush_complete'' [(''sequence'', JInt (last_sequence (e_journal e)))] e"
  by (simp add: engine_flush_def)

lemma audit_append_text:
  "\<not> needs_rotation a \<Longrightarrow> length (au_text a) < length (au_text (snd (audit_append ev d a)))"
  by (auto simp: audit_append_def append_event_def rotate_log_def Let_def tick_def event_line_def)

definition keeps_state :: "engine \<Rightarrow> engine \<Rightarrow> bool" where
  "keeps_state e e' \<longleftrightarrow> e_state e' = e_state e \<and> e_version e' = e_version e \<and> e_journal e' = e_journal e"

text \<open>Flushes alone fill the audit file, and the flush that rotates it takes the digest out of the active file.\<close>

lemma flushes_rotate:
  assumes "engine_inv e" "0 < au_max_bytes (e_audit e)"
  shows "\<exists>n. let e' = run_ops frepr ed e (replicate n Op_Flush) in
    engine_inv e' \<and> recorded e' = Inr None \<and> keeps_state e e'"
  using assms
proof (induction "nat (au_max_bytes (e_audit e) - int (length (au_text (e_audit e))))" arbitrary: e rule: less_induct)
  case less
  let ?f = "snd (call frepr ed Op_Flush e)"
  have inv: "engine_inv ?f" unfolding flush_call using less(2) by (intro engine_inv_log) simp_all
  have k: "keeps_state e ?f" by (simp add: keeps_state_def flush_call del: call.simps)
  show ?case
  proof (cases "needs_rotation (e_audit e)")
    case True
    then have "recorded ?f = Inr None"
      unfolding flush_call using recorded_log [OF less(2)] by (simp add: state_digest_event_def)
    then show ?thesis using inv k by (intro exI [of _ 1]) (simp add: run_ops_def Let_def)
  next
    case False
    let ?d = "[(''sequence'', JInt (last_sequence (e_journal e)))]"
    have "length (au_text (e_audit e)) < length (au_text (e_audit ?f))" "au_max_bytes (e_audit ?f) = au_max_bytes (e_audit e)"
      unfolding flush_call using audit_append_text [OF False] by simp_all
    moreover have "int (length (au_text (e_audit e))) < au_max_bytes (e_audit e)"
      using False less(3) by (simp add: needs_rotation_def)
    ultimately obtain n where "let e' = run_ops frepr ed ?f (replicate n Op_Flush) in
        engine_inv e' \<and> recorded e' = Inr None \<and> keeps_state ?f e'"
      using less(1) [of ?f] inv less(3) by auto
    then show ?thesis
      using k by (intro exI [of _ "Suc n"]) (auto simp: run_ops_def Let_def keeps_state_def)
  qed
qed

lemma run_ops_reachable: "engine_reachable frepr ed e \<Longrightarrow> engine_reachable frepr ed (run_ops frepr ed e ops)"
  by (induction ops rule: rev_induct) (auto simp: run_ops_def intro: engine_reachable.call)

text \<open>
  C36. Rotation of the audit log takes the state digest out of reach. In every state, a number of
  flushes (each logs one event) rotates the active audit file; the flushes change neither state nor
  journal. From then until the next state change a restart on untouched files ends in FAULT, and a
  restart after deleting the state file is taken for a first start: the device is NORMAL and accepts
  writes, even if it was contained.
\<close>

theorem rotation_loses_digest:
  assumes "engine_reachable frepr ed e" "good_repr frepr"
  shows "\<exists>n e' e1 e2. e' = run_ops frepr ed e (replicate n Op_Flush) \<and>
    e_state e' = e_state e \<and> e_version e' = e_version e \<and> e_journal e' = e_journal e \<and>
    power_cycle clk e' = (Inr (), e1) \<and> e_state e1 = FAULT \<and>
    power_cycle clk (e'\<lparr>e_state_file := None\<rparr>) = (Inr (), e2) \<and> e_state e2 = NORMAL \<and> e_version e2 = 1"
proof -
  have inv: "engine_inv e" and lim: "0 < au_max_bytes (e_audit e)"
    using life [OF assms] sound_inv by (auto simp: audit_limit_def default_max_bytes_def)
  obtain n where n: "engine_inv (run_ops frepr ed e (replicate n Op_Flush))"
    "recorded (run_ops frepr ed e (replicate n Op_Flush)) = Inr None" "keeps_state e (run_ops frepr ed e (replicate n Op_Flush))"
    using flushes_rotate [OF inv lim, of frepr ed] by (auto simp: Let_def)
  define e' where "e' = run_ops frepr ed e (replicate n Op_Flush)"
  have snd: "sound e'" and j: "reachable (e_journal e')"
    using life [OF run_ops_reachable [OF assms(1)] assms(2)] by (simp_all add: e'_def)
  have rec: "recorded e' = Inr None" using n(2) by (simp add: e'_def)
  obtain e1 where e1: "power_cycle clk e' = (Inr (), e1)" "e_state e1 = FAULT"
    using cycle_outcome [OF snd j, of clk] rec by force
  let ?e = "e'\<lparr>e_state_file := None\<rparr>"
  have "engine_inv ?e" "reachable (e_journal ?e)" using n(1) j by (simp_all add: e'_def)
  moreover have "recorded ?e = Inr None" using rec by (simp add: recorded_def)
  then have "load_state (woken clk ?e) = Inr NoState"
    using woken_frame(2,3) [of clk ?e] by (simp add: load_state_def recorded_def)
  ultimately have "power_cycle clk ?e = transition NORMAL ''self-test complete'' (woken clk ?e)"
    using power_cycle_eq [of ?e clk] by simp
  then have "\<exists>e2. power_cycle clk ?e = (Inr (), e2) \<and> e_state e2 = NORMAL \<and> e_version e2 = 1"
    by (simp add: transition_def Let_def)
  then show ?thesis using e1 n(3) e'_def by (auto simp: keeps_state_def)
qed

theorem rotation_loses_digest_witness:
  "\<exists>n e1 e2. power_cycle (\<lambda>n. int n) (run_ops (\<lambda>_. ''0.5'') sample_ed struck_engine (replicate n Op_Flush)) = (Inr (), e1) \<and>
    e_state e1 = FAULT \<and>
    power_cycle (\<lambda>n. int n) ((run_ops (\<lambda>_. ''0.5'') sample_ed struck_engine (replicate n Op_Flush))\<lparr>e_state_file := None\<rparr>) = (Inr (), e2) \<and>
    e_state struck_engine = CONTAINED \<and> e_state e2 = NORMAL"
  using rotation_loses_digest [OF struck_engine_reachable sample_repr, of sample_ed "\<lambda>n. int n"] struck_engine_facts(1) by blast

section \<open>Servicing\<close>

lemma transition_ok: "t \<in> set (allowed (e_state e)) \<Longrightarrow> transition t r e = (Inr (), snd (transition t r e))"
  by (simp add: transition_def Let_def)

lemma maintain_accepts:
  assumes "e_state e \<in> set maintenance_entry_states" "parse_token ed token = Inr a"
    and "admissible a (device_id (e_journal e)) ''enter_maintenance'' (e_version e) (verify_time now e)"
    and "ra_nonce a \<notin> set (keys (e_nonces e))"
  obtains e1 where "enter_maintenance ed token True now e = (Inr (), e1)" "e_state e1 = MAINTENANCE" "e_version e1 = e_version e + 1"
    "e_journal e1 = e_journal e" "e_analyzer e1 = e_analyzer e" "e_policy e1 = e_policy e"
proof -
  obtain e0 where v: "engine_verify ed token ''enter_maintenance'' now e = (Inr a, e0)"
    using assms(2,3) token_verify_iff [of ed token "device_id (e_journal e)" "''enter_maintenance''" "e_version e" "verify_time now e" a]
    by (simp add: engine_verify_def)
  note f = engine_verify_frame [of ed token "''enter_maintenance''" now e, unfolded v snd_conv]
  let ?e = "save_state (e0\<lparr>e_nonces := AList.update (ra_nonce a) (ra_expires_unix a) (e_nonces e0)\<rparr>)"
  have al: "MAINTENANCE \<in> set (allowed (e_state ?e))" using assms(1) f(2) by (auto simp: maintenance_entry_states_def)
  let ?r = "''maintenance authorized via signed token''"
  have "enter_maintenance ed token True now e = transition MAINTENANCE ?r ?e"
    using assms(1,4) f(4) by (simp add: enter_maintenance_def bind_op_def v)
  also have "\<dots> = (Inr (), snd (transition MAINTENANCE ?r ?e))" by (rule transition_ok [OF al])
  finally show thesis
    by (rule that) (use al f in \<open>simp_all add: transition_state\<close>)
qed

lemma exit_returns:
  assumes "e_state e = MAINTENANCE"
  obtains e2 where "exit_maintenance False e = (Inr None, e2)" "e_state e2 = NORMAL" "e_version e2 = e_version e + 1"
    "e_containment e2 = JNull" "e_recovery e2 = JNull" "e_journal e2 = e_journal e" "e_analyzer e2 = e_analyzer e"
    "e_policy e2 = e_policy e"
proof -
  let ?e = "e\<lparr>e_containment := JNull, e_recovery := JNull\<rparr>"
  have al: "NORMAL \<in> set (allowed (e_state ?e))" using assms by simp
  obtain x where x: "transition NORMAL ''maintenance complete'' ?e = (Inr (), x)"
    using transition_ok [OF al] by blast
  then have sx: "x = snd (transition NORMAL ''maintenance complete'' ?e)" by simp
  have "exit_maintenance False e = (Inr None, x)"
    using assms x by (simp add: exit_maintenance_def bind_op_def)
  then show thesis by (rule that) (use al in \<open>simp_all add: sx transition_state\<close>)
qed

text \<open>
  A device is never stuck. From NORMAL, CONTAINED, RECOVERY_READ_ONLY and FAULT, whoever holds
  the signing key and stands at the device can bring it back: a token signed for this device, for
  maintenance, for the present version, within its time, with a fresh nonce is accepted, and leaving
  maintenance afterwards gives NORMAL with both anchors cleared, the same journal, and the same
  analysis window.
\<close>

theorem servicing_restores_normal:
  assumes "\<And>m. ed_verify (ed_sign m) m"
    and "e_state e \<in> {NORMAL, CONTAINED, RECOVERY_READ_ONLY, FAULT}"
    and "ra_device_id a = device_id (e_journal e)" "ra_action a = ''enter_maintenance''" "ra_state_version a = e_version e"
    and "ra_issued_unix a \<le> verify_time now e + 60" "verify_time now e \<le> ra_expires_unix a"
    and "ra_expires_unix a - ra_issued_unix a \<le> 900" "ra_nonce a \<notin> set (keys (e_nonces e))"
  shows "\<exists>e1 e2. enter_maintenance ed_verify (sign_authorization ed_sign a) True now e = (Inr (), e1) \<and> e_state e1 = MAINTENANCE \<and>
    exit_maintenance False e1 = (Inr None, e2) \<and> e_state e2 = NORMAL \<and> e_version e2 = e_version e + 2 \<and>
    e_containment e2 = JNull \<and> e_recovery e2 = JNull \<and> e_journal e2 = e_journal e \<and> e_analyzer e2 = e_analyzer e"
proof -
  have p: "parse_token ed_verify (sign_authorization ed_sign a) = Inr a"
    using assms(1) by (rule parse_signed)
  have st: "e_state e \<in> set maintenance_entry_states"
    and ad: "admissible a (device_id (e_journal e)) ''enter_maintenance'' (e_version e) (verify_time now e)"
    using assms by (auto simp: maintenance_entry_states_def admissible_def)
  obtain e1 where e1: "enter_maintenance ed_verify (sign_authorization ed_sign a) True now e = (Inr (), e1)" "e_state e1 = MAINTENANCE"
    "e_version e1 = e_version e + 1" "e_journal e1 = e_journal e" "e_analyzer e1 = e_analyzer e"
    using st p ad assms(9) by (rule maintain_accepts)
  obtain e2 where "exit_maintenance False e1 = (Inr None, e2)" "e_state e2 = NORMAL" "e_version e2 = e_version e1 + 1"
    "e_containment e2 = JNull" "e_recovery e2 = JNull" "e_journal e2 = e_journal e1" "e_analyzer e2 = e_analyzer e1"
    using e1(2) by (rule exit_returns)
  then show ?thesis using e1 by (intro exI [of _ e1] exI [of _ e2]) simp
qed

theorem servicing_restores_normal_witness:
  "\<exists>e1 e2. enter_maintenance sample_ed sample_token True (Some 1200) contained_engine = (Inr (), e1) \<and> e_state e1 = MAINTENANCE \<and>
    exit_maintenance False e1 = (Inr None, e2) \<and> e_state e2 = NORMAL \<and> e_version e2 = 6"
  using servicing_restores_normal [of sample_ed "\<lambda>m. m" contained_engine sample_auth "Some 1200"]
  by (auto simp: contained_engine_facts sample_recovered sample_auth_def verify_time_def)

text \<open>
  Leaving maintenance does not reset the analysis window: while an observed destructive command is
  still in it, the first write after servicing contains the device again.
\<close>

theorem serviced_window_contains_again:
  assumes "reachable (e_journal e)" "e_state e = NORMAL" "containment_enabled (e_policy e)"
    and "list_ex ob_destructive (an_window (e_analyzer e))"
    and "int (length (an_window (e_analyzer e))) < window_operations (an_config (e_analyzer e))"
    and "valid_write (blocks (e_journal e)) (block_size (e_journal e)) (lba, payload)"
  shows "e_state (snd (engine_write frepr lba payload e)) = CONTAINED"
proof -
  have "writes_allowed (e_state e)" using assms(2) by (simp add: writes_allowed_def)
  then obtain before an d e' where ob: "observe (io_ev WRITE lba (int (length payload) div block_size (e_journal e)) payload (engine_ns e) None)
      (Some before) (e_analyzer e) = (Inr (snapshot_features an), an)"
    and d: "d = evaluate (e_policy e) (snapshot_features an)" "engine_write frepr lba payload e = (Inr d, e')"
    "e_state e' = (if contain d then CONTAINED else if alert d \<and> e_state e = NORMAL then ELEVATED else e_state e)"
    using engine_write_accepted [OF assms(1) _ assms(6)] by metis
  have "list_ex ob_destructive (an_window an)"
    using ob assms(4,5)
    by (auto simp: observe_def io_ev_def record_observation_def deque_append_def Let_def split: sum.splits)
  then have "contain d" using assms(3) d(1) by (simp add: snapshot_features_def evaluate_def Let_def)
  then show ?thesis using d by simp
qed

end
