(* ===== verification/Nbd.thy ===== *)
theory Nbd
  imports Engine_Life
begin

text \<open>
  The NBD export (\<^verbatim>\<open>aegis_shield/core/nbd.py\<close>): the fixed-newstyle handshake, the request loop and
  the accept loop. A connection is the byte stream the peer sends until it closes, the sizes in which
  the kernel delivers it, and the bytes sent back. A failing \<open>sendall\<close> is outside the model: the
  peer reads its replies.
\<close>

unbundle bit_operations_syntax

section \<open>Connections\<close>

record connection =
  cn_input :: bytes
  cn_chunks :: "nat \<Rightarrow> nat"
  cn_recvs :: nat
  cn_output :: bytes

text \<open>\<open>recv(n)\<close> returns at least one and at most \<open>n\<close> bytes, or none once the peer has closed.\<close>

definition recv :: "nat \<Rightarrow> connection \<Rightarrow> bytes \<times> connection" where
  "recv n c =
     (let k = min n (max 1 (cn_chunks c (cn_recvs c)))
      in (take k (cn_input c), c\<lparr>cn_input := drop k (cn_input c), cn_recvs := Suc (cn_recvs c)\<rparr>))"

function recv_loop :: "nat \<Rightarrow> bytes \<Rightarrow> (connection, bytes) oper" where
  "recv_loop sz val c =
     (if length val < sz
      then (case recv (sz - length val) c of
              (chunk, c1) \<Rightarrow>
                if chunk = [] then (Inl (ConnectionError ''peer closed connection''), c1)
                else recv_loop sz (val @ chunk) c1)
      else (Inr val, c))"
  by pat_completeness auto
termination
  by (relation "measure (\<lambda>(sz, val, _). sz - length val)") (auto simp: diff_less_mono2 simp flip: length_greater_0_conv)

declare recv_loop.simps [simp del]

definition recv_exact :: "nat \<Rightarrow> (connection, bytes) oper" where
  "recv_exact sz = recv_loop sz []"

definition sendall :: "bytes \<Rightarrow> connection \<Rightarrow> connection" where
  "sendall data c = c\<lparr>cn_output := cn_output c @ data\<rparr>"

section \<open>Packed fields\<close>

text \<open>\<open>struct\<close> with a big-endian format: a field is its number of bytes and its value.\<close>

fun pack_be :: "nat \<Rightarrow> int \<Rightarrow> bytes" where
  "pack_be 0 v = []"
| "pack_be (Suc k) v = pack_be k (v div 256) @ [word_of_int v]"

definition unpack_be :: "bytes \<Rightarrow> int" where
  "unpack_be bs = foldl (\<lambda>acc b. acc * 256 + uint b) 0 bs"

fun struct_pack :: "(nat \<times> int) list \<Rightarrow> bytes res" where
  "struct_pack [] = Inr []"
| "struct_pack ((k, v) # fs) =
     (if 0 \<le> v \<and> v < 256 ^ k then bind_res (struct_pack fs) (\<lambda>rest. Inr (pack_be k v @ rest)) else Inl StructError)"

fun struct_unpack :: "nat list \<Rightarrow> bytes \<Rightarrow> int list" where
  "struct_unpack [] b = []"
| "struct_unpack (k # ks) b = unpack_be (take k b) # struct_unpack ks (drop k b)"

section \<open>Constants\<close>

definition nbd_magic :: int where "nbd_magic = 0x4E42444D41474943"
definition nbd_ihaveopt :: int where "nbd_ihaveopt = 0x49484156454F5054"
definition nbd_request_magic :: int where "nbd_request_magic = 0x25609513"
definition nbd_reply_magic :: int where "nbd_reply_magic = 0x67446698"
definition nbd_flag_fixed_newstyle :: int where "nbd_flag_fixed_newstyle = 1"
definition nbd_flag_no_zeroes :: int where "nbd_flag_no_zeroes = 2"
definition nbd_flag_has_flags :: int where "nbd_flag_has_flags = 1"
definition nbd_flag_send_flush :: int where "nbd_flag_send_flush = 4"
definition nbd_opt_export_name :: int where "nbd_opt_export_name = 1"
definition nbd_cmd_read :: int where "nbd_cmd_read = 0"
definition nbd_cmd_write :: int where "nbd_cmd_write = 1"
definition nbd_cmd_disc :: int where "nbd_cmd_disc = 2"
definition nbd_cmd_flush :: int where "nbd_cmd_flush = 3"

lemmas nbd_cmds = nbd_cmd_read_def nbd_cmd_write_def nbd_cmd_disc_def nbd_cmd_flush_def

text \<open>\<open>errno\<close> on Linux.\<close>

definition eio :: int where "eio = 5"
definition einval :: int where "einval = 22"
definition erofs :: int where "erofs = 30"
definition eopnotsupp :: int where "eopnotsupp = 95"

lemmas errnos = eio_def einval_def erofs_def eopnotsupp_def

section \<open>Negotiation\<close>

definition export_size :: "engine \<Rightarrow> int" where
  "export_size e = blocks (e_journal e) * block_size (e_journal e)"

definition send_packed :: "(nat \<times> int) list \<Rightarrow> (connection, unit) oper" where
  "send_packed fs c = (case struct_pack fs of Inl x \<Rightarrow> (Inl x, c) | Inr b \<Rightarrow> (Inr (), sendall b c))"

definition negotiate :: "bytes \<Rightarrow> engine \<Rightarrow> (connection, unit) oper" where
  "negotiate export_name e =
     bind_op (send_packed [(8, nbd_magic), (8, nbd_ihaveopt), (2, nbd_flag_fixed_newstyle OR nbd_flag_no_zeroes)]) (\<lambda>_.
     bind_op (recv_exact 4) (\<lambda>raw.
       let client_flags = unpack_be raw in
       if client_flags AND nbd_flag_fixed_newstyle = 0
       then raise_op (ValueError ''client does not support fixed newstyle negotiation'')
       else bind_op (recv_exact 16) (\<lambda>raw2.
         let magic = unpack_be (take 8 raw2); option = unpack_be (take 4 (drop 8 raw2)); len = unpack_be (drop 12 raw2) in
         if magic \<noteq> nbd_ihaveopt \<or> option \<noteq> nbd_opt_export_name \<or> 4096 < len
         then raise_op (ValueError ''only NBD_OPT_EXPORT_NAME is supported'')
         else bind_op (recv_exact (nat len)) (\<lambda>requested_name.
           if requested_name \<noteq> [] \<and> requested_name \<noteq> export_name then raise_op (ValueError ''unknown export name'')
           else bind_op (send_packed [(8, export_size e), (2, nbd_flag_has_flags OR nbd_flag_send_flush)]) (\<lambda>_ c.
             (Inr (), if client_flags AND nbd_flag_no_zeroes = 0 then sendall (replicate 124 0) c else c))))))"

section \<open>Requests\<close>

record nbd_request =
  rq_magic :: int
  rq_flags :: int
  rq_command :: int
  rq_handle :: int
  rq_offset :: int
  rq_length :: int

definition request_format :: "nat list" where
  "request_format = [4, 2, 2, 8, 8, 4]"

definition decode_request :: "bytes \<Rightarrow> nbd_request" where
  "decode_request raw =
     (let fs = struct_unpack request_format raw
      in \<lparr>rq_magic = fs ! 0, rq_flags = fs ! 1, rq_command = fs ! 2, rq_handle = fs ! 3, rq_offset = fs ! 4, rq_length = fs ! 5\<rparr>)"

text \<open>The \<open>except\<close> clauses: \<open>PermissionError\<close>, \<open>FileExistsError\<close> and \<open>ConnectionError\<close> are \<open>OSError\<close>s.\<close>

fun is_os_error :: "exc \<Rightarrow> bool" where
  "is_os_error (PermissionError _) = True"
| "is_os_error (FileExistsError _) = True"
| "is_os_error (ConnectionError _) = True"
| "is_os_error (OSError _) = True"
| "is_os_error _ = False"

fun io_errno :: "exc \<Rightarrow> int option" where
  "io_errno (PermissionError _) = Some erofs"
| "io_errno (ValueError _) = Some eio"
| "io_errno x = (if is_os_error x then Some eio else None)"

definition catch_io :: "(engine, bytes) oper \<Rightarrow> (engine, int \<times> bytes) oper" where
  "catch_io m e =
     (case m e of
        (Inr data, e1) \<Rightarrow> (Inr (0, data), e1)
      | (Inl x, e1) \<Rightarrow> (case io_errno x of Some err \<Rightarrow> (Inr (err, []), e1) | None \<Rightarrow> (Inl x, e1)))"

text \<open>What the loop does with one request before it answers: the error code and the data of the reply.\<close>

definition nbd_flush :: "int \<Rightarrow> int \<Rightarrow> (engine, int \<times> bytes) oper" where
  "nbd_flush offset len e =
     (if offset \<noteq> 0 \<or> len \<noteq> 0 then (Inr (einval, []), e)
      else (case engine_flush e of
              (Inr _, e1) \<Rightarrow> (Inr (0, []), e1)
            | (Inl x, e1) \<Rightarrow> if is_os_error x then (Inr (eio, []), e1) else (Inl x, e1)))"

definition nbd_execute :: "(real \<Rightarrow> string) \<Rightarrow> nbd_request \<Rightarrow> bytes \<Rightarrow> (engine, int \<times> bytes) oper" where
  "nbd_execute frepr rq payload e =
     (let bs = block_size (e_journal e); offset = rq_offset rq; len = rq_length rq in
      if rq_command rq = nbd_cmd_flush then nbd_flush offset len e
      else if bs = 0 then (Inl ZeroDivisionError, e)
      else if offset mod bs \<noteq> 0 \<or> len = 0 \<or> len mod bs \<noteq> 0 \<or> export_size e < offset + len then (Inr (einval, []), e)
      else if rq_command rq = nbd_cmd_read then catch_io (engine_read (offset div bs) (len div bs)) e
      else if rq_command rq = nbd_cmd_write
      then catch_io (bind_op (engine_write frepr (offset div bs) payload) (\<lambda>_. return_op [])) e
      else (Inr (eopnotsupp, []), e))"

definition max_payload :: int where
  "max_payload = 16 * 1024 * 1024"

definition receive_payload :: "nbd_request \<Rightarrow> (connection, bytes) oper" where
  "receive_payload rq =
     (if rq_command rq \<noteq> nbd_cmd_write then return_op []
      else if max_payload < rq_length rq then raise_op (ConnectionError ''NBD request exceeds 16 MiB reference limit'')
      else recv_exact (nat (rq_length rq)))"

definition nbd_reply :: "int \<Rightarrow> int \<Rightarrow> bytes \<Rightarrow> bytes" where
  "nbd_reply err handle data = pack_be 4 nbd_reply_magic @ pack_be 4 err @ pack_be 8 handle @ data"

section \<open>Receiving\<close>

text \<open>How the stream is cut into chunks does not matter: \<open>_recv_exact\<close> takes exactly \<open>size\<close> bytes or fails at the end of the stream.\<close>

lemma recv_loop_spec:
  "length val \<le> sz \<Longrightarrow>
   \<exists>m. recv_loop sz val c =
     (if sz - length val \<le> length (cn_input c)
      then (Inr (val @ take (sz - length val) (cn_input c)),
            c\<lparr>cn_input := drop (sz - length val) (cn_input c), cn_recvs := m\<rparr>)
      else (Inl (ConnectionError ''peer closed connection''), c\<lparr>cn_input := [], cn_recvs := m\<rparr>))"
proof (induction sz val c rule: recv_loop.induct)
  case (1 sz val c)
  show ?case
  proof (cases "length val < sz")
    case False
    then show ?thesis using 1(2) by (intro exI [of _ "cn_recvs c"]) (simp add: recv_loop.simps)
  next
    case True
    define k where "k = min (sz - length val) (max 1 (cn_chunks c (cn_recvs c)))"
    define c1 where "c1 = c\<lparr>cn_input := drop k (cn_input c), cn_recvs := Suc (cn_recvs c)\<rparr>"
    have k: "1 \<le> k" "k \<le> sz - length val" using True by (simp_all add: k_def)
    have r: "recv (sz - length val) c = (take k (cn_input c), c1)" by (simp add: recv_def k_def c1_def Let_def)
    show ?thesis
    proof (cases "cn_input c = []")
      case True
      then show ?thesis using \<open>length val < sz\<close> r
        by (intro exI [of _ "Suc (cn_recvs c)"]) (simp add: recv_loop.simps [of sz val c] c1_def)
    next
      case False
      let ?v = "val @ take k (cn_input c)"
      have ne: "take k (cn_input c) \<noteq> []" using False k(1) by auto
      have len: "length ?v \<le> sz" using k(2) True by simp
      obtain m where m: "recv_loop sz ?v c1 =
          (if sz - length ?v \<le> length (cn_input c1)
           then (Inr (?v @ take (sz - length ?v) (cn_input c1)), c1\<lparr>cn_input := drop (sz - length ?v) (cn_input c1), cn_recvs := m\<rparr>)
           else (Inl (ConnectionError ''peer closed connection''), c1\<lparr>cn_input := [], cn_recvs := m\<rparr>))"
        using 1(1) [OF True r [symmetric] ne len] by blast
      have step: "recv_loop sz val c = recv_loop sz ?v c1"
        using True r ne by (simp add: recv_loop.simps [of sz val c])
      show ?thesis
      proof (cases "k \<le> length (cn_input c)")
        case True
        have "sz - length ?v = sz - length val - k" using True by simp
        moreover have "take k (cn_input c) @ take (sz - length val - k) (drop k (cn_input c)) = take (sz - length val) (cn_input c)"
          using k(2) by (metis le_add_diff_inverse take_add)
        ultimately show ?thesis
          using step m k True by (intro exI [of _ m]) (auto simp: c1_def)
      next
        case False
        then show ?thesis using step m k by (intro exI [of _ m]) (auto simp: c1_def)
      qed
    qed
  qed
qed

lemma recv_exact_spec:
  "\<exists>m. recv_exact n c =
     (if n \<le> length (cn_input c)
      then (Inr (take n (cn_input c)), c\<lparr>cn_input := drop n (cn_input c), cn_recvs := m\<rparr>)
      else (Inl (ConnectionError ''peer closed connection''), c\<lparr>cn_input := [], cn_recvs := m\<rparr>))"
  using recv_loop_spec [of "[]" n c] by (auto simp: recv_exact_def)

lemma recv_exact_shrinks:
  "fst (recv_exact n c) = Inr b \<Longrightarrow> length (cn_input (snd (recv_exact n c))) + n = length (cn_input c) \<and> length b = n"
  "length (cn_input (snd (recv_exact n c))) \<le> length (cn_input c)"
  using recv_exact_spec [of n c] by (auto split: if_splits)

lemma receive_payload_shrinks: "length (cn_input (snd (receive_payload rq c))) \<le> length (cn_input c)"
  using recv_exact_shrinks(2) by (simp add: receive_payload_def)

section \<open>The request loop\<close>

function transmit :: "(real \<Rightarrow> string) \<Rightarrow> engine \<Rightarrow> connection \<Rightarrow> unit res \<times> engine \<times> connection" where
  "transmit frepr e c =
     (case recv_exact 28 c of
        (Inl x, c1) \<Rightarrow> (Inr (), e, c1)
      | (Inr raw, c1) \<Rightarrow>
          (let rq = decode_request raw in
           if rq_magic rq \<noteq> nbd_request_magic then (Inl (ConnectionError ''bad NBD request magic''), e, c1)
           else if rq_command rq = nbd_cmd_disc then (Inr (), e, c1)
           else (case receive_payload rq c1 of
                   (Inl x, c2) \<Rightarrow> (Inl x, e, c2)
                 | (Inr payload, c2) \<Rightarrow>
                     (case nbd_execute frepr rq payload e of
                        (Inl x, e1) \<Rightarrow> (Inl x, e1, c2)
                      | (Inr (err, data), e1) \<Rightarrow> transmit frepr e1 (sendall (nbd_reply err (rq_handle rq) data) c2)))))"
  by pat_completeness auto
termination
proof (relation "measure (\<lambda>(_, _, c). length (cn_input c))", goal_cases)
  case (2 frepr e c r c1 raw rq p c2 payload ex e1 ans err data)
  then have "length (cn_input c1) + 28 = length (cn_input c)"
    using recv_exact_shrinks(1) [of 28 c raw] by (metis fst_conv snd_conv)
  moreover have "length (cn_input c2) \<le> length (cn_input c1)"
    using 2 receive_payload_shrinks [of rq c1] by (metis snd_conv)
  ultimately show ?case by (simp add: sendall_def)
qed simp

declare transmit.simps [simp del]

definition serve_connection :: "(real \<Rightarrow> string) \<Rightarrow> bytes \<Rightarrow> engine \<Rightarrow> connection \<Rightarrow> unit res \<times> engine \<times> connection" where
  "serve_connection frepr export_name e c =
     (case negotiate export_name e c of
        (Inl x, c1) \<Rightarrow> (Inl x, e, c1)
      | (Inr _, c1) \<Rightarrow> transmit frepr e c1)"

text \<open>The accept loop over the connections that arrive: whatever a connection ends with, the next one is served.\<close>

fun serve_tcp :: "(real \<Rightarrow> string) \<Rightarrow> bytes \<Rightarrow> engine \<Rightarrow> connection list \<Rightarrow> engine \<times> connection list" where
  "serve_tcp frepr export_name e [] = (e, [])"
| "serve_tcp frepr export_name e (c # cs) =
     (case serve_connection frepr export_name e c of
        (_, e1, c1) \<Rightarrow> (case serve_tcp frepr export_name e1 cs of (e2, cs1) \<Rightarrow> (e2, c1 # cs1)))"

end
