(* ===== verification/Nbd_Spec.thy ===== *)
theory Nbd_Spec
  imports Nbd
begin

text \<open>
  The properties of the NBD export: what one request does and answers in terms of the device image,
  and that no byte stream at all gets past the gate.
\<close>

section \<open>Fields on the wire\<close>

lemma length_pack_be [simp]: "length (pack_be k v) = k"
  by (induction k arbitrary: v) auto

lemma unpack_be_snoc: "unpack_be (bs @ [b]) = unpack_be bs * 256 + uint b"
  by (simp add: unpack_be_def)

lemma unpack_pack_be: "0 \<le> v \<Longrightarrow> v < 256 ^ k \<Longrightarrow> unpack_be (pack_be k v) = v"
proof (induction k arbitrary: v)
  case (Suc k)
  have "uint (word_of_int v :: byte) = v mod 256" by (simp add: uint_word_of_int)
  moreover have "unpack_be (pack_be k (v div 256)) = v div 256"
    using Suc.prems by (intro Suc.IH) (auto simp: pos_imp_zdiv_nonneg_iff div_less_iff_less_mult mult.commute)
  ultimately show ?case by (simp add: unpack_be_snoc)
qed (simp add: unpack_be_def)

definition request_ok :: "nbd_request \<Rightarrow> bool" where
  "request_ok rq \<longleftrightarrow> rq_magic rq = nbd_request_magic \<and> 0 \<le> rq_flags rq \<and> rq_flags rq < 2 ^ 16 \<and>
     0 \<le> rq_command rq \<and> rq_command rq < 2 ^ 16 \<and> 0 \<le> rq_handle rq \<and> rq_handle rq < 2 ^ 64 \<and>
     0 \<le> rq_offset rq \<and> rq_offset rq < 2 ^ 64 \<and> 0 \<le> rq_length rq \<and> rq_length rq < 2 ^ 32"

text \<open>What a client sends for a request.\<close>

definition encode_request :: "nbd_request \<Rightarrow> bytes" where
  "encode_request rq = pack_be 4 (rq_magic rq) @ pack_be 2 (rq_flags rq) @ pack_be 2 (rq_command rq) @
     pack_be 8 (rq_handle rq) @ pack_be 8 (rq_offset rq) @ pack_be 4 (rq_length rq)"

lemma length_encode_request [simp]: "length (encode_request rq) = 28"
  by (simp add: encode_request_def)

lemma decode_encode: "request_ok rq \<Longrightarrow> decode_request (encode_request rq) = rq"
  by (simp add: decode_request_def encode_request_def request_format_def request_ok_def unpack_pack_be Let_def nbd_request_magic_def)

section \<open>The gate\<close>

text \<open>The export only reads, writes and flushes: whatever arrives on a connection is a run of these methods.\<close>

fun data_op :: "engine_op \<Rightarrow> bool" where
  "data_op (Op_Read _ _) = True"
| "data_op (Op_Write _ _) = True"
| "data_op Op_Flush = True"
| "data_op _ = False"

definition data_run :: "(real \<Rightarrow> string) \<Rightarrow> engine \<Rightarrow> engine \<Rightarrow> bool" where
  "data_run frepr e e' \<longleftrightarrow> (\<exists>ops. list_all data_op ops \<and> (\<forall>ed. e' = run_ops frepr ed e ops))"

lemma data_run_refl [simp]: "data_run frepr e e"
  unfolding data_run_def by (intro exI [of _ "[]"]) (simp add: run_ops_def)

lemma data_run_trans:
  assumes "data_run frepr e e1" "data_run frepr e1 e2"
  shows "data_run frepr e e2"
proof -
  obtain ops ops' where "list_all data_op ops" "\<forall>ed. e1 = run_ops frepr ed e ops"
    "list_all data_op ops'" "\<forall>ed. e2 = run_ops frepr ed e1 ops'"
    using assms by (auto simp: data_run_def)
  then show ?thesis
    unfolding data_run_def by (intro exI [of _ "ops @ ops'"]) (simp add: run_ops_def)
qed

lemma data_run_op:
  "data_run frepr e (snd (engine_read lba n e))" "data_run frepr e (snd (engine_write frepr lba payload e))"
  "data_run frepr e (snd (engine_flush e))"
proof -
  show "data_run frepr e (snd (engine_read lba n e))"
    unfolding data_run_def by (intro exI [of _ "[Op_Read lba n]"]) (simp add: run_ops_def)
  show "data_run frepr e (snd (engine_write frepr lba payload e))"
    unfolding data_run_def by (intro exI [of _ "[Op_Write lba payload]"]) (simp add: run_ops_def)
  show "data_run frepr e (snd (engine_flush e))"
    unfolding data_run_def by (intro exI [of _ "[Op_Flush]"]) (simp add: run_ops_def)
qed

lemma catch_io_snd [simp]: "snd (catch_io m e) = snd (m e)"
  by (simp add: catch_io_def split: prod.splits sum.splits option.splits)

lemma nbd_flush_snd: "snd (nbd_flush offset len e) = (if offset \<noteq> 0 \<or> len \<noteq> 0 then e else snd (engine_flush e))"
  by (simp add: nbd_flush_def split: prod.splits sum.splits)

lemma execute_run: "data_run frepr e (snd (nbd_execute frepr rq payload e))"
  by (simp add: nbd_execute_def Let_def nbd_flush_snd data_run_op bind_return_snd)

lemma transmit_run: "data_run frepr e (fst (snd (transmit frepr e c)))"
proof (induction frepr e c rule: transmit.induct)
  case (1 frepr e c)
  obtain r c1 where r: "recv_exact 28 c = (r, c1)" by fastforce
  show ?case
  proof (cases r)
    case (Inr raw)
    define rq where "rq = decode_request raw"
    obtain p c2 where p: "receive_payload rq c1 = (p, c2)" by fastforce
    show ?thesis
    proof (cases "rq_magic rq \<noteq> nbd_request_magic \<or> rq_command rq = nbd_cmd_disc \<or> isl p")
      case True
      then show ?thesis using r Inr p
        by (auto simp: transmit.simps [of frepr e c] rq_def [symmetric] Let_def isl_def)
    next
      case False
      then obtain payload where pl: "p = Inr payload" by (cases p) auto
      obtain x e1 where x: "nbd_execute frepr rq payload e = (x, e1)" by fastforce
      have e1: "data_run frepr e e1" using execute_run [of frepr e rq payload] x by simp
      show ?thesis
      proof (cases x)
        case (Inl y)
        then show ?thesis using r Inr p pl x e1 False
          by (simp add: transmit.simps [of frepr e c] rq_def [symmetric] Let_def)
      next
        case Inr': (Inr ans)
        obtain err data where a: "ans = (err, data)" by (cases ans)
        let ?c = "sendall (nbd_reply err (rq_handle rq) data) c2"
        have "data_run frepr e1 (fst (snd (transmit frepr e1 ?c)))"
          using 1 [OF r [symmetric] Inr rq_def] False p pl x Inr' a by simp
        moreover have "transmit frepr e c = transmit frepr e1 ?c"
          using r Inr p pl x Inr' a False by (simp add: transmit.simps [of frepr e c] rq_def [symmetric] Let_def)
        ultimately show ?thesis using data_run_trans [OF e1] by simp
      qed
    qed
  qed (use r in \<open>simp add: transmit.simps [of frepr e c]\<close>)
qed

lemma serve_connection_run: "data_run frepr e (fst (snd (serve_connection frepr name e c)))"
  by (auto simp: serve_connection_def transmit_run split: prod.splits sum.splits)

lemma serve_tcp_run: "data_run frepr e (fst (serve_tcp frepr name e cs))"
proof (induction cs arbitrary: e)
  case (Cons c cs)
  obtain r e1 c1 where s: "serve_connection frepr name e c = (r, e1, c1)" by (metis prod_cases3)
  obtain e2 cs' where t: "serve_tcp frepr name e1 cs = (e2, cs')" by fastforce
  have "data_run frepr e e1" "data_run frepr e1 e2"
    using serve_connection_run [of frepr e name c] Cons [of e1] s t by simp_all
  then show ?case using data_run_trans s t by simp
qed simp

section \<open>One request\<close>

text \<open>What a read may see: the present image, or in recovery the image at the anchor.\<close>

definition anchor :: "engine \<Rightarrow> int option" where
  "anchor e = (if e_state e = RECOVERY_READ_ONLY then (case e_recovery e of JInt m \<Rightarrow> Some m | _ \<Rightarrow> None) else None)"

definition visible :: "engine \<Rightarrow> bytes" where
  "visible e = disk (block_size (e_journal e)) (f_base (j_files (e_journal e))) (seen (anchor e) (hist (e_journal e)))"

definition anchor_ok :: "engine \<Rightarrow> bool" where
  "anchor_ok e \<longleftrightarrow> (e_state e = RECOVERY_READ_ONLY \<longrightarrow>
     (\<exists>m. e_recovery e = JInt m \<and> 0 \<le> m \<and> m \<le> last_sequence (e_journal e)))"

definition fits :: "engine \<Rightarrow> nbd_request \<Rightarrow> bool" where
  "fits e rq \<longleftrightarrow> rq_offset rq mod block_size (e_journal e) = 0 \<and> rq_length rq mod block_size (e_journal e) = 0 \<and>
     0 < rq_length rq \<and> rq_offset rq + rq_length rq \<le> blocks (e_journal e) * block_size (e_journal e)"

lemma engine_read_visible:
  assumes "reachable (e_journal e)" "anchor_ok e" "0 \<le> lba" "1 \<le> n" "lba + n \<le> blocks (e_journal e)"
  shows "\<exists>e1. engine_read lba n e = (Inr (extent (block_size (e_journal e)) lba n (visible e)), e1) \<and> e_journal e1 = e_journal e"
proof -
  let ?s = "if e_state e = RECOVERY_READ_ONLY then e_recovery e else JNull"
  obtain f an where "observe (io_ev READ lba n [] (engine_ns e) None) None (e_analyzer e) = (Inr f, an)"
    by (simp add: observe_def io_ev_def Let_def)
  moreover have "journal_read_at (e_journal e) lba n ?s = Inr (extent (block_size (e_journal e)) lba n (visible e))"
    using assms journal_read_disk [OF reachable_reads [OF assms(1)], of lba n] reachable_last [OF assms(1)]
    by (auto simp: journal_read_at_def visible_def anchor_def anchor_ok_def)
  ultimately show ?thesis by (simp add: engine_read_def)
qed

lemma fits_blocks:
  assumes "fits e rq" "0 < block_size (e_journal e)" "0 \<le> rq_offset rq"
  defines "bs \<equiv> block_size (e_journal e)"
  shows "0 \<le> rq_offset rq div bs" "1 \<le> rq_length rq div bs" "rq_offset rq div bs + rq_length rq div bs \<le> blocks (e_journal e)"
    "rq_offset rq div bs * bs = rq_offset rq" "rq_length rq div bs * bs = rq_length rq"
proof -
  obtain o' l' where ol: "rq_offset rq = bs * o'" "rq_length rq = bs * l'"
    using assms(1) by (auto simp: fits_def bs_def mod_eq_0_iff_dvd elim!: dvdE)
  have b: "0 < bs" using assms(2) by (simp add: bs_def)
  have "bs * (o' + l') \<le> bs * blocks (e_journal e)"
    using assms(1) ol by (simp add: fits_def bs_def algebra_simps)
  then have le: "o' + l' \<le> blocks (e_journal e)" using b by simp
  have "0 < bs * l'" "0 \<le> bs * o'" using assms(1,3) ol by (simp_all add: fits_def)
  then have "0 < l'" "0 \<le> o'" using b by (simp_all add: zero_less_mult_iff zero_le_mult_iff)
  then show "0 \<le> rq_offset rq div bs" "1 \<le> rq_length rq div bs" "rq_offset rq div bs + rq_length rq div bs \<le> blocks (e_journal e)"
    "rq_offset rq div bs * bs = rq_offset rq" "rq_length rq div bs * bs = rq_length rq"
    using b le ol by simp_all
qed

lemma execute_read:
  assumes "reachable (e_journal e)" "anchor_ok e" "fits e rq" "rq_command rq = nbd_cmd_read" "0 \<le> rq_offset rq"
  shows "\<exists>e1. nbd_execute frepr rq payload e = (Inr (0, take (nat (rq_length rq)) (drop (nat (rq_offset rq)) (visible e))), e1) \<and>
    e_journal e1 = e_journal e"
proof -
  have bs: "0 < block_size (e_journal e)" using reachable_rel [OF assms(1)] by (simp add: journal_rel_def)
  note f = fits_blocks [OF assms(3) bs assms(5)]
  show ?thesis
    using engine_read_visible [OF assms(1,2) f(1-3)] assms(3,4) bs f(4,5)
    by (auto simp: nbd_execute_def catch_io_def fits_def export_size_def extent_def nbd_cmds Let_def)
qed

lemma execute_write:
  assumes "reachable (e_journal e)" "fits e rq" "rq_command rq = nbd_cmd_write" "0 \<le> rq_offset rq" "int (length payload) = rq_length rq"
  shows "if writes_allowed (e_state e)
    then \<exists>e1. nbd_execute frepr rq payload e = (Inr (0, []), e1) \<and>
           hist (e_journal e1) = hist (e_journal e) @ [(rq_offset rq div block_size (e_journal e), payload)]
    else nbd_execute frepr rq payload e = (Inr (erofs, []), e)"
proof -
  have bs: "0 < block_size (e_journal e)" using reachable_rel [OF assms(1)] by (simp add: journal_rel_def)
  note f = fits_blocks [OF assms(2) bs assms(4)]
  let ?lba = "rq_offset rq div block_size (e_journal e)"
  have ex: "nbd_execute frepr rq payload e = catch_io (bind_op (engine_write frepr ?lba payload) (\<lambda>_. return_op [])) e"
    using assms(2,3) bs by (auto simp: nbd_execute_def fits_def export_size_def nbd_cmds Let_def)
  show ?thesis
  proof (cases "writes_allowed (e_state e)")
    case True
    have "valid_write (blocks (e_journal e)) (block_size (e_journal e)) (?lba, payload)"
      using assms(2,5) f(1-3) by (auto simp: valid_write_def wcount_def fits_def)
    then obtain d e1 where "engine_write frepr ?lba payload e = (Inr d, e1)"
      "hist (e_journal e1) = hist (e_journal e) @ [(?lba, payload)]"
      using engine_write_accepted [OF assms(1) True] by metis
    then show ?thesis using True by (simp add: ex catch_io_def bind_op_def)
  next
    case False
    then have "engine_write frepr ?lba payload e = (Inl (PermissionError (''writes prohibited in '' @ state_value (e_state e))), e)"
      by (auto simp: engine_write_def writes_allowed_def)
    then show ?thesis using False by (simp add: ex catch_io_def bind_op_def)
  qed
qed

text \<open>What a request does to the engine and what it is answered, in terms of the image.\<close>

definition served :: "nbd_request \<Rightarrow> bytes \<Rightarrow> engine \<Rightarrow> int \<Rightarrow> bytes \<Rightarrow> engine \<Rightarrow> bool" where
  "served rq payload e err data e1 \<longleftrightarrow>
     (if rq_command rq = nbd_cmd_flush
      then data = [] \<and> err = (if rq_offset rq = 0 \<and> rq_length rq = 0 then 0 else einval) \<and> e_journal e1 = e_journal e
      else if \<not> fits e rq then err = einval \<and> data = [] \<and> e1 = e
      else if rq_command rq = nbd_cmd_read
      then err = 0 \<and> data = take (nat (rq_length rq)) (drop (nat (rq_offset rq)) (visible e)) \<and> e_journal e1 = e_journal e
      else if rq_command rq = nbd_cmd_write
      then (if writes_allowed (e_state e)
            then err = 0 \<and> data = [] \<and>
              hist (e_journal e1) = hist (e_journal e) @ [(rq_offset rq div block_size (e_journal e), payload)]
            else err = erofs \<and> data = [] \<and> e1 = e)
      else err = eopnotsupp \<and> data = [] \<and> e1 = e)"

lemma execute_served:
  assumes "reachable (e_journal e)" "anchor_ok e" "request_ok rq"
    and "rq_command rq = nbd_cmd_write \<Longrightarrow> int (length payload) = rq_length rq"
  shows "\<exists>err data e1. nbd_execute frepr rq payload e = (Inr (err, data), e1) \<and> served rq payload e err data e1"
proof -
  have bs: "0 < block_size (e_journal e)" using reachable_rel [OF assms(1)] by (simp add: journal_rel_def)
  have nn: "0 \<le> rq_offset rq" "0 \<le> rq_length rq" using assms(3) by (simp_all add: request_ok_def)
  consider (flush) "rq_command rq = nbd_cmd_flush"
    | (outside) "rq_command rq \<noteq> nbd_cmd_flush" "\<not> fits e rq"
    | (reading) "rq_command rq = nbd_cmd_read" "fits e rq"
    | (writing) "rq_command rq = nbd_cmd_write" "fits e rq"
    | (other) "rq_command rq \<notin> {nbd_cmd_flush, nbd_cmd_read, nbd_cmd_write}" "fits e rq" by blast
  then show ?thesis
  proof cases
    case flush
    then show ?thesis by (auto simp: nbd_execute_def nbd_flush_def engine_flush_def served_def Let_def)
  next
    case outside
    then have "nbd_execute frepr rq payload e = (Inr (einval, []), e)"
      using bs nn by (auto simp: nbd_execute_def fits_def export_size_def Let_def)
    then show ?thesis using outside by (simp add: served_def)
  next
    case reading
    then show ?thesis using execute_read [OF assms(1,2) reading(2,1) nn(1), of frepr payload] by (auto simp: served_def nbd_cmds)
  next
    case writing
    then show ?thesis using execute_write [OF assms(1) writing(2,1) nn(1) assms(4) [OF writing(1)], of frepr]
      by (auto simp: served_def nbd_cmds split: if_splits)
  next
    case other
    then have "nbd_execute frepr rq payload e = (Inr (eopnotsupp, []), e)"
      using bs by (auto simp: nbd_execute_def fits_def export_size_def Let_def)
    then show ?thesis using other by (simp add: served_def)
  qed
qed

lemma receive_payload_exact:
  assumes "if rq_command rq = nbd_cmd_write then int (length payload) = rq_length rq \<and> rq_length rq \<le> max_payload else payload = []"
    and "cn_input c = payload @ rest"
  shows "\<exists>m. receive_payload rq c = (Inr payload, c\<lparr>cn_input := rest, cn_recvs := m\<rparr>)"
proof (cases "rq_command rq = nbd_cmd_write")
  case True
  then have len: "nat (rq_length rq) = length payload" using assms(1) by auto
  then have "receive_payload rq c = recv_exact (length payload) c"
    using True assms(1) by (simp add: receive_payload_def)
  then show ?thesis using recv_exact_spec [of "length payload" c] assms(2) by auto
next
  case False
  then show ?thesis using assms by (intro exI [of _ "cn_recvs c"]) (simp add: receive_payload_def)
qed

lemma transmit_step:
  assumes "request_ok rq" "rq_command rq \<noteq> nbd_cmd_disc" "cn_input c = encode_request rq @ payload @ rest"
    and "if rq_command rq = nbd_cmd_write then int (length payload) = rq_length rq \<and> rq_length rq \<le> max_payload else payload = []"
    and "nbd_execute frepr rq payload e = (Inr (err, data), e1)"
  shows "\<exists>c1. transmit frepr e c = transmit frepr e1 c1 \<and> cn_input c1 = rest \<and>
    cn_output c1 = cn_output c @ nbd_reply err (rq_handle rq) data"
proof -
  obtain m where r: "recv_exact 28 c = (Inr (encode_request rq), c\<lparr>cn_input := payload @ rest, cn_recvs := m\<rparr>)"
    using recv_exact_spec [of 28 c] assms(3) by auto
  obtain m' where p: "receive_payload rq (c\<lparr>cn_input := payload @ rest, cn_recvs := m\<rparr>) =
      (Inr payload, c\<lparr>cn_input := rest, cn_recvs := m'\<rparr>)"
    using receive_payload_exact [OF assms(4), of "c\<lparr>cn_input := payload @ rest, cn_recvs := m\<rparr>" rest] by auto
  have "rq_magic rq = nbd_request_magic" using assms(1) by (simp add: request_ok_def)
  then have "transmit frepr e c = transmit frepr e1 (sendall (nbd_reply err (rq_handle rq) data) (c\<lparr>cn_input := rest, cn_recvs := m'\<rparr>))"
    using assms(2,5) r p by (simp add: transmit.simps [of frepr e c] decode_encode [OF assms(1)] Let_def)
  then show ?thesis by (intro exI conjI) (assumption, simp_all add: sendall_def)
qed

text \<open>
  C38. Every well-formed request at the front of the stream, however the stream is cut into packets,
  is answered by exactly one reply that carries its handle, and the loop goes on behind it. A read
  inside the export returns the bytes of the image (in recovery, of the image at the anchor). A write
  inside the export is answered 0 and is in the journal's history, or, where writes are not allowed,
  is answered EROFS and changes nothing. Requests outside the export or off the block grid are
  answered EINVAL, other commands EOPNOTSUPP, both without effect.
\<close>

theorem nbd_request_served:
  assumes "reachable (e_journal e)" "anchor_ok e" "request_ok rq" "rq_command rq \<noteq> nbd_cmd_disc"
    and "cn_input c = encode_request rq @ payload @ rest"
    and "if rq_command rq = nbd_cmd_write then int (length payload) = rq_length rq \<and> rq_length rq \<le> max_payload else payload = []"
  shows "\<exists>err data e1 c1. transmit frepr e c = transmit frepr e1 c1 \<and> cn_input c1 = rest \<and>
    cn_output c1 = cn_output c @ nbd_reply err (rq_handle rq) data \<and> served rq payload e err data e1"
proof -
  obtain err data e1 where x: "nbd_execute frepr rq payload e = (Inr (err, data), e1)" "served rq payload e err data e1"
    using execute_served [OF assms(1-3), of payload frepr] assms(6) by auto
  then show ?thesis using transmit_step [OF assms(3-6) x(1)] by blast
qed

abbreviation sample_request :: nbd_request where
  "sample_request \<equiv> \<lparr>rq_magic = nbd_request_magic, rq_flags = 0, rq_command = nbd_cmd_write, rq_handle = 7, rq_offset = 1024, rq_length = 512\<rparr>"

abbreviation sample_connection :: "bytes \<Rightarrow> connection" where
  "sample_connection input \<equiv> \<lparr>cn_input = input, cn_chunks = (\<lambda>n. n + 1), cn_recvs = 0, cn_output = []\<rparr>"

theorem nbd_request_served_witness:
  "\<exists>err data e1 c1. transmit (\<lambda>_. ''0.5'') contained_engine (sample_connection (encode_request sample_request @ page 9)) =
      transmit (\<lambda>_. ''0.5'') e1 c1 \<and> cn_input c1 = [] \<and> cn_output c1 = nbd_reply err 7 data \<and> err = erofs \<and> data = [] \<and> e1 = contained_engine"
proof -
  have "fits contained_engine sample_request" by (simp add: fits_def contained_engine_facts sample1_facts)
  then show ?thesis
    using nbd_request_served [of contained_engine sample_request "sample_connection (encode_request sample_request @ page 9)" "page 9" "[]" "\<lambda>_. ''0.5''"]
    by (auto simp: contained_engine_facts sample1_facts anchor_ok_def request_ok_def nbd_cmds nbd_request_magic_def max_payload_def
        served_def writes_allowed_def)
qed

end
