(* ===== verification/Daemon.thy ===== *)
theory Daemon
  imports Nbd_Spec
begin

text \<open>
  The daemon (\<^verbatim>\<open>aegis_shield/daemon/service.py\<close>): the start-up sequence and the commands of the local
  Unix socket. A command is a function on the engine that returns the reply text, or raises; the
  socket loop logs what a command raises and serves the next client.

  Parameter: \<open>load_verifier\<close> is \<open>TokenVerifier(pem)\<close>, which the \<^verbatim>\<open>cryptography\<close> package implements: it
  gives the signature check of a public key, or raises for a file that is no Ed25519 key. \<open>key\<close> is the
  content of the configured key file, if there is one. The texts of operating system errors are
  outside the model.
\<close>

section \<open>Text\<close>

text \<open>\<open>json.dumps(value)\<close> with its default separators.\<close>

fun dumps_plain :: "json \<Rightarrow> string" where
  "dumps_plain JNull = ''null''"
| "dumps_plain (JBool b) = (if b then ''true'' else ''false'')"
| "dumps_plain (JInt i) = show_int i"
| "dumps_plain (JFloat l) = l"
| "dumps_plain (JStr s) = dump_str s"
| "dumps_plain (JArr vs) = CHR ''['' # join '', '' (map dumps_plain vs) @ [CHR '']'']"
| "dumps_plain (JObj kvs) =
     CHR ''{'' # join '', '' (map (\<lambda>kv. dump_str (fst kv) @ '': '' @ dumps_plain (snd kv)) kvs) @ [CHR ''}'']"

text \<open>\<open>str.strip()\<close> takes the separators 0x1C to 0x1F, 0x85 and 0xA0 for white space, unlike \<open>bytes.strip()\<close>.\<close>

definition is_str_space :: "char \<Rightarrow> bool" where
  "is_str_space c \<longleftrightarrow> is_space c \<or> c \<in> {CHR 0x1C, CHR 0x1D, CHR 0x1E, CHR 0x1F, CHR 0x85, CHR 0xA0}"

definition str_strip :: "string \<Rightarrow> string" where
  "str_strip s = rev (dropWhile is_str_space (rev (dropWhile is_str_space s)))"

definition starts_with :: "string \<Rightarrow> string \<Rightarrow> bool" where
  "starts_with s p \<longleftrightarrow> take (length p) s = p"

fun contains_text :: "string \<Rightarrow> string \<Rightarrow> bool" where
  "contains_text p [] = (p = [])"
| "contains_text p (c # s) = (starts_with (c # s) p \<or> contains_text p s)"

text \<open>\<open>repr\<close> of a text with code points below 256.\<close>

definition repr_char :: "char \<Rightarrow> char \<Rightarrow> string" where
  "repr_char q c =
     (let n = of_char c :: nat in
      if c = q \<or> c = CHR 0x5C then [CHR 0x5C, c]
      else if c = CHR 0x0A then [CHR 0x5C, CHR ''n'']
      else if c = CHR 0x0D then [CHR 0x5C, CHR ''r'']
      else if c = CHR 0x09 then [CHR 0x5C, CHR ''t'']
      else if n < 32 \<or> 127 \<le> n \<and> n \<le> 160 \<or> n = 173 then [CHR 0x5C, CHR ''x'', hex_char (n div 16), hex_char (n mod 16)]
      else [c])"

definition py_repr :: "string \<Rightarrow> string" where
  "py_repr s =
     (let q = (if CHR 0x27 \<in> set s \<and> CHR 0x22 \<notin> set s then CHR 0x22 else CHR 0x27)
      in q # concat (map (repr_char q) s) @ [q])"

section \<open>Exceptions\<close>

fun exc_str :: "exc \<Rightarrow> string" where
  "exc_str (ValueError m) = m"
| "exc_str (RuntimeError m) = m"
| "exc_str (PermissionError m) = m"
| "exc_str (JournalCorruptionError m n) = m"
| "exc_str (OSError m) = m"
| "exc_str (FileExistsError m) = m"
| "exc_str _ = []"

fun is_runtime_error :: "exc \<Rightarrow> bool" where
  "is_runtime_error (RuntimeError _) = True"
| "is_runtime_error (JournalCorruptionError _ _) = True"
| "is_runtime_error _ = False"

fun is_value_error :: "exc \<Rightarrow> bool" where
  "is_value_error (ValueError _) = True"
| "is_value_error _ = False"

fun is_permission_error :: "exc \<Rightarrow> bool" where
  "is_permission_error (PermissionError _) = True"
| "is_permission_error _ = False"

text \<open>\<open>try: ... except (classes) as exc: return json.dumps(on_error(str(exc)))\<close>.\<close>

definition try_reply :: "(exc \<Rightarrow> bool) \<Rightarrow> (string \<Rightarrow> json dict) \<Rightarrow> (engine, json dict) oper \<Rightarrow> (engine, string) oper" where
  "try_reply classes on_error m e =
     (case m e of
        (Inr d, e1) \<Rightarrow> (Inr (dumps_plain (JObj d)), e1)
      | (Inl x, e1) \<Rightarrow> if classes x then (Inr (dumps_plain (JObj (on_error (exc_str x)))), e1) else (Inl x, e1))"

section \<open>Socket commands\<close>

definition no_key_reply :: string where
  "no_key_reply = dumps_plain (JObj [(''error'', JStr ''no public key configured on this daemon'')])"

definition token_errors :: "exc \<Rightarrow> bool" where
  "token_errors x \<longleftrightarrow> is_runtime_error x \<or> is_permission_error x \<or> is_value_error x"

definition with_verifier ::
  "(bytes \<Rightarrow> (bytes \<Rightarrow> bytes \<Rightarrow> bool) res) \<Rightarrow> bytes \<Rightarrow> ((bytes \<Rightarrow> bytes \<Rightarrow> bool) \<Rightarrow> (engine, 'a) oper) \<Rightarrow> (engine, 'a) oper" where
  "with_verifier load_verifier pem m e = (case load_verifier pem of Inl x \<Rightarrow> (Inl x, e) | Inr ed \<Rightarrow> m ed e)"

definition socket_authorize ::
  "(bytes \<Rightarrow> (bytes \<Rightarrow> bytes \<Rightarrow> bool) res) \<Rightarrow> bytes option \<Rightarrow> string \<Rightarrow> (engine, string) oper" where
  "socket_authorize load_verifier key token e =
     (case key of
        None \<Rightarrow> (Inr no_key_reply, e)
      | Some pem \<Rightarrow>
          try_reply token_errors (\<lambda>m. [(''authorized'', JBool False), (''error'', JStr m)])
            (with_verifier load_verifier pem (\<lambda>ed.
               bind_op (authorize_recovery ed token True None) (\<lambda>_ e1.
                 (Inr [(''authorized'', JBool True), (''state'', JStr (state_value (e_state e1)))], e1)))) e)"

definition socket_enter_maintenance ::
  "(bytes \<Rightarrow> (bytes \<Rightarrow> bytes \<Rightarrow> bool) res) \<Rightarrow> bytes option \<Rightarrow> string \<Rightarrow> (engine, string) oper" where
  "socket_enter_maintenance load_verifier key token e =
     (case key of
        None \<Rightarrow> (Inr no_key_reply, e)
      | Some pem \<Rightarrow>
          try_reply token_errors (\<lambda>m. [(''maintenance'', JBool False), (''error'', JStr m)])
            (with_verifier load_verifier pem (\<lambda>ed.
               bind_op (enter_maintenance ed token True None) (\<lambda>_ e1.
                 (Inr [(''maintenance'', JBool True), (''state'', JStr (state_value (e_state e1)))], e1)))) e)"

definition socket_exit_maintenance :: "bool \<Rightarrow> (engine, string) oper" where
  "socket_exit_maintenance do_compact =
     try_reply (\<lambda>x. is_runtime_error x \<or> is_value_error x) (\<lambda>m. [(''error'', JStr m)])
       (bind_op (exit_maintenance do_compact) (\<lambda>snapshot_name e1.
          (Inr ((''state'', JStr (state_value (e_state e1))) #
                (case snapshot_name of None \<Rightarrow> [] | Some n \<Rightarrow> if n = [] then [] else [(''compacted_snapshot'', JStr n)])), e1)))"

definition socket_compact :: "(engine, string) oper" where
  "socket_compact =
     try_reply (\<lambda>x. is_runtime_error x \<or> is_value_error x \<or> is_os_error x)
       (\<lambda>m. [(''compacted'', JBool False), (''error'', JStr m)])
       (bind_op (compact_journal ''compact'') (\<lambda>snapshot_name.
          return_op [(''compacted'', JBool True), (''snapshot_name'', JStr snapshot_name)]))"

definition handle_socket_command ::
  "(bytes \<Rightarrow> (bytes \<Rightarrow> bytes \<Rightarrow> bool) res) \<Rightarrow> bytes option \<Rightarrow> string \<Rightarrow> (engine, string) oper" where
  "handle_socket_command load_verifier key command e =
     (if command = ''status'' then (Inr (dumps_plain (JObj (engine_status e))), e)
      else if starts_with command ''authorize ''
      then socket_authorize load_verifier key (str_strip (drop (length ''authorize '') command)) e
      else if starts_with command ''maintenance ''
      then socket_enter_maintenance load_verifier key (str_strip (drop (length ''maintenance '') command)) e
      else if starts_with command ''exit-maintenance''
      then socket_exit_maintenance (contains_text ''compact'' command) e
      else if command = ''compact'' then socket_compact e
      else (Inr (dumps_plain (JObj [(''error'', JStr (''unknown command: '' @ py_repr command))])), e))"

text \<open>
  One client of the socket: \<open>data\<close> is what the one \<open>recv(4096)\<close> decodes to, \<open>None\<close> if it is not
  UTF-8. The reply is what is sent back, \<open>None\<close> if the exchange ended in an exception.
\<close>

definition serve_client ::
  "(bytes \<Rightarrow> (bytes \<Rightarrow> bytes \<Rightarrow> bool) res) \<Rightarrow> bytes option \<Rightarrow> string option \<Rightarrow> engine \<Rightarrow> string option \<times> engine" where
  "serve_client load_verifier key data e =
     (case data of
        None \<Rightarrow> (None, e)
      | Some t \<Rightarrow>
          (case handle_socket_command load_verifier key (str_strip t) e of
             (Inr response, e1) \<Rightarrow> (Some (response @ [nl]), e1)
           | (Inl _, e1) \<Rightarrow> (None, e1)))"

section \<open>Start-up\<close>

definition provision_if_needed ::
  "(ns \<times> (string \<times> ns option) list) option \<Rightarrow> string \<Rightarrow> int \<Rightarrow> int \<Rightarrow> journal res" where
  "provision_if_needed namespace_dir uuid nblocks bsize =
     (case namespace_dir of
        Some (fs, snaps) \<Rightarrow> open_journal fs snaps
      | None \<Rightarrow> provision False uuid nblocks bsize None)"

text \<open>
  \<open>AegisDaemon.run\<close> up to the started engine; \<open>e\<close> carries the audit files, the clock and the state file.
\<close>

definition daemon_start ::
  "(ns \<times> (string \<times> ns option) list) option \<Rightarrow> string \<Rightarrow> int \<Rightarrow> policy_config \<Rightarrow> (engine, unit) oper" where
  "daemon_start namespace_dir uuid nblocks config e =
     (case provision_if_needed namespace_dir uuid nblocks 4096 of
        Inl x \<Rightarrow> (Inl x, e)
      | Inr j \<Rightarrow>
          (case new_policy (Some config) of
             Inl x \<Rightarrow> (Inl x, e\<lparr>e_journal := j\<rparr>)
           | Inr p \<Rightarrow> boot (e\<lparr>e_journal := j, e_policy := p\<rparr>)))"

section \<open>What a command can do\<close>

lemma try_reply_snd [simp]: "snd (try_reply classes on_error m e) = snd (m e)"
  by (simp add: try_reply_def split: prod.splits sum.splits)

lemma bind_pure_snd: "(\<And>x s. snd (f x s) = s) \<Longrightarrow> snd (bind_op m f e) = snd (m e)"
  by (simp add: bind_op_def split: prod.splits sum.splits)

text \<open>A socket command is at most one call of the engine, with presence asserted.\<close>

fun socket_op :: "string \<Rightarrow> engine_op option" where
  "socket_op command =
     (if command = ''status'' then None
      else if starts_with command ''authorize '' then Some (Op_Authorize (str_strip (drop (length ''authorize '') command)) True None)
      else if starts_with command ''maintenance '' then Some (Op_Maintain (str_strip (drop (length ''maintenance '') command)) True None)
      else if starts_with command ''exit-maintenance'' then Some (Op_Exit (contains_text ''compact'' command))
      else if command = ''compact'' then Some (Op_Compact ''compact'')
      else None)"

lemma socket_command_effect:
  "snd (handle_socket_command load_verifier key command e) = e \<or>
   (\<exists>op. socket_op command = Some op \<and>
      ((\<exists>pem ed. key = Some pem \<and> load_verifier pem = Inr ed \<and>
          snd (handle_socket_command load_verifier key command e) = snd (call frepr ed op e)) \<or>
       (\<not> (\<exists>token pr now. op = Op_Authorize token pr now \<or> op = Op_Maintain token pr now) \<and>
          (\<forall>ed. snd (handle_socket_command load_verifier key command e) = snd (call frepr ed op e)))))"
proof -
  have auth: "snd (socket_authorize load_verifier key token e) = e \<or>
      (\<exists>pem ed. key = Some pem \<and> load_verifier pem = Inr ed \<and>
         snd (socket_authorize load_verifier key token e) = snd (authorize_recovery ed token True None e))" for token
    by (cases key; cases "load_verifier (the key)") (auto simp: socket_authorize_def with_verifier_def bind_pure_snd)
  have maint: "snd (socket_enter_maintenance load_verifier key token e) = e \<or>
      (\<exists>pem ed. key = Some pem \<and> load_verifier pem = Inr ed \<and>
         snd (socket_enter_maintenance load_verifier key token e) = snd (enter_maintenance ed token True None e))" for token
    by (cases key; cases "load_verifier (the key)") (auto simp: socket_enter_maintenance_def with_verifier_def bind_pure_snd)
  have ex: "snd (socket_exit_maintenance b e) = snd (exit_maintenance b e)" for b
    by (simp add: socket_exit_maintenance_def bind_pure_snd)
  have cp: "snd (socket_compact e) = snd (compact_journal ''compact'' e)"
    by (simp add: socket_compact_def bind_pure_snd)
  consider (st) "command = ''status''" | (au) "command \<noteq> ''status''" "starts_with command ''authorize ''"
    | (ma) "command \<noteq> ''status''" "\<not> starts_with command ''authorize ''" "starts_with command ''maintenance ''"
    | (ot) "command \<noteq> ''status''" "\<not> starts_with command ''authorize ''" "\<not> starts_with command ''maintenance ''" by blast
  then show ?thesis
  proof cases
    case au
    then show ?thesis using auth [of "str_strip (drop (length ''authorize '') command)"] by (auto simp: handle_socket_command_def)
  next
    case ma
    then show ?thesis using maint [of "str_strip (drop (length ''maintenance '') command)"] by (auto simp: handle_socket_command_def)
  qed (auto simp: handle_socket_command_def ex cp)
qed

end
