(* ===== verification/Sizing.thy ===== *)
theory Sizing
  imports Prelude Complex_Main
begin

text \<open>
  Storage sizing of the hardware design (\<^verbatim>\<open>aegis_shield/core/sizing.py\<close>), over the reals.
\<close>

unbundle bit_operations_syntax

record sizing_result =
  pcie_encoding_ceiling_bytes_s :: real
  payload_iops_ceiling :: real
  ideal_journal_seconds :: real
  maximum_pending_blocks :: int
  overlay_map_bytes :: int
  proxy_write_amplification_lower_bound :: real

definition size_gen2_design ::
  "int \<Rightarrow> int \<Rightarrow> int \<Rightarrow> real \<Rightarrow> int \<Rightarrow> real \<Rightarrow> real \<Rightarrow> sizing_result res" where
  "size_gen2_design lanes logical_block_bytes journal_bytes sustained_unique_write_bytes_s map_entry_bytes
     metadata_bytes_per_logical_block retained_version_bytes_per_logical_block =
     (if lanes \<le> 0 \<or> logical_block_bytes \<le> 0 \<or> journal_bytes \<le> 0 \<or> sustained_unique_write_bytes_s \<le> 0 \<or> map_entry_bytes \<le> 0
      then Inl (ValueError ''all primary sizing inputs must be positive'')
      else if logical_block_bytes AND (logical_block_bytes - 1) \<noteq> 0
      then Inl (ValueError ''logical_block_bytes must be a power of two'')
      else if metadata_bytes_per_logical_block < 0 \<or> retained_version_bytes_per_logical_block < 0
      then Inl (ValueError ''overhead inputs cannot be negative'')
      else (let ceiling = of_int lanes * 5000000000 * (8 / 10) / 8;
                maximum_pending = journal_bytes div logical_block_bytes;
                amplification = 2 + (metadata_bytes_per_logical_block + retained_version_bytes_per_logical_block)
                                      / of_int logical_block_bytes
            in Inr \<lparr>pcie_encoding_ceiling_bytes_s = ceiling,
                    payload_iops_ceiling = ceiling / of_int logical_block_bytes,
                    ideal_journal_seconds = of_int journal_bytes / sustained_unique_write_bytes_s,
                    maximum_pending_blocks = maximum_pending,
                    overlay_map_bytes = maximum_pending * map_entry_bytes,
                    proxy_write_amplification_lower_bound = amplification\<rparr>))"

text \<open>A sizing that is returned is usable: the pending blocks fit the journal and no smaller write amplification than two is promised.\<close>

lemma sizing_sound:
  assumes "size_gen2_design lanes bs jb rate entry meta kept = Inr r"
  shows "maximum_pending_blocks r * bs \<le> jb" "jb < (maximum_pending_blocks r + 1) * bs"
    "2 \<le> proxy_write_amplification_lower_bound r" "payload_iops_ceiling r * of_int bs = pcie_encoding_ceiling_bytes_s r"
proof -
  have p: "0 < bs" "0 \<le> meta" "0 \<le> kept" "r = \<lparr>pcie_encoding_ceiling_bytes_s = of_int lanes * 5000000000 * (8 / 10) / 8,
      payload_iops_ceiling = of_int lanes * 5000000000 * (8 / 10) / 8 / of_int bs, ideal_journal_seconds = of_int jb / rate,
      maximum_pending_blocks = jb div bs, overlay_map_bytes = jb div bs * entry,
      proxy_write_amplification_lower_bound = 2 + (meta + kept) / of_int bs\<rparr>"
    using assms by (auto simp: size_gen2_design_def Let_def split: if_splits)
  have d: "jb = jb div bs * bs + jb mod bs" "0 \<le> jb mod bs" "jb mod bs < bs" using p(1) by simp_all
  have "jb div bs * bs \<le> jb" "jb < jb div bs * bs + bs" using d by linarith+
  then show "maximum_pending_blocks r * bs \<le> jb" "jb < (maximum_pending_blocks r + 1) * bs"
    using p(4) by (simp_all add: distrib_right)
  show "2 \<le> proxy_write_amplification_lower_bound r" "payload_iops_ceiling r * of_int bs = pcie_encoding_ceiling_bytes_s r"
    using p by simp_all
qed

end
