(* ===== verification/Api.thy ===== *)
theory Api
  imports Daemon Sizing
begin

text \<open>
  The HTTP API (\<^verbatim>\<open>aegis_shield/api\<close>): the application state, the API key and the route handlers. The
  framework that parses requests and renders replies is not part of the program; a handler is a
  function from the parsed request and the application to a reply and the application afterwards.

  \<open>secrets.token_hex\<close> values are arguments (\<open>rnd\<close>), \<open>frepr\<close> is the text of a float, and
  \<open>load_verifier\<close> is the constructor of the token verifier, as in the daemon.
\<close>

section \<open>Application\<close>

record challenge =
  ch_action :: string
  ch_issued_at :: int
  ch_device_id :: string

record app =
  ap_engine :: engine
  ap_challenges :: "challenge dict"
  ap_public_key :: "bytes option"
  ap_active_key :: "string option"
  ap_root :: string

datatype http_reply = Reply "json dict" | Http_Error int string | Raises exc

definition create_app :: "engine \<Rightarrow> bytes option \<Rightarrow> string option \<Rightarrow> string \<Rightarrow> app" where
  "create_app e key active rootdir =
     \<lparr>ap_engine = e, ap_challenges = [], ap_public_key = key, ap_active_key = active, ap_root = rootdir\<rparr>"

definition on_engine :: "(engine \<Rightarrow> engine) \<Rightarrow> app \<Rightarrow> app" where
  "on_engine f a = a\<lparr>ap_engine := f (ap_engine a)\<rparr>"

section \<open>API key\<close>

definition get_active_key :: "string option \<Rightarrow> string \<Rightarrow> app \<Rightarrow> string \<times> app" where
  "get_active_key env rnd a =
     (case ap_active_key a of
        Some k \<Rightarrow> (k, a)
      | None \<Rightarrow>
          (let k = (case env of Some v \<Rightarrow> if v = [] then rnd else v | None \<Rightarrow> rnd)
           in (k, a\<lparr>ap_active_key := Some k\<rparr>)))"

definition key_fingerprint :: "string \<Rightarrow> string" where
  "key_fingerprint key = take 12 (sha256_hex key)"

definition require_api_key :: "string option \<Rightarrow> string \<Rightarrow> string option \<Rightarrow> app \<Rightarrow> bool \<times> app" where
  "require_api_key env rnd api_key a =
     (case get_active_key env rnd a of (active, a1) \<Rightarrow> (api_key = Some active, a1))"

definition guarded :: "string option \<Rightarrow> string \<Rightarrow> string option \<Rightarrow> (app \<Rightarrow> http_reply \<times> app) \<Rightarrow> app \<Rightarrow> http_reply \<times> app" where
  "guarded env rnd api_key handler a =
     (case require_api_key env rnd api_key a of
        (True, a1) \<Rightarrow> handler a1
      | (False, a1) \<Rightarrow> (Http_Error 401 ''Invalid or missing API key'', a1))"

section \<open>Status\<close>

definition health :: "app \<Rightarrow> http_reply \<times> app" where
  "health a = (Reply [(''status'', JStr ''ok''), (''state'', JStr (state_value (e_state (ap_engine a))))], a)"

definition get_status :: "app \<Rightarrow> http_reply \<times> app" where
  "get_status a =
     (let e = ap_engine a in
      (Reply (engine_status e @ [(''journal_capacity_blocks'', JInt (blocks (e_journal e))),
                                 (''journal_block_size'', JInt (block_size (e_journal e)))]), a))"

definition sizing_dict :: "(real \<Rightarrow> string) \<Rightarrow> sizing_result \<Rightarrow> json dict" where
  "sizing_dict frepr r =
     [(''pcie_encoding_ceiling_bytes_s'', JFloat (frepr (pcie_encoding_ceiling_bytes_s r))),
      (''payload_iops_ceiling'', JFloat (frepr (payload_iops_ceiling r))),
      (''ideal_journal_seconds'', JFloat (frepr (ideal_journal_seconds r))),
      (''maximum_pending_blocks'', JInt (maximum_pending_blocks r)),
      (''overlay_map_bytes'', JInt (overlay_map_bytes r)),
      (''proxy_write_amplification_lower_bound'', JFloat (frepr (proxy_write_amplification_lower_bound r)))]"

definition get_sizing :: "(real \<Rightarrow> string) \<Rightarrow> app \<Rightarrow> http_reply \<times> app" where
  "get_sizing frepr a =
     (let j = e_journal (ap_engine a) in
      case size_gen2_design 4 (block_size j) (blocks j * block_size j) (500 * 1024 * 1024) 32 0 0 of
        Inl x \<Rightarrow> (Raises x, a)
      | Inr r \<Rightarrow> (Reply (sizing_dict frepr r @
          [(''model'', JStr ''pcie-gen2-x4-hardware-design''),
           (''applies_to'', JStr ''hypothetical FPGA interposer described in docs/ARCHITECTURE.md; not a measurement of this software deployment'')]), a))"

section \<open>Challenges\<close>

definition challenge_ttl_seconds :: int where
  "challenge_ttl_seconds = 120"

definition max_challenges :: nat where
  "max_challenges = 256"

definition max_snapshots :: nat where
  "max_snapshots = 32"

definition allowed_actions :: "string list" where
  "allowed_actions = [''enter_recovery_read_only'', ''enter_maintenance'']"

text \<open>\<open>while len(challenges) >= limit: challenges.pop(next(iter(challenges)))\<close>.\<close>

fun evict_oldest :: "nat \<Rightarrow> 'v dict \<Rightarrow> 'v dict" where
  "evict_oldest limit [] = []"
| "evict_oldest limit (c # cs) = (if limit \<le> length (c # cs) then evict_oldest limit cs else c # cs)"

definition create_challenge :: "string \<Rightarrow> string \<Rightarrow> app \<Rightarrow> http_reply \<times> app" where
  "create_challenge action rnd a =
     (if action \<notin> set allowed_actions
      then (Http_Error 400 (''unsupported action; expected one of ['' @ quoted ''enter_maintenance'' @ '', '' @
              quoted ''enter_recovery_read_only'' @ '']''), a)
      else (let e = ap_engine a;
                now = engine_seconds e;
                live = filter (\<lambda>(_, c). \<not> challenge_ttl_seconds < now - ch_issued_at c) (ap_challenges a);
                room = evict_oldest max_challenges live;
                ch = \<lparr>ch_action = action, ch_issued_at = now, ch_device_id = device_id (e_journal e)\<rparr>;
                expires = engine_seconds (engine_tick e) + challenge_ttl_seconds
            in (Reply [(''challenge_id'', JStr rnd), (''action'', JStr action), (''device_id'', JStr (device_id (e_journal e))),
                       (''expires_at'', JInt expires)],
                a\<lparr>ap_challenges := AList.update rnd ch room, ap_engine := engine_tick (engine_tick e)\<rparr>)))"

definition authorize_action ::
  "(bytes \<Rightarrow> (bytes \<Rightarrow> bytes \<Rightarrow> bool) res) \<Rightarrow> string \<Rightarrow> string \<Rightarrow> app \<Rightarrow> http_reply \<times> app" where
  "authorize_action load_verifier challenge_id token a =
     (case map_of (ap_challenges a) challenge_id of
        None \<Rightarrow> (Http_Error 404 ''Challenge not found or expired'', a)
      | Some _ \<Rightarrow>
          (let a1 = a\<lparr>ap_challenges := AList.delete challenge_id (ap_challenges a)\<rparr> in
           case ap_public_key a of
             None \<Rightarrow> (Http_Error 503 ''No public key configured for token verification'', a1)
           | Some pem \<Rightarrow>
               (case with_verifier load_verifier pem (\<lambda>ed. engine_verify ed token ''enter_recovery_read_only'' None) (ap_engine a) of
                  (Inr _, e1) \<Rightarrow>
                    (Reply [(''token_valid'', JBool True),
                       (''detail'', JStr (''Token verified. To complete recovery, assert physical presence via the local Unix socket: echo ''
                          @ quoted ''authorize <token>'' @ '' | nc -U /run/aegis-shield/aegis.sock''))], a1\<lparr>ap_engine := e1\<rparr>)
                | (Inl x, e1) \<Rightarrow>
                    (if is_runtime_error x \<or> is_value_error x
                     then Reply [(''token_valid'', JBool False), (''detail'', JStr (exc_str x))] else Raises x,
                     a1\<lparr>ap_engine := e1\<rparr>))))"

section \<open>Recovery export\<close>

text \<open>The files of a snapshot directory, with their contents.\<close>

definition dir_files :: "ns \<Rightarrow> bytes dict" where
  "dir_files fs = sort_key fst
     ([(''base.img'', f_base fs), (''journal.jsonl'', text_bytes (f_log fs)), (''metadata.json'', text_bytes (f_metadata fs))] @
      map (\<lambda>(n, t). (n, text_bytes t)) (f_sidecars fs))"

definition export_manifest :: "string \<Rightarrow> int \<Rightarrow> ns \<Rightarrow> string \<Rightarrow> int \<Rightarrow> json dict" where
  "export_manifest device exported_at fs name target =
     [(''device_id'', JStr device), (''exported_at_ns'', JInt exported_at),
      (''files'', JObj (map (\<lambda>(n, d). (n, JStr (hex_of (sha256 d)))) (dir_files fs))),
      (''snapshot_name'', JStr name), (''target_sequence'', JInt target)]"

definition export_note :: string where
  "export_note = ''Snapshot contains base.img and journal.jsonl truncated at target_sequence. '' @
     ''Open with DurableJournal(snapshot_path) and read(block, at_sequence=target_sequence). '' @
     ''Verify integrity: re-hash snapshot files and compare against manifest.json.''"

text \<open>After the snapshot: the manifest, its file in the snapshot, the audit event, the reply.\<close>

definition finish_export :: "string \<Rightarrow> int \<Rightarrow> ns \<Rightarrow> app \<Rightarrow> http_reply \<times> app" where
  "finish_export name target fs a =
     (let e = ap_engine a;
          j = e_journal e;
          manifest = export_manifest (device_id j) (engine_ns e) fs name target;
          manifest_text = dumps_indent2 (JObj manifest);
          integrity = sha256_hex manifest_text;
          fs1 = fs\<lparr>f_sidecars := AList.update ''manifest.json'' manifest_text (f_sidecars fs)\<rparr>;
          e1 = log_event ''recovery_export''
                 [(''integrity_sha256'', JStr integrity), (''snapshot_name'', JStr name), (''target_sequence'', JInt target)]
                 ((engine_tick e)\<lparr>e_journal := put_snapshot name (Some fs1) j\<rparr>)
      in (Reply [(''device_id'', JStr (device_id j)), (''integrity_sha256'', JStr integrity), (''note'', JStr export_note),
                 (''snapshot_name'', JStr name), (''snapshot_path'', JStr (ap_root a @ ''/snapshots/'' @ name)),
                 (''target_sequence'', JInt target)], a\<lparr>ap_engine := e1\<rparr>))"

definition export_name :: "int \<Rightarrow> int \<Rightarrow> string \<Rightarrow> string" where
  "export_name now target rnd = ''export-'' @ show_int now @ ''-seq'' @ show_int target @ ''-'' @ rnd"

definition recovery_export :: "int option \<Rightarrow> string \<Rightarrow> app \<Rightarrow> http_reply \<times> app" where
  "recovery_export requested rnd a =
     (let e = ap_engine a;
          j = e_journal e;
          target = (case requested of None \<Rightarrow> last_sequence j | Some n \<Rightarrow> n)
      in if \<not> (0 \<le> target \<and> target \<le> last_sequence j) then (Http_Error 400 ''Invalid target_sequence'', a)
         else if max_snapshots \<le> length (j_snapshots j)
         then (Http_Error 507 (''snapshot limit reached (32); remove old snapshots under the namespace'' @ [CHR 0x27] @
                 ''s snapshots/ directory before exporting again''), a)
         else (let name = export_name (engine_ns e) target rnd in
               case snapshot name (Some target) j of
                 (Inl x, j1) \<Rightarrow>
                   (case x of
                      FileExistsError _ \<Rightarrow> Http_Error 409 ''snapshot already exists''
                    | _ \<Rightarrow> if is_os_error x \<or> is_value_error x then Http_Error 500 ''snapshot could not be created'' else Raises x,
                    a\<lparr>ap_engine := (engine_tick e)\<lparr>e_journal := j1\<rparr>\<rparr>)
               | (Inr _, j1) \<Rightarrow>
                   (case map_of (j_snapshots j1) name of
                      Some (Some fs) \<Rightarrow> finish_export name target fs (a\<lparr>ap_engine := (engine_tick e)\<lparr>e_journal := j1\<rparr>\<rparr>)
                    | _ \<Rightarrow> (Raises (OSError ''snapshot directory''), a\<lparr>ap_engine := (engine_tick e)\<lparr>e_journal := j1\<rparr>\<rparr>))))"

section \<open>Events\<close>

fun load_events :: "string list \<Rightarrow> json list res" where
  "load_events [] = Inr []"
| "load_events (raw # rest) =
     (if strip raw = [] then load_events rest
      else (case json_loads raw of
              None \<Rightarrow> Inl (ValueError ''JSONDecodeError'')
            | Some v \<Rightarrow> bind_res (load_events rest) (\<lambda>vs. Inr (v # vs))))"

definition read_log_file :: "string \<Rightarrow> json list res" where
  "read_log_file t = load_events (lines_of t)"

text \<open>\<open>str.isdigit\<close> also accepts the superscripts 1, 2 and 3, which \<open>int\<close> refuses.\<close>

definition is_digit_text :: "string \<Rightarrow> bool" where
  "is_digit_text s \<longleftrightarrow> s \<noteq> [] \<and> list_all (\<lambda>c. is_digit c \<or> c \<in> {CHR 0xB2, CHR 0xB3, CHR 0xB9}) s"

definition ends_with :: "string \<Rightarrow> string \<Rightarrow> bool" where
  "ends_with s p \<longleftrightarrow> length p \<le> length s \<and> drop (length s - length p) s = p"

text \<open>The number in the name of an archive, if the name is one.\<close>

definition archive_number :: "string \<Rightarrow> string \<Rightarrow> string \<Rightarrow> nat option res" where
  "archive_number stem suffix name =
     (if \<not> starts_with name (stem @ ''.'') \<or> \<not> ends_with name suffix then Inr None
      else (let middle = py_slice name (int (length stem) + 1) (- int (length suffix)) in
            if \<not> is_digit_text middle then Inr None
            else if list_all is_digit middle then Inr (Some (dec_val middle))
            else Inl (ValueError ''invalid literal for int()'')))"

fun find_archives :: "string \<Rightarrow> string \<Rightarrow> (string \<times> string) list \<Rightarrow> (nat \<times> string) list res" where
  "find_archives stem suffix [] = Inr []"
| "find_archives stem suffix ((name, t) # rest) =
     bind_res (archive_number stem suffix name) (\<lambda>n.
     bind_res (find_archives stem suffix rest) (\<lambda>found.
       Inr (case n of None \<Rightarrow> found | Some k \<Rightarrow> (k, t) # found)))"

fun read_all :: "string list \<Rightarrow> json list res" where
  "read_all [] = Inr []"
| "read_all (t # ts) = bind_res (read_log_file t) (\<lambda>vs. bind_res (read_all ts) (\<lambda>rest. Inr (vs @ rest)))"

text \<open>The directory holds the active file and the archives; \<open>iterdir\<close> yields the latter in the order of the list.\<close>

definition collect_all_events :: "audit_log \<Rightarrow> json list res" where
  "collect_all_events au =
     bind_res (find_archives (au_stem au) (au_suffix au) (au_archives au)) (\<lambda>archives.
       read_all (map snd (sort_key fst archives) @ [au_text au]))"

definition get_events :: "int \<Rightarrow> int \<Rightarrow> app \<Rightarrow> http_reply \<times> app" where
  "get_events after limit a =
     (case collect_all_events (e_audit (ap_engine a)) of
        Inl x \<Rightarrow> (Raises x, a)
      | Inr all_events \<Rightarrow>
          (let page = py_slice all_events after (after + limit)
           in (Reply [(''total'', JInt (int (length all_events))), (''after'', JInt after), (''count'', JInt (int (length page))),
                      (''events'', JArr page)], a)))"

section \<open>Routes\<close>

datatype http_request =
    Get_Health
  | Get_Status
  | Get_Sizing
  | Get_Events int int
  | Post_Challenge string
  | Post_Authorize string string
  | Post_Export "int option"

text \<open>The routes with their dependency on the API key; \<open>after\<close> and \<open>limit\<close> outside their declared ranges are refused.\<close>

definition http_handle ::
  "(real \<Rightarrow> string) \<Rightarrow> (bytes \<Rightarrow> (bytes \<Rightarrow> bytes \<Rightarrow> bool) res) \<Rightarrow> string option \<Rightarrow> string \<Rightarrow> string \<Rightarrow> string option \<Rightarrow>
   http_request \<Rightarrow> app \<Rightarrow> http_reply \<times> app" where
  "http_handle frepr load_verifier env fresh rnd api_key request =
     (case request of
        Get_Health \<Rightarrow> health
      | Get_Status \<Rightarrow> guarded env fresh api_key get_status
      | Get_Sizing \<Rightarrow> guarded env fresh api_key (get_sizing frepr)
      | Get_Events after limit \<Rightarrow>
          guarded env fresh api_key (\<lambda>a. if after < 0 \<or> limit < 1 \<or> 1000 < limit then (Http_Error 422 [], a) else get_events after limit a)
      | Post_Challenge action \<Rightarrow> guarded env fresh api_key (create_challenge action rnd)
      | Post_Authorize challenge_id token \<Rightarrow> guarded env fresh api_key (authorize_action load_verifier challenge_id token)
      | Post_Export target \<Rightarrow> guarded env fresh api_key (recovery_export target rnd))"

end
