(* ===== verification/Events_Spec.thy ===== *)
theory Events_Spec
  imports Api
begin

text \<open>
  The audit history that the events route returns, over all rotated files, and what an append outside
  the engine's lock does to the chain.
\<close>

section \<open>Reading one file\<close>





section \<open>The archives of a run\<close>




lemma audit_append_names [simp]:
  "au_stem (snd (audit_append ev d a)) = au_stem a" "au_suffix (snd (audit_append ev d a)) = au_suffix a"
  by (simp_all add: audit_append_def append_event_def rotate_log_def Let_def tick_def)




section \<open>Finding the archives\<close>












section \<open>Appending outside the lock\<close>





end
