(* ===== verification/Front_Doors.thy ===== *)
theory Front_Doors
  imports Events_Spec
begin

text \<open>
  The daemon with its three doors: the NBD export, the HTTP API and the Unix socket. The engine's lock
  makes every method atomic; a client of one door is served by a sequence of method calls, and the
  clients of all doors together are a sequence of such services.
\<close>

section \<open>What the API does to the engine\<close>

inductive side :: "engine \<Rightarrow> engine \<Rightarrow> bool" for e where
  same: "side e e"
| ticks: "side e e' \<Longrightarrow> side e (engine_tick e')"
| relists: "side e e' \<Longrightarrow> side e (e'\<lparr>e_journal := (e_journal e')\<lparr>j_snapshots := snaps\<rparr>\<rparr>)"
| logs: "side e e' \<Longrightarrow> wf_json (JObj d) \<Longrightarrow> ev \<noteq> state_digest_event \<Longrightarrow> side e (log_event ev d e')"

lemma side_keeps:
  "side e e' \<Longrightarrow> e_state e' = e_state e \<and> e_version e' = e_version e \<and> e_containment e' = e_containment e \<and>
     e_recovery e' = e_recovery e \<and> e_nonces e' = e_nonces e \<and> jimage (e_journal e') = jimage (e_journal e) \<and>
     (reachable (e_journal e) \<longrightarrow> reachable (e_journal e'))"
  by (induction rule: side.induct) (auto simp: jimage_def intro: reachable.relisted)

lemma side_reachable: "side e e' \<Longrightarrow> engine_reachable frepr ed e \<Longrightarrow> engine_reachable frepr ed e'"
  by (induction rule: side.induct) (auto intro: engine_reachable.intros)

lemma snapshot_relists: "\<exists>snaps. snd (snapshot name s j) = j\<lparr>j_snapshots := snaps\<rparr>"
proof -
  have "snd (snapshot name s j) = j \<or> (\<exists>v. snd (snapshot name s j) = put_snapshot name v j)"
    by (auto simp: snapshot_def Let_def split: sum.splits)
  then show ?thesis
  proof
    assume "snd (snapshot name s j) = j"
    then show ?thesis by (intro exI [of _ "j_snapshots j"]) simp
  qed (auto simp: put_snapshot_def)
qed

lemma guarded_engine:
  assumes "\<And>b. side (ap_engine b) (ap_engine (snd (handler b)))"
  shows "side (ap_engine a) (ap_engine (snd (guarded env rnd api_key handler a)))"
proof -
  obtain ok a1 where r: "require_api_key env rnd api_key a = (ok, a1)" by fastforce
  then have "ap_engine a1 = ap_engine a"
    by (auto simp: require_api_key_def get_active_key_def Let_def split: option.splits)
  then show ?thesis using assms [of a1] r by (cases ok) (auto simp: guarded_def intro: side.same)
qed

lemma export_side: "side (ap_engine a) (ap_engine (snd (recovery_export requested rnd a)))"
proof -
  let ?e = "ap_engine a"
  have snap: "side ?e ((engine_tick ?e)\<lparr>e_journal := snd (snapshot name s (e_journal ?e))\<rparr>)" for name s
    using snapshot_relists [of name s "e_journal ?e"] side.relists [OF side.ticks [OF side.same], of ?e] by auto
  have fin: "side ?e (ap_engine (snd (finish_export name target fs (a\<lparr>ap_engine := e1\<rparr>))))" if "side ?e e1" for name target fs e1
    using side.ticks [OF that, THEN side.relists] that
    by (auto simp: finish_export_def Let_def put_snapshot_def state_digest_event_def intro!: side.logs)
  show ?thesis
  proof (cases "snapshot (export_name (engine_ns ?e) (case requested of None \<Rightarrow> last_sequence (e_journal ?e) | Some n \<Rightarrow> n) rnd)
      (Some (case requested of None \<Rightarrow> last_sequence (e_journal ?e) | Some n \<Rightarrow> n)) (e_journal ?e)")
    case (Pair r j1)
    then have s: "side ?e ((engine_tick ?e)\<lparr>e_journal := j1\<rparr>)" using snap by (metis snd_conv)
    then show ?thesis
      using Pair fin [OF s] side.same
      by (auto simp: recovery_export_def Let_def simp del: finish_export_def split: sum.splits option.splits)
  qed
qed

lemma challenge_side: "side (ap_engine a) (ap_engine (snd (create_challenge action rnd a)))"
  by (auto simp: create_challenge_def Let_def intro: side.intros)

lemma authorize_side: "side (ap_engine a) (ap_engine (snd (authorize_action load_verifier cid token a)))"
  by (auto simp: authorize_action_def with_verifier_def engine_verify_def Let_def intro: side.intros
      split: option.splits sum.splits prod.splits)

text \<open>Whatever is requested over HTTP, the engine is left as it is but for clock readings, snapshots and audit events.\<close>

lemma http_side: "side (ap_engine a) (ap_engine (snd (http_handle frepr load_verifier env fresh rnd api_key request a)))"
proof (cases request)
  case Get_Health
  then show ?thesis by (auto simp: http_handle_def health_def intro: side.same)
next
  case (Get_Events after lim)
  then show ?thesis
    by (auto simp: http_handle_def get_events_def Let_def split: sum.splits intro!: guarded_engine side.same)
next
  case (Post_Challenge action)
  then show ?thesis using guarded_engine [OF challenge_side] by (simp add: http_handle_def)
next
  case (Post_Authorize cid token)
  then show ?thesis using guarded_engine [OF authorize_side] by (simp add: http_handle_def)
next
  case (Post_Export target)
  then show ?thesis using guarded_engine [OF export_side] by (simp add: http_handle_def)
qed (auto simp: http_handle_def get_status_def get_sizing_def Let_def split: sum.splits intro!: guarded_engine side.same)

section \<open>Clients\<close>

datatype door =
    Nbd_Client connection
  | Http_Client "string option" string string "string option" http_request
  | Socket_Client "string option"

fun serve_door ::
  "(real \<Rightarrow> string) \<Rightarrow> (bytes \<Rightarrow> (bytes \<Rightarrow> bytes \<Rightarrow> bool) res) \<Rightarrow> bytes \<Rightarrow> door \<Rightarrow> app \<Rightarrow> app" where
  "serve_door frepr load_verifier export (Nbd_Client c) a =
     a\<lparr>ap_engine := fst (snd (serve_connection frepr export (ap_engine a) c))\<rparr>"
| "serve_door frepr load_verifier export (Http_Client env fresh rnd api_key request) a =
     snd (http_handle frepr load_verifier env fresh rnd api_key request a)"
| "serve_door frepr load_verifier export (Socket_Client data) a =
     a\<lparr>ap_engine := snd (serve_client load_verifier (ap_public_key a) data (ap_engine a))\<rparr>"

definition serve_doors ::
  "(real \<Rightarrow> string) \<Rightarrow> (bytes \<Rightarrow> (bytes \<Rightarrow> bytes \<Rightarrow> bool) res) \<Rightarrow> bytes \<Rightarrow> door list \<Rightarrow> app \<Rightarrow> app" where
  "serve_doors frepr load_verifier export doors a = foldl (\<lambda>a door. serve_door frepr load_verifier export door a) a doors"

fun over_network :: "door \<Rightarrow> bool" where
  "over_network (Socket_Client _) = False"
| "over_network _ = True"

definition held :: "engine \<Rightarrow> engine \<Rightarrow> bool" where
  "held e e' \<longleftrightarrow> e_state e' = e_state e \<and> e_version e' = e_version e \<and> jimage (e_journal e') = jimage (e_journal e) \<and>
     reachable (e_journal e')"


lemma data_op_held:
  assumes "data_op op" "reachable (e_journal e)" "\<not> writes_allowed (e_state e)"
  shows "held e (snd (call frepr ed op e))"
proof (cases op)
  case (Op_Read lba n)
  then show ?thesis using assms
    by (auto simp: held_def engine_read_def Let_def split: prod.splits sum.splits)
next
  case (Op_Write lba payload)
  then show ?thesis using assms by (auto simp: held_def engine_write_def writes_allowed_def)
next
  case Op_Flush
  then show ?thesis using assms by (simp add: held_def engine_flush_def)
qed (use assms in auto)

lemma data_run_held:
  assumes "data_run frepr e e'" "reachable (e_journal e)" "\<not> writes_allowed (e_state e)"
  shows "held e e'"
proof -
  obtain ops where ops: "list_all data_op ops" "\<And>ed. e' = run_ops frepr ed e ops"
    using assms(1) by (auto simp: data_run_def)
  have "list_all data_op ops \<Longrightarrow> held e (run_ops frepr ed e ops)" for ed
  proof (induction ops rule: rev_induct)
    case (snoc op ops)
    then have h: "held e (run_ops frepr ed e ops)" by simp
    then have "held (run_ops frepr ed e ops) (snd (call frepr ed op (run_ops frepr ed e ops)))"
      using snoc.prems assms(3) by (intro data_op_held) (simp_all add: held_def)
    then show ?case using h by (simp add: run_ops_def held_def)
  qed (simp add: held_def run_ops_def assms(2))
  then show ?thesis using ops by simp
qed

text \<open>Whatever its clients do, the engine of a daemon stays one that a run can reach, so all properties of runs hold of it.\<close>

lemma door_reachable:
  assumes "engine_reachable frepr ed (ap_engine a)"
    and "\<And>pem ed'. ap_public_key a = Some pem \<Longrightarrow> load_verifier pem = Inr ed' \<Longrightarrow> ed' = ed"
  shows "engine_reachable frepr ed (ap_engine (serve_door frepr load_verifier export door a))"
proof (cases door)
  case (Nbd_Client c)
  obtain ops where "fst (snd (serve_connection frepr export (ap_engine a) c)) = run_ops frepr ed (ap_engine a) ops"
    using serve_connection_run [of frepr "ap_engine a" export c] by (auto simp: data_run_def)
  then show ?thesis using run_ops_reachable [OF assms(1)] Nbd_Client by simp
next
  case (Http_Client env fresh rnd api_key request)
  then show ?thesis using side_reachable [OF http_side assms(1)] by simp
next
  case (Socket_Client data)
  let ?e' = "snd (serve_client load_verifier (ap_public_key a) data (ap_engine a))"
  have "?e' = ap_engine a \<or> (\<exists>op. ?e' = snd (call frepr ed op (ap_engine a)))"
  proof (cases data)
    case (Some t)
    then have "?e' = snd (handle_socket_command load_verifier (ap_public_key a) (str_strip t) (ap_engine a))"
      by (simp add: serve_client_def split: prod.splits sum.splits)
    then show ?thesis
      using socket_command_effect [of load_verifier "ap_public_key a" "str_strip t" "ap_engine a" frepr] assms(2) by metis
  qed (simp add: serve_client_def)
  then show ?thesis using assms(1) engine_reachable.call Socket_Client by auto
qed

section \<open>Containment behind all doors\<close>

text \<open>A client of the socket presents a token that the engine accepts in the state of \<open>b\<close>.\<close>

definition presents_token :: "(bytes \<Rightarrow> (bytes \<Rightarrow> bytes \<Rightarrow> bool) res) \<Rightarrow> app \<Rightarrow> door \<Rightarrow> bool" where
  "presents_token load_verifier b door \<longleftrightarrow>
     (\<exists>t pem ed token action auth.
        door = Socket_Client (Some t) \<and> ap_public_key b = Some pem \<and> load_verifier pem = Inr ed \<and>
        (starts_with (str_strip t) ''authorize '' \<and> token = str_strip (drop (length ''authorize '') (str_strip t)) \<and>
           action = ''enter_recovery_read_only'' \<or>
         starts_with (str_strip t) ''maintenance '' \<and> token = str_strip (drop (length ''maintenance '') (str_strip t)) \<and>
           action = ''enter_maintenance'') \<and>
        token_verify ed token (device_id (e_journal (ap_engine b))) action (e_version (ap_engine b)) (engine_seconds (ap_engine b)) = Inr auth \<and>
        ra_nonce auth \<notin> set (keys (e_nonces (ap_engine b))))"

lemma socket_contained:
  fixes load_verifier :: "bytes \<Rightarrow> (bytes \<Rightarrow> bytes \<Rightarrow> bool) res" and data :: "string option"
  assumes "reachable (e_journal (ap_engine a))" "e_state (ap_engine a) = CONTAINED"
  defines "e' \<equiv> snd (serve_client load_verifier (ap_public_key a) data (ap_engine a))"
  shows "e_state e' = CONTAINED \<and> jimage (e_journal e') = jimage (e_journal (ap_engine a)) \<and> reachable (e_journal e') \<or>
    presents_token load_verifier a (Socket_Client data)"
proof (cases data)
  case None
  then show ?thesis using assms(1,2) by (simp add: e'_def serve_client_def)
next
  case (Some t)
  let ?e = "ap_engine a" and ?c = "str_strip t"
  have e': "e' = snd (handle_socket_command load_verifier (ap_public_key a) ?c ?e)"
    by (simp add: e'_def Some serve_client_def split: prod.splits sum.splits)
  consider (same) "e' = ?e"
    | (token) op pem ed where "socket_op ?c = Some op" "ap_public_key a = Some pem" "load_verifier pem = Inr ed" "e' = snd (call (\<lambda>_. []) ed op ?e)"
    | (plain) op where "socket_op ?c = Some op" "\<not> (\<exists>token pr now. op = Op_Authorize token pr now \<or> op = Op_Maintain token pr now)"
        "e' = snd (call (\<lambda>_. []) (\<lambda>_ _. False) op ?e)"
    using socket_command_effect [of load_verifier "ap_public_key a" ?c ?e "\<lambda>_. []"] e' by metis
  then show ?thesis
  proof cases
    case same
    then show ?thesis using assms(1,2) by simp
  next
    case token
    show ?thesis
    proof (cases "e_state e' = CONTAINED")
      case True
      then show ?thesis using held_call [OF assms(1,2)] token(4) by metis
    next
      case False
      then obtain tok now auth action where x: "op = Op_Authorize tok True now \<and> action = ''enter_recovery_read_only'' \<or>
          op = Op_Maintain tok True now \<and> action = ''enter_maintenance''"
        "token_verify ed tok (device_id (e_journal ?e)) action (e_version ?e) (verify_time now ?e) = Inr auth"
        "ra_nonce auth \<notin> set (keys (e_nonces ?e))"
        using exit_authorized [OF assms(2), of "\<lambda>_. []" ed op] token(4) by metis
      have "now = None \<and> (starts_with ?c ''authorize '' \<and> tok = str_strip (drop (length ''authorize '') ?c) \<and> action = ''enter_recovery_read_only'' \<or>
          starts_with ?c ''maintenance '' \<and> tok = str_strip (drop (length ''maintenance '') ?c) \<and> action = ''enter_maintenance'')"
        using token(1) x(1) by (auto split: if_splits)
      then show ?thesis using x(2,3) token(2,3) Some
        unfolding presents_token_def by (simp only: verify_time_def option.case) blast
    qed
  next
    case plain
    have "e_state e' = CONTAINED"
      using exit_authorized [OF assms(2), of "\<lambda>_. []" "\<lambda>_ _. False" op] plain(2,3) by metis
    then show ?thesis using held_call [OF assms(1,2)] plain(3) by metis
  qed
qed

lemma door_contained:
  fixes frepr :: "real \<Rightarrow> string" and load_verifier :: "bytes \<Rightarrow> (bytes \<Rightarrow> bytes \<Rightarrow> bool) res" and export :: bytes and door :: door
  assumes "reachable (e_journal (ap_engine a))" "e_state (ap_engine a) = CONTAINED"
  defines "a' \<equiv> serve_door frepr load_verifier export door a"
  shows "e_state (ap_engine a') = CONTAINED \<and> jimage (e_journal (ap_engine a')) = jimage (e_journal (ap_engine a)) \<and>
     reachable (e_journal (ap_engine a')) \<or> presents_token load_verifier a door"
proof (cases door)
  case (Nbd_Client c)
  have "held (ap_engine a) (fst (snd (serve_connection frepr export (ap_engine a) c)))"
    using serve_connection_run assms(1,2) by (intro data_run_held) (simp_all add: writes_allowed_def)
  then show ?thesis using assms(2) by (simp add: a'_def Nbd_Client held_def)
next
  case (Http_Client env fresh rnd api_key request)
  then show ?thesis
    using side_keeps [OF http_side [of a frepr load_verifier env fresh rnd api_key request]] assms(1,2) by (simp add: a'_def)
next
  case (Socket_Client data)
  then show ?thesis using socket_contained [OF assms(1,2), of load_verifier data] by (simp add: a'_def)
qed

interpretation doors: gate "serve_door frepr load_verifier export"
  "\<lambda>a. reachable (e_journal (ap_engine a)) \<and> e_state (ap_engine a) = CONTAINED" "\<lambda>a. jimage (e_journal (ap_engine a))"
  "presents_token load_verifier" for frepr load_verifier export
  by unfold_locales (use door_contained in blast)+

lemma doors_served: "doors.serve_all frepr load_verifier export doors a = serve_doors frepr load_verifier export doors a"
  by (simp add: doors.serve_all_def serve_doors_def)

text \<open>
  Containment holds behind all three doors. Over any sequence of NBD connections with arbitrary
  bytes, HTTP requests and socket commands, a contained device stays contained and its image does not
  change by a byte, up to the point where a client of the local socket presents a token that verifies
  for this device, version, action and time with a nonce not used before. No sequence of network
  clients releases it.
\<close>

theorem containment_behind_doors:
  assumes "reachable (e_journal (ap_engine a))" "e_state (ap_engine a) = CONTAINED"
  shows "(e_state (ap_engine (serve_doors frepr load_verifier export doors a)) = CONTAINED \<and>
      jimage (e_journal (ap_engine (serve_doors frepr load_verifier export doors a))) = jimage (e_journal (ap_engine a))) \<or>
    (\<exists>before door after. doors = before @ door # after \<and>
       e_state (ap_engine (serve_doors frepr load_verifier export before a)) = CONTAINED \<and>
       jimage (e_journal (ap_engine (serve_doors frepr load_verifier export before a))) = jimage (e_journal (ap_engine a)) \<and>
       presents_token load_verifier (serve_doors frepr load_verifier export before a) door)"
  using doors.held_until_key [where s = a and rs = doors and frepr = frepr and load_verifier = load_verifier and export = export] assms by (simp add: doors_served) blast

abbreviation sample_app :: app where
  "sample_app \<equiv> create_app contained_engine None (Some ''k'') ''/ns''"

theorem containment_behind_doors_witness:
  "e_state (ap_engine (serve_doors (\<lambda>_. ''0.5'') (\<lambda>_. Inl StructError) [] [Nbd_Client (sample_connection (encode_request sample_request @ page 9)),
     Socket_Client (Some ''maintenance x'')] sample_app)) = CONTAINED"
proof -
  have no: "\<not> presents_token (\<lambda>_. Inl StructError) b d" for b d
    by (auto simp: presents_token_def)
  have "reachable (e_journal (ap_engine sample_app))" "e_state (ap_engine sample_app) = CONTAINED"
    by (simp_all add: create_app_def contained_engine_facts sample1_facts)
  from containment_behind_doors [OF this] show ?thesis using no by blast
qed

end
