(* ===== verification/Daemon_Life.thy ===== *)
theory Daemon_Life
  imports Front_Doors
begin

text \<open>
  The life of the daemon process (\<^verbatim>\<open>AegisDaemon\<close> of \<^verbatim>\<open>daemon/service.py\<close>): the object, its four threads, the
  shutdown event and the order in which it ends. The main thread starts a thread for the Unix socket, one for
  NBD if a host is set, and one for the HTTP server, then waits for a signal. A turn of a thread is one
  event; the scheduler and the clients choose the events.
\<close>

section \<open>The object\<close>

record daemon =
  dm_namespace_dir :: string
  dm_audit_path :: string
  dm_host :: string
  dm_port :: int
  dm_blocks :: int
  dm_public_key :: "bytes option"
  dm_unix_socket_path :: string
  dm_policy_config :: policy_config
  dm_nbd_host :: "string option"
  dm_nbd_port :: int
  dm_nbd_export :: string

definition new_daemon ::
  "string \<Rightarrow> string \<Rightarrow> string \<Rightarrow> int \<Rightarrow> int \<Rightarrow> bytes option \<Rightarrow> string option \<Rightarrow> policy_config option \<Rightarrow> string option \<Rightarrow> int \<Rightarrow> string \<Rightarrow> daemon" where
  "new_daemon namespace_dir audit_path host port nblocks public_key unix_socket_path policy_config nbd_host nbd_port nbd_export =
     \<lparr>dm_namespace_dir = namespace_dir, dm_audit_path = audit_path, dm_host = host, dm_port = port, dm_blocks = nblocks,
      dm_public_key = public_key,
      dm_unix_socket_path = (case unix_socket_path of Some p \<Rightarrow> p | None \<Rightarrow> ''/run/aegis-shield/aegis.sock''),
      dm_policy_config = (case policy_config of Some c \<Rightarrow> c | None \<Rightarrow> default_policy),
      dm_nbd_host = nbd_host, dm_nbd_port = nbd_port, dm_nbd_export = nbd_export\<rparr>"

section \<open>The process\<close>

datatype socket_phase = Socket_Setup | Loop_Head | Accepting | Socket_Closed
datatype main_phase = Awaiting_Signal | Joining | Ended

record process =
  pr_app :: app
  pr_shutdown :: bool
  pr_socket :: socket_phase
  pr_nbd :: bool
  pr_http :: bool
  pr_should_exit :: bool
  pr_main :: main_phase

text \<open>\<open>run\<close> up to \<open>_shutdown_event.wait()\<close>: journal, policy and engine, the application, the threads.\<close>

definition daemon_run ::
  "daemon \<Rightarrow> (ns \<times> (string \<times> ns option) list) option \<Rightarrow> string \<Rightarrow> string option \<Rightarrow> engine \<Rightarrow> process res \<times> engine" where
  "daemon_run d namespace uuid api_key e =
     (case daemon_start namespace uuid (dm_blocks d) (dm_policy_config d) e of
        (Inl x, e1) \<Rightarrow> (Inl x, e1)
      | (Inr _, e1) \<Rightarrow>
          (Inr \<lparr>pr_app = create_app e1 (dm_public_key d) api_key (dm_namespace_dir d), pr_shutdown = False,
               pr_socket = Socket_Setup, pr_nbd = (dm_nbd_host d \<noteq> None), pr_http = True, pr_should_exit = False,
               pr_main = Awaiting_Signal\<rparr>, e1))"

text \<open>
  A client of the socket is \<open>Some data\<close>, a second without one is \<open>None\<close>. \<open>Join_Expires\<close> is the end of the ten
  seconds that the main thread waits for the HTTP server.
\<close>

datatype turn =
    Signal_Arrives
  | Socket_Turn "string option option"
  | Nbd_Turn connection
  | Nbd_Listener_Fails
  | Http_Turn "string option" string string "string option" http_request
  | Http_Returns
  | Main_Turn
  | Join_Expires

fun socket_turn ::
  "(real \<Rightarrow> string) \<Rightarrow> (bytes \<Rightarrow> (bytes \<Rightarrow> bytes \<Rightarrow> bool) res) \<Rightarrow> bytes \<Rightarrow> string option option \<Rightarrow> process \<Rightarrow> process" where
  "socket_turn frepr load_verifier export client p =
     (case pr_socket p of
        Socket_Setup \<Rightarrow> p\<lparr>pr_socket := Loop_Head\<rparr>
      | Loop_Head \<Rightarrow> p\<lparr>pr_socket := (if pr_shutdown p then Socket_Closed else Accepting)\<rparr>
      | Accepting \<Rightarrow>
          (case client of
             None \<Rightarrow> p\<lparr>pr_socket := Loop_Head\<rparr>
           | Some data \<Rightarrow> p\<lparr>pr_app := serve_door frepr load_verifier export (Socket_Client data) (pr_app p), pr_socket := Loop_Head\<rparr>)
      | Socket_Closed \<Rightarrow> p)"

fun main_turn :: "bool \<Rightarrow> process \<Rightarrow> process" where
  "main_turn expired p =
     (case pr_main p of
        Awaiting_Signal \<Rightarrow> if pr_shutdown p then p\<lparr>pr_should_exit := True, pr_main := Joining\<rparr> else p
      | Joining \<Rightarrow> if \<not> pr_http p \<or> expired then p\<lparr>pr_main := Ended\<rparr> else p
      | Ended \<Rightarrow> p)"

text \<open>The handler of \<^verbatim>\<open>SIGINT\<close> and \<^verbatim>\<open>SIGTERM\<close>; a client of the NBD thread, which ends only with its listener; a request to the HTTP server.\<close>

definition signal_turn :: "process \<Rightarrow> process" where
  "signal_turn p = p\<lparr>pr_shutdown := True\<rparr>"

definition nbd_turn ::
  "(real \<Rightarrow> string) \<Rightarrow> (bytes \<Rightarrow> (bytes \<Rightarrow> bytes \<Rightarrow> bool) res) \<Rightarrow> bytes \<Rightarrow> connection option \<Rightarrow> process \<Rightarrow> process" where
  "nbd_turn frepr load_verifier export client p =
     (if \<not> pr_nbd p then p
      else (case client of
          Some c \<Rightarrow> p\<lparr>pr_app := serve_door frepr load_verifier export (Nbd_Client c) (pr_app p)\<rparr>
        | None \<Rightarrow> p\<lparr>pr_nbd := False\<rparr>))"

definition http_turn ::
  "(real \<Rightarrow> string) \<Rightarrow> (bytes \<Rightarrow> (bytes \<Rightarrow> bytes \<Rightarrow> bool) res) \<Rightarrow> bytes \<Rightarrow> door option \<Rightarrow> process \<Rightarrow> process" where
  "http_turn frepr load_verifier export client p =
     (case client of
        Some d \<Rightarrow> if pr_http p then p\<lparr>pr_app := serve_door frepr load_verifier export d (pr_app p)\<rparr> else p
      | None \<Rightarrow> if pr_should_exit p then p\<lparr>pr_http := False\<rparr> else p)"

lemmas turn_defs = signal_turn_def nbd_turn_def http_turn_def

text \<open>A turn that its thread cannot take leaves the process as it is; when the main thread has ended, so has every other.\<close>

fun daemon_turn ::
  "(real \<Rightarrow> string) \<Rightarrow> (bytes \<Rightarrow> (bytes \<Rightarrow> bytes \<Rightarrow> bool) res) \<Rightarrow> bytes \<Rightarrow> turn \<Rightarrow> process \<Rightarrow> process" where
  "daemon_turn frepr load_verifier export t p =
     (if pr_main p = Ended then p
      else (case t of
          Signal_Arrives \<Rightarrow> signal_turn p
        | Socket_Turn client \<Rightarrow> socket_turn frepr load_verifier export client p
        | Nbd_Turn c \<Rightarrow> nbd_turn frepr load_verifier export (Some c) p
        | Nbd_Listener_Fails \<Rightarrow> nbd_turn frepr load_verifier export None p
        | Http_Turn env fresh rnd api_key request \<Rightarrow>
            http_turn frepr load_verifier export (Some (Http_Client env fresh rnd api_key request)) p
        | Http_Returns \<Rightarrow> http_turn frepr load_verifier export None p
        | Main_Turn \<Rightarrow> main_turn False p
        | Join_Expires \<Rightarrow> main_turn True p))"

definition daemon_turns ::
  "(real \<Rightarrow> string) \<Rightarrow> (bytes \<Rightarrow> (bytes \<Rightarrow> bytes \<Rightarrow> bool) res) \<Rightarrow> bytes \<Rightarrow> turn list \<Rightarrow> process \<Rightarrow> process" where
  "daemon_turns frepr load_verifier export ts p = foldl (\<lambda>p t. daemon_turn frepr load_verifier export t p) p ts"

lemma daemon_turns_simps [simp]: "daemon_turns frepr lv export [] p = p"
  "daemon_turns frepr lv export (t # ts) p = daemon_turns frepr lv export ts (daemon_turn frepr lv export t p)"
  by (simp_all add: daemon_turns_def)

section \<open>The threads only serve clients\<close>

text \<open>The client that a turn serves.\<close>

definition door_of :: "turn \<Rightarrow> process \<Rightarrow> door option" where
  "door_of t p =
     (if pr_main p = Ended then None
      else (case t of
          Socket_Turn (Some data) \<Rightarrow> if pr_socket p = Accepting then Some (Socket_Client data) else None
        | Nbd_Turn c \<Rightarrow> if pr_nbd p then Some (Nbd_Client c) else None
        | Http_Turn env fresh rnd api_key request \<Rightarrow> if pr_http p then Some (Http_Client env fresh rnd api_key request) else None
        | _ \<Rightarrow> None))"

lemma turn_serves:
  "pr_app (daemon_turn frepr lv export t p) =
     (case door_of t p of None \<Rightarrow> pr_app p | Some d \<Rightarrow> serve_door frepr lv export d (pr_app p))"
  by (cases t) (auto simp: door_of_def turn_defs split: option.split socket_phase.split main_phase.split)

definition key_turn :: "(bytes \<Rightarrow> (bytes \<Rightarrow> bytes \<Rightarrow> bool) res) \<Rightarrow> process \<Rightarrow> turn \<Rightarrow> bool" where
  "key_turn lv p t \<longleftrightarrow> (\<exists>d. door_of t p = Some d \<and> presents_token lv (pr_app p) d)"

interpretation process: gate "daemon_turn frepr load_verifier export"
  "\<lambda>p. reachable (e_journal (ap_engine (pr_app p))) \<and> e_state (ap_engine (pr_app p)) = CONTAINED"
  "\<lambda>p. jimage (e_journal (ap_engine (pr_app p)))" "key_turn load_verifier" for frepr load_verifier export
proof
  fix p t
  assume p: "reachable (e_journal (ap_engine (pr_app p))) \<and> e_state (ap_engine (pr_app p)) = CONTAINED" and k: "\<not> key_turn load_verifier p t"
  show "reachable (e_journal (ap_engine (pr_app (daemon_turn frepr load_verifier export t p)))) \<and>
      e_state (ap_engine (pr_app (daemon_turn frepr load_verifier export t p))) = CONTAINED"
    "jimage (e_journal (ap_engine (pr_app (daemon_turn frepr load_verifier export t p)))) = jimage (e_journal (ap_engine (pr_app p)))"
    unfolding turn_serves using p k doors.stays [where s = "pr_app p" and frepr = frepr and load_verifier = load_verifier and export = export]
      doors.keeps [where s = "pr_app p" and frepr = frepr and load_verifier = load_verifier and export = export]
    by (auto simp: key_turn_def split: option.split)
qed






section \<open>Shutdown\<close>

fun doors_served ::
  "(real \<Rightarrow> string) \<Rightarrow> (bytes \<Rightarrow> (bytes \<Rightarrow> bytes \<Rightarrow> bool) res) \<Rightarrow> bytes \<Rightarrow> turn list \<Rightarrow> process \<Rightarrow> door list" where
  "doors_served frepr lv export [] p = []"
| "doors_served frepr lv export (t # ts) p =
     (case door_of t p of None \<Rightarrow> [] | Some d \<Rightarrow> [d]) @ doors_served frepr lv export ts (daemon_turn frepr lv export t p)"

lemma turns_serve: "pr_app (daemon_turns frepr lv export ts p) = serve_doors frepr lv export (doors_served frepr lv export ts p) (pr_app p)"
proof (induction ts arbitrary: p)
  case (Cons t ts)
  then show ?case by (simp add: turn_serves serve_doors_def del: daemon_turn.simps split: option.split)
qed (simp add: serve_doors_def)

lemma turn_keeps_shutdown: "pr_shutdown p \<Longrightarrow> pr_shutdown (daemon_turn frepr lv export t p)"
  by (cases t) (auto simp: turn_defs split: option.split socket_phase.split main_phase.split)

lemma socket_after_turn:
  assumes "pr_shutdown p"
  shows "pr_socket (daemon_turn frepr lv export t p) = pr_socket p \<and> (\<forall>d. door_of t p \<noteq> Some (Socket_Client d)) \<or>
    pr_socket p = Accepting \<and> pr_socket (daemon_turn frepr lv export t p) = Loop_Head \<or>
    pr_socket p \<noteq> Accepting \<and> pr_socket (daemon_turn frepr lv export t p) \<in> {Loop_Head, Socket_Closed} \<and> (\<forall>d. door_of t p \<noteq> Some (Socket_Client d))"
  using assms by (cases t; cases "pr_socket p") (auto simp: door_of_def turn_defs split: option.splits main_phase.split)

lemma few_clients:
  assumes "pr_shutdown p"
  shows "length (filter (\<lambda>d. \<not> over_network d) (doors_served frepr lv export ts p)) \<le> (if pr_socket p = Accepting then 1 else 0)"
  using assms
proof (induction ts arbitrary: p)
  case (Cons t ts)
  let ?p = "daemon_turn frepr lv export t p"
  have IH: "length (filter (\<lambda>d. \<not> over_network d) (doors_served frepr lv export ts ?p)) \<le> (if pr_socket ?p = Accepting then 1 else 0)"
    using Cons turn_keeps_shutdown by blast
  have net: "door_of t p = Some d \<Longrightarrow> \<not> over_network d \<Longrightarrow> \<exists>x. d = Socket_Client x" for d by (cases d) auto
  show ?case
    using IH socket_after_turn [OF Cons.prems, of frepr lv export t] net
    by (auto simp del: daemon_turn.simps split: option.split if_splits)
qed simp

text \<open>
  After the signal at most the one socket client that is being accepted is still answered; the main
  thread ends the process as soon as the HTTP server has returned or ten seconds have passed; and
  without a signal the process does not end.
\<close>

theorem shutdown_orderly:
  "(pr_shutdown p \<longrightarrow> length (filter (\<lambda>d. \<not> over_network d) (doors_served frepr lv export ts p)) \<le> 1) \<and>
   (pr_shutdown p \<longrightarrow> pr_main (daemon_turns frepr lv export [Main_Turn, Join_Expires] p) = Ended) \<and>
   (pr_shutdown p \<and> pr_main p = Awaiting_Signal \<longrightarrow> pr_main (daemon_turns frepr lv export [Main_Turn, Http_Returns, Main_Turn] p) = Ended) \<and>
   (\<not> pr_shutdown p \<and> pr_main p = Awaiting_Signal \<and> Signal_Arrives \<notin> set ts \<longrightarrow> pr_main (daemon_turns frepr lv export ts p) = Awaiting_Signal)"
proof (intro conjI impI)
  assume s: "pr_shutdown p"
  show "length (filter (\<lambda>d. \<not> over_network d) (doors_served frepr lv export ts p)) \<le> 1"
    using few_clients [OF s, of frepr lv export ts] by (auto split: if_splits)
  show "pr_main (daemon_turns frepr lv export [Main_Turn, Join_Expires] p) = Ended"
    using s by (cases "pr_main p") auto
next
  assume "pr_shutdown p \<and> pr_main p = Awaiting_Signal"
  then show "pr_main (daemon_turns frepr lv export [Main_Turn, Http_Returns, Main_Turn] p) = Ended" by (auto simp: turn_defs)
next
  assume "\<not> pr_shutdown p \<and> pr_main p = Awaiting_Signal \<and> Signal_Arrives \<notin> set ts"
  then show "pr_main (daemon_turns frepr lv export ts p) = Awaiting_Signal"
  proof (induction ts arbitrary: p)
    case (Cons t ts)
    then have "\<not> pr_shutdown (daemon_turn frepr lv export t p) \<and> pr_main (daemon_turn frepr lv export t p) = Awaiting_Signal"
      by (cases t) (auto simp: turn_defs split: option.split socket_phase.split)
    then show ?case using Cons by (simp del: daemon_turn.simps)
  qed simp
qed

end
