(* ===== verification/Web_Replies.thy ===== *)
theory Web_Replies
  imports Api
begin

text \<open>
  What \<^verbatim>\<open>create_app\<close> of \<^verbatim>\<open>api/app.py\<close> puts around the routes: the security headers of every reply and the page at
  the root. Headers are a list of names, in lower case, with values, as the framework keeps them.
\<close>

section \<open>Security headers\<close>

definition quoted :: "string \<Rightarrow> string" where
  "quoted s = CHR 0x27 # s @ [CHR 0x27]"

definition content_security_policy :: string where
  "content_security_policy =
     ''default-src '' @ quoted ''none'' @ ''; '' @ ''script-src '' @ quoted ''self'' @ ''; '' @ ''style-src '' @ quoted ''self'' @ ''; '' @
     ''img-src '' @ quoted ''self'' @ '' data:; '' @ ''connect-src '' @ quoted ''self'' @ ''; '' @ ''base-uri '' @ quoted ''none'' @ ''; '' @
     ''form-action '' @ quoted ''none'' @ ''; '' @ ''frame-ancestors '' @ quoted ''none''"

definition lower_char :: "char \<Rightarrow> char" where
  "lower_char c = (if of_char c \<in> {65 .. 90 :: nat} then char_of (of_char c + 32 :: nat) else c)"

text \<open>\<open>response.headers.setdefault(name, value)\<close>: a header that the reply has already is kept.\<close>

definition set_default :: "string \<Rightarrow> string \<Rightarrow> (string \<times> string) list \<Rightarrow> (string \<times> string) list" where
  "set_default name v hs = (let k = map lower_char name in if k \<in> set (map fst hs) then hs else hs @ [(k, v)])"

definition security_headers :: "(string \<times> string) list \<Rightarrow> (string \<times> string) list" where
  "security_headers hs =
     set_default ''X-Frame-Options'' ''DENY''
       (set_default ''Referrer-Policy'' ''no-referrer''
         (set_default ''X-Content-Type-Options'' ''nosniff''
           (set_default ''Content-Security-Policy'' content_security_policy hs)))"

lemma set_default_keeps: "map_of hs k = Some v \<Longrightarrow> map_of (set_default name w hs) k = Some v"
  by (simp add: set_default_def Let_def)

lemma set_default_sets: "map_of (set_default name w hs) (map lower_char name) \<noteq> None"
  by (simp add: set_default_def Let_def map_of_eq_None_iff)

lemma set_default_id: "map_of hs (map lower_char name) \<noteq> None \<Longrightarrow> set_default name w hs = hs"
  by (simp add: set_default_def Let_def map_of_eq_None_iff)

lemma set_default_grows: "map_of hs k \<noteq> None \<Longrightarrow> map_of (set_default name w hs) k \<noteq> None"
  using set_default_keeps by fastforce

lemma header_names: "map lower_char ''Content-Security-Policy'' = ''content-security-policy''"
  "map lower_char ''X-Content-Type-Options'' = ''x-content-type-options''"
  "map lower_char ''Referrer-Policy'' = ''referrer-policy''" "map lower_char ''X-Frame-Options'' = ''x-frame-options''"
  by code_simp+

lemma four_headers:
  "map_of (security_headers hs) ''content-security-policy'' \<noteq> None" "map_of (security_headers hs) ''x-content-type-options'' \<noteq> None"
  "map_of (security_headers hs) ''referrer-policy'' \<noteq> None" "map_of (security_headers hs) ''x-frame-options'' \<noteq> None"
  unfolding header_names [symmetric] security_headers_def by (intro set_default_grows set_default_sets)+

text \<open>Every reply carries the four headers, a header that a route has set is not changed, and passing twice is passing once.\<close>

theorem security_headers_complete:
  "list_all (\<lambda>k. map_of (security_headers hs) k \<noteq> None)
     [''content-security-policy'', ''x-content-type-options'', ''referrer-policy'', ''x-frame-options''] \<and>
   (\<forall>k v. map_of hs k = Some v \<longrightarrow> map_of (security_headers hs) k = Some v) \<and>
   security_headers (security_headers hs) = security_headers hs"
proof (intro conjI allI impI)
  show "list_all (\<lambda>k. map_of (security_headers hs) k \<noteq> None)
     [''content-security-policy'', ''x-content-type-options'', ''referrer-policy'', ''x-frame-options'']"
    using four_headers by simp
  show "map_of (security_headers hs) k = Some v" if "map_of hs k = Some v" for k v
    unfolding security_headers_def by (intro set_default_keeps that)
  show "security_headers (security_headers hs) = security_headers hs"
    using four_headers [of hs, unfolded header_names [symmetric]] set_default_id unfolding security_headers_def [of "security_headers hs"] by simp
qed

section \<open>The page at the root\<close>

datatype web_reply = Redirect string | Dashboard_File string | No_Such_Page

text \<open>\<open>web_dir\<close>: the directory of the dashboard exists. The mount and the redirect are there only then.\<close>

definition web_route :: "bool \<Rightarrow> string \<Rightarrow> web_reply" where
  "web_route web_dir path =
     (if \<not> web_dir then No_Such_Page
      else if path = ''/'' then Redirect ''/ui/''
      else if starts_with path ''/ui/'' then Dashboard_File (drop (length ''/ui/'') path)
      else No_Such_Page)"

lemma root_redirects_to_dashboard: "web_route True ''/'' = Redirect ''/ui/''" "web_route True ''/ui/'' = Dashboard_File []"
  by (simp_all add: web_route_def starts_with_def)

end
