(* ===== verification/Workloads.thy ===== *)
theory Workloads
  imports Features Codecs
begin

text \<open>
  The synthetic workloads (\<^verbatim>\<open>aegis_shield/core/workloads.py\<close>) and what they use of Python's \<open>random\<close>.

  \<open>random.Random(seed)\<close> is a stream of 32-bit words and a position in it; \<open>getrandbits\<close>, \<open>randbytes\<close>,
  \<open>randrange\<close>, \<open>randint\<close> and \<open>choice\<close> are the library's code over that stream. The stream of a seed is
  the parameter \<open>source\<close>, and \<open>deflate\<close> is \<open>zlib.compress(_, level=9)\<close>: what the theorems say holds for
  every stream, not only that of the Mersenne Twister. The rejection loop of \<open>_randbelow\<close> ends only if an
  accepted draw follows, so a computation with draws returns \<open>None\<close> where it does not end.

  A generator function is the list of the events it yields, and the exception that ends it, if one does.
\<close>

section \<open>Random numbers\<close>

record rng =
  rg_words :: "nat \<Rightarrow> 32 word"
  rg_pos :: nat

type_synonym source = "int \<Rightarrow> nat \<Rightarrow> 32 word"
type_synonym 'a draw = "rng \<Rightarrow> ('a res \<times> rng) option"

definition random_Random :: "source \<Rightarrow> int \<Rightarrow> rng" where
  "random_Random source seed = \<lparr>rg_words = source seed, rg_pos = 0\<rparr>"

definition return_draw :: "'a \<Rightarrow> 'a draw" where
  "return_draw x r = Some (Inr x, r)"

definition raise_draw :: "exc \<Rightarrow> 'a draw" where
  "raise_draw e r = Some (Inl e, r)"

definition bind_draw :: "'a draw \<Rightarrow> ('a \<Rightarrow> 'b draw) \<Rightarrow> 'b draw" where
  "bind_draw m f r =
     (case m r of None \<Rightarrow> None | Some (Inl e, r1) \<Rightarrow> Some (Inl e, r1) | Some (Inr x, r1) \<Rightarrow> f x r1)"

text \<open>The low word comes first; a last part of less than 32 bits takes the high bits of its word.\<close>

fun getrandbits :: "nat \<Rightarrow> rng \<Rightarrow> int \<times> rng" where
  "getrandbits k r =
     (if k = 0 then (0, r)
      else (let w = uint (rg_words r (rg_pos r)); r1 = r\<lparr>rg_pos := Suc (rg_pos r)\<rparr>
            in if k < 32 then (w div 2 ^ (32 - k), r1)
               else (let (high, r2) = getrandbits (k - 32) r1 in (w + 2 ^ 32 * high, r2))))"

declare getrandbits.simps [simp del]

fun bit_length :: "nat \<Rightarrow> nat" where
  "bit_length n = (if n = 0 then 0 else Suc (bit_length (n div 2)))"

declare bit_length.simps [simp del]

partial_function (option) reject_loop :: "int \<Rightarrow> nat \<Rightarrow> rng \<Rightarrow> (int \<times> rng) option" where
  "reject_loop n k r = (case getrandbits k r of (v, r1) \<Rightarrow> if n \<le> v then reject_loop n k r1 else Some (v, r1))"

declare reject_loop.simps [code]

definition randbelow :: "int \<Rightarrow> int draw" where
  "randbelow n r = map_option (\<lambda>(v, r1). (Inr v, r1)) (reject_loop n (bit_length (nat n)) r)"

definition randrange :: "int \<Rightarrow> int \<Rightarrow> int draw" where
  "randrange start stop =
     (if start < stop then bind_draw (randbelow (stop - start)) (\<lambda>v. return_draw (start + v))
      else raise_draw (ValueError ''empty range for randrange()''))"

definition randint :: "int \<Rightarrow> int \<Rightarrow> int draw" where
  "randint a b = randrange a (b + 1)"

definition choice :: "'a list \<Rightarrow> 'a draw" where
  "choice xs =
     (if xs = [] then raise_draw IndexError
      else bind_draw (randbelow (int (length xs))) (\<lambda>v. return_draw (xs ! nat v)))"

fun le_bytes :: "nat \<Rightarrow> int \<Rightarrow> bytes" where
  "le_bytes 0 v = []"
| "le_bytes (Suc k) v = word_of_int v # le_bytes k (v div 256)"

definition randbytes :: "int \<Rightarrow> bytes draw" where
  "randbytes n r =
     (if n < 0 then Some (Inl (ValueError ''number of bits must be non-negative''), r)
      else (case getrandbits (8 * nat n) r of (v, r1) \<Rightarrow> Some (Inr (le_bytes (nat n) v), r1)))"

text \<open>A comprehension over draws.\<close>

fun draw_each :: "('a \<Rightarrow> 'b draw) \<Rightarrow> 'a list \<Rightarrow> 'b list draw" where
  "draw_each f [] = return_draw []"
| "draw_each f (x # xs) = bind_draw (f x) (\<lambda>y. bind_draw (draw_each f xs) (\<lambda>ys. return_draw (y # ys)))"

definition draw_times :: "int \<Rightarrow> 'a draw \<Rightarrow> 'a list draw" where
  "draw_times n m = draw_each (\<lambda>_. m) [0..<nat n]"

section \<open>Payloads\<close>

text \<open>\<open>xs[:n]\<close> and \<open>xs[::k]\<close>.\<close>

definition slice_to :: "'a list \<Rightarrow> int \<Rightarrow> 'a list" where
  "slice_to xs n = (if 0 \<le> n then take (nat n) xs else take (length xs - nat (- n)) xs)"

definition stride :: "int \<Rightarrow> 'a list \<Rightarrow> 'a list" where
  "stride k xs = map ((!) xs) (filter (\<lambda>i. int i mod k = 0) [0..<length xs])"

definition incompressible :: "int \<Rightarrow> bytes draw" where
  "incompressible n = randbytes n"

definition archive_alphabet :: bytes where
  "archive_alphabet = text_bytes ''the quick brown fox jumps over a lazy dog 0123456789 ''"

partial_function (option) fill_archive ::
  "(bytes \<Rightarrow> bytes) \<Rightarrow> bytes \<Rightarrow> int \<Rightarrow> bytes \<Rightarrow> rng \<Rightarrow> (bytes res \<times> rng) option" where
  "fill_archive deflate src n blob r =
     (if int (length blob) < n
      then (case randint 1 3 r of
              None \<Rightarrow> None
            | Some x \<Rightarrow>
                (case fst x of
                   Inl e \<Rightarrow> Some (Inl e, snd x)
                 | Inr k \<Rightarrow> fill_archive deflate src n (blob @ deflate (stride k src)) (snd x)))
      else Some (Inr blob, r))"

declare fill_archive.simps [code]

definition compressed_archive :: "(bytes \<Rightarrow> bytes) \<Rightarrow> int \<Rightarrow> bytes draw" where
  "compressed_archive deflate n =
     bind_draw (draw_times (n * 2) (choice archive_alphabet)) (\<lambda>src.
     bind_draw (fill_archive deflate src n (deflate src)) (\<lambda>blob.
       return_draw (slice_to blob n)))"

definition jpeg_header :: bytes where
  "jpeg_header = [0xFF, 0xD8, 0xFF, 0xE0, 0, 0x10] @ text_bytes ''JFIF'' @ [0, 1, 1, 1]"

definition jpeg_like :: "int \<Rightarrow> bytes draw" where
  "jpeg_like n = bind_draw (randbytes n) (\<lambda>data. return_draw (slice_to (jpeg_header @ data) n))"

definition text_words :: "bytes list" where
  "text_words = map text_bytes
     [''alpha'', ''beta'', ''gamma'', ''delta'', ''epsilon'', ''zeta'', ''eta'', ''theta'', ''iota'', ''kappa'']"

fun join_bytes :: "bytes \<Rightarrow> bytes list \<Rightarrow> bytes" where
  "join_bytes sep [] = []"
| "join_bytes sep [x] = x"
| "join_bytes sep (x # y # zs) = x @ sep @ join_bytes sep (y # zs)"

text \<open>The format \<open>{:06d}\<close>, for a number that is not negative.\<close>

definition pad6 :: "int \<Rightarrow> string" where
  "pad6 v = (let s = show_nat (nat v) in replicate (6 - length s) (CHR ''0'') @ s)"

definition text_line :: "string \<Rightarrow> bytes draw" where
  "text_line tag =
     bind_draw (draw_times 12 (choice text_words)) (\<lambda>ws.
     bind_draw (randrange 0 (10 ^ 6)) (\<lambda>v.
       return_draw (join_bytes (text_bytes '' '') ws @ text_bytes ('' ['' @ tag @ ''-'' @ pad6 v @ '']'' @ [CHR 0x0A]))))"

partial_function (option) text_loop :: "string \<Rightarrow> int \<Rightarrow> bytes \<Rightarrow> rng \<Rightarrow> (bytes res \<times> rng) option" where
  "text_loop tag n out r =
     (if int (length out) < n
      then (case text_line tag r of
              None \<Rightarrow> None
            | Some x \<Rightarrow>
                (case fst x of
                   Inl e \<Rightarrow> Some (Inl e, snd x)
                 | Inr line \<Rightarrow> text_loop tag n (out @ line) (snd x)))
      else Some (Inr out, r))"

declare text_loop.simps [code]

definition text_payload :: "string \<Rightarrow> int \<Rightarrow> bytes draw" where
  "text_payload tag n = bind_draw (text_loop tag n []) (\<lambda>out. return_draw (slice_to out n))"

text \<open>\<open>page[a:a + 8] = data\<close> on a \<open>bytearray\<close>.\<close>

definition set_slice :: "nat \<Rightarrow> bytes \<Rightarrow> bytes \<Rightarrow> bytes" where
  "set_slice a data page = take a page @ data @ drop (a + 8) page"

fun fill_page :: "nat \<Rightarrow> int \<Rightarrow> bytes \<Rightarrow> bytes draw" where
  "fill_page 0 n page = return_draw page"
| "fill_page (Suc i) n page =
     bind_draw (randrange 16 (n - 8)) (\<lambda>offset.
     bind_draw (randrange 0 (2 ^ 48)) (\<lambda>v.
       fill_page i n (set_slice (nat offset) (le_bytes 8 v) page)))"

definition sparse_binary :: "int \<Rightarrow> bytes draw" where
  "sparse_binary n =
     (if n < 0 then raise_draw (ValueError ''negative count'')
      else bind_draw (randrange 0 (2 ^ 32)) (\<lambda>v.
             fill_page (nat (n div 64)) n (set_slice 0 (le_bytes 8 v) (replicate (nat n) 0))))"

section \<open>Generators\<close>

type_synonym gen = "rng \<Rightarrow> (io_event list \<times> exc option \<times> rng) option"

definition done_gen :: gen where
  "done_gen r = Some ([], None, r)"

definition yield_event :: "io_event \<Rightarrow> gen" where
  "yield_event ev r = Some ([ev], None, r)"

definition then_gen :: "gen \<Rightarrow> gen \<Rightarrow> gen" where
  "then_gen g h r =
     (case g r of
        None \<Rightarrow> None
      | Some (evs, Some e, r1) \<Rightarrow> Some (evs, Some e, r1)
      | Some (evs, None, r1) \<Rightarrow>
          (case h r1 of None \<Rightarrow> None | Some (evs2, e, r2) \<Rightarrow> Some (evs @ evs2, e, r2)))"

definition draw_gen :: "'a draw \<Rightarrow> ('a \<Rightarrow> gen) \<Rightarrow> gen" where
  "draw_gen m f r =
     (case m r of
        None \<Rightarrow> None
      | Some (Inl e, r1) \<Rightarrow> Some ([], Some e, r1)
      | Some (Inr x, r1) \<Rightarrow> f x r1)"

fun for_gen :: "(int \<Rightarrow> gen) \<Rightarrow> int list \<Rightarrow> gen" where
  "for_gen body [] = done_gen"
| "for_gen body (i # is) = then_gen (body i) (for_gen body is)"

definition py_mod :: "int \<Rightarrow> int \<Rightarrow> int draw" where
  "py_mod a b = (if b = 0 then raise_draw ZeroDivisionError else return_draw (a mod b))"

definition plain_event :: "io_kind \<Rightarrow> int \<Rightarrow> bytes \<Rightarrow> io_event" where
  "plain_event kind lba payload =
     \<lparr>ev_kind = kind, ev_lba = lba, ev_blocks = 1, ev_payload = payload, ev_timestamp_ns = 0, ev_opcode = None\<rparr>"

definition read_of :: "int \<Rightarrow> gen" where
  "read_of lba = yield_event (plain_event READ lba [])"

definition write_of :: "int \<Rightarrow> bytes draw \<Rightarrow> gen" where
  "write_of lba payload = draw_gen payload (\<lambda>data. yield_event (plain_event WRITE lba data))"

definition up_to :: "int \<Rightarrow> int list" where
  "up_to n = [0..n - 1]"

section \<open>Benign workloads\<close>

definition archive_copy :: "(bytes \<Rightarrow> bytes) \<Rightarrow> int \<Rightarrow> int \<Rightarrow> gen" where
  "archive_copy deflate nblocks bsize =
     for_gen (\<lambda>i. draw_gen (py_mod i nblocks) (\<lambda>lba. write_of lba (compressed_archive deflate bsize))) (up_to 120)"

definition media_import :: "int \<Rightarrow> int \<Rightarrow> gen" where
  "media_import nblocks bsize =
     for_gen (\<lambda>i. draw_gen (py_mod i nblocks) (\<lambda>lba. write_of lba (jpeg_like bsize))) (up_to 120)"

definition encrypted_volume_fill :: "int \<Rightarrow> int \<Rightarrow> gen" where
  "encrypted_volume_fill nblocks bsize =
     for_gen (\<lambda>i. draw_gen (py_mod i nblocks) (\<lambda>lba. write_of lba (incompressible bsize))) (up_to 120)"

definition database_oltp :: "int \<Rightarrow> int \<Rightarrow> gen" where
  "database_oltp nblocks bsize =
     draw_gen (draw_times (max 4 (nblocks div 12)) (randrange 0 nblocks)) (\<lambda>hot.
       for_gen (\<lambda>_. draw_gen (choice hot) (\<lambda>page. then_gen (read_of page) (write_of page (sparse_binary bsize)))) (up_to 120))"

definition log_append :: "int \<Rightarrow> int \<Rightarrow> gen" where
  "log_append nblocks bsize =
     for_gen (\<lambda>i. draw_gen (py_mod i nblocks) (\<lambda>lba. write_of lba (text_payload ''log'' bsize))) (up_to 120)"

definition software_update :: "int \<Rightarrow> int \<Rightarrow> gen" where
  "software_update nblocks bsize =
     for_gen (\<lambda>i. draw_gen (py_mod (i * 3) nblocks) (\<lambda>target.
       then_gen (read_of target)
         (write_of target (if i mod 3 \<noteq> 0 then sparse_binary bsize else text_payload ''bin'' bsize)))) (up_to 120)"

definition backup_restore :: "(bytes \<Rightarrow> bytes) \<Rightarrow> int \<Rightarrow> int \<Rightarrow> gen" where
  "backup_restore deflate nblocks bsize =
     for_gen (\<lambda>i. draw_gen (py_mod i nblocks) (\<lambda>target.
       write_of target (if i mod 4 = 0 then compressed_archive deflate bsize else text_payload ''record'' bsize))) (up_to 150)"

section \<open>Ransomware-shaped workloads\<close>

definition encrypt_in_place :: "int \<Rightarrow> int \<Rightarrow> gen" where
  "encrypt_in_place nblocks bsize =
     for_gen (\<lambda>i. draw_gen (py_mod (i * 7) nblocks) (\<lambda>target.
       then_gen (read_of target) (write_of target (incompressible bsize)))) (up_to 120)"

definition encrypt_and_wipe :: "int \<Rightarrow> int \<Rightarrow> gen" where
  "encrypt_and_wipe nblocks bsize =
     for_gen (\<lambda>i. draw_gen (py_mod (i * 11) nblocks) (\<lambda>target.
       then_gen (read_of target)
         (then_gen (write_of target (incompressible bsize))
            (if i mod 4 = 0 then yield_event (plain_event DEALLOCATE target []) else done_gen)))) (up_to 120)"

definition low_and_slow :: "int \<Rightarrow> int \<Rightarrow> gen" where
  "low_and_slow nblocks bsize =
     for_gen (\<lambda>i.
       if i mod 3 = 0
       then draw_gen (py_mod (i * 5) nblocks) (\<lambda>target.
              then_gen (read_of target) (write_of target (incompressible bsize)))
       else draw_gen (py_mod i nblocks) (\<lambda>lba. write_of lba (text_payload ''record'' bsize))) (up_to 200)"

definition minimal_evasion :: "int \<Rightarrow> int \<Rightarrow> gen" where
  "minimal_evasion nblocks bsize =
     for_gen (\<lambda>i. draw_gen (py_mod (i * 7) nblocks) (\<lambda>target.
       then_gen (read_of target)
         (then_gen (write_of target (incompressible bsize))
            (draw_gen (py_mod (target + 1) nblocks) (\<lambda>lba. write_of lba (text_payload ''record'' bsize)))))) (up_to 240)"

definition targeted_documents :: "int \<Rightarrow> int \<Rightarrow> gen" where
  "targeted_documents nblocks bsize =
     (let region = max 8 (nblocks div 8) in
      for_gen (\<lambda>i. then_gen (read_of (i mod region)) (write_of (i mod region) (incompressible bsize))) (up_to 120))"

section \<open>The corpus\<close>

record workload =
  wl_name :: string
  wl_kind :: string
  wl_description :: string
  wl_generate :: "int \<Rightarrow> int \<Rightarrow> gen"

definition make_workload :: "string \<Rightarrow> string \<Rightarrow> string \<Rightarrow> (int \<Rightarrow> int \<Rightarrow> gen) \<Rightarrow> workload" where
  "make_workload name kind description g =
     \<lparr>wl_name = name, wl_kind = kind, wl_description = description, wl_generate = g\<rparr>"

definition benign_workloads :: "(bytes \<Rightarrow> bytes) \<Rightarrow> workload list" where
  "benign_workloads deflate =
     [make_workload ''archive_copy'' ''benign'' ''Copying a compressed archive (maximum entropy, fresh blocks)'' (archive_copy deflate),
      make_workload ''media_import'' ''benign'' ''Importing photos/video (high entropy, sequential)'' media_import,
      make_workload ''encrypted_volume_fill'' ''benign'' ''Writing into an encrypted-at-rest store (entropy by design)''
        encrypted_volume_fill,
      make_workload ''database_oltp'' ''benign'' ''Transactional DB: random page read-modify-write'' database_oltp,
      make_workload ''log_append'' ''benign'' ''Append-only logging (low entropy, sequential)'' log_append,
      make_workload ''software_update'' ''benign'' ''Package upgrade: read and replace many files'' software_update,
      make_workload ''backup_restore'' ''benign'' ''Restoring a backup across the namespace'' (backup_restore deflate)]"

definition ransomware_workloads :: "workload list" where
  "ransomware_workloads =
     [make_workload ''encrypt_in_place'' ''ransomware'' ''Read, encrypt, overwrite across the namespace'' encrypt_in_place,
      make_workload ''encrypt_and_wipe'' ''ransomware'' ''Encrypt in place then discard to defeat recovery'' encrypt_and_wipe,
      make_workload ''low_and_slow'' ''ransomware'' ''Encryption diluted with benign traffic (evasive)'' low_and_slow,
      make_workload ''targeted_documents'' ''ransomware'' ''Encrypt a narrow document region only'' targeted_documents,
      make_workload ''minimal_evasion'' ''ransomware'' ''One benign write per encryption - the cheapest evasion that works''
        minimal_evasion]"

definition all_workloads :: "(bytes \<Rightarrow> bytes) \<Rightarrow> workload list" where
  "all_workloads deflate = benign_workloads deflate @ ransomware_workloads"

end
