(* ===== verification/Workloads_Spec.thy ===== *)
theory Workloads_Spec
  imports Workloads
begin

text \<open>
  What the workloads produce. The judgement \<open>yields src m P\<close> says that a computation with draws ends
  without an exception, whatever the position in the stream \<open>src\<close>, with a value that satisfies \<open>P\<close>;
  \<open>emits\<close> is the same for generators. With it follow the payload lengths, the entropy that the text
  and page shapes cannot exceed, and the shape of the event sequences of the corpus.
\<close>

section \<open>Draws that end\<close>

abbreviation at_pos :: "(nat \<Rightarrow> 32 word) \<Rightarrow> nat \<Rightarrow> rng" where
  "at_pos src p \<equiv> \<lparr>rg_words = src, rg_pos = p\<rparr>"

text \<open>No rejection loop over the stream runs forever: from every position an accepted draw follows.\<close>

definition draws_end :: "(nat \<Rightarrow> 32 word) \<Rightarrow> bool" where
  "draws_end src \<longleftrightarrow> (\<forall>n p. 0 < n \<longrightarrow> reject_loop n (bit_length (nat n)) (at_pos src p) \<noteq> None)"

definition yields :: "(nat \<Rightarrow> 32 word) \<Rightarrow> 'a draw \<Rightarrow> ('a \<Rightarrow> bool) \<Rightarrow> bool" where
  "yields src m P \<longleftrightarrow> (\<forall>p. \<exists>x q. m (at_pos src p) = Some (Inr x, at_pos src q) \<and> P x)"

definition emits :: "(nat \<Rightarrow> 32 word) \<Rightarrow> gen \<Rightarrow> (io_event list \<Rightarrow> bool) \<Rightarrow> bool" where
  "emits src g Q \<longleftrightarrow> (\<forall>p. \<exists>evs q. g (at_pos src p) = Some (evs, None, at_pos src q) \<and> Q evs)"

lemma yieldsE:
  assumes "yields src m P"
  obtains x q where "m (at_pos src p) = Some (Inr x, at_pos src q)" "P x"
  using assms unfolding yields_def by meson

lemma yields_weaken: "yields src m P \<Longrightarrow> (\<And>x. P x \<Longrightarrow> Q x) \<Longrightarrow> yields src m Q"
  unfolding yields_def by meson

lemma yields_return: "P x \<Longrightarrow> yields src (return_draw x) P"
  by (simp add: yields_def return_draw_def)

lemma yields_bind:
  assumes "yields src m P" "\<And>x. P x \<Longrightarrow> yields src (f x) Q"
  shows "yields src (bind_draw m f) Q"
  unfolding yields_def
proof
  fix p
  obtain x q where m: "m (at_pos src p) = Some (Inr x, at_pos src q)" "P x" using assms(1) by (rule yieldsE)
  obtain y s where "f x (at_pos src q) = Some (Inr y, at_pos src s)" "Q y" using assms(2) [OF m(2)] by (rule yieldsE)
  then show "\<exists>y s. bind_draw m f (at_pos src p) = Some (Inr y, at_pos src s) \<and> Q y"
    using m(1) by (simp add: bind_draw_def)
qed

lemma yields_each:
  assumes "\<And>x. x \<in> set xs \<Longrightarrow> yields src (f x) P"
  shows "yields src (draw_each f xs) (\<lambda>ys. length ys = length xs \<and> (\<forall>y \<in> set ys. P y))"
  using assms
proof (induction xs)
  case (Cons x xs)
  have "yields src (draw_each f xs) (\<lambda>ys. length ys = length xs \<and> (\<forall>y \<in> set ys. P y))"
    using Cons.prems by (intro Cons.IH) simp
  then show ?case
    unfolding draw_each.simps
    by (intro yields_bind [OF Cons.prems] yields_bind yields_return) (assumption | simp)+
qed (simp add: yields_return)

lemma yields_times: "yields src m P \<Longrightarrow> yields src (draw_times n m) (\<lambda>ys. length ys = nat n \<and> (\<forall>y \<in> set ys. P y))"
  using yields_each [of "[0..<nat n]" src "\<lambda>_. m" P] by (simp add: draw_times_def)

lemma getrandbits_words: "rg_words (snd (getrandbits k r)) = rg_words r"
proof (induction k r rule: getrandbits.induct)
  case (1 k r)
  then show ?case by (subst getrandbits.simps) (auto simp: Let_def split: prod.splits)
qed

lemma getrandbits_nonneg: "0 \<le> fst (getrandbits k r)"
proof (induction k r rule: getrandbits.induct)
  case (1 k r)
  then show ?case by (subst getrandbits.simps) (auto simp: Let_def pos_imp_zdiv_nonneg_iff split: prod.splits)
qed

lemma reject_loop_result:
  assumes "reject_loop n k r = Some y"
  shows "0 \<le> fst y \<and> fst y < n \<and> rg_words (snd y) = rg_words r"
proof (rule reject_loop.raw_induct [OF _ assms])
  fix f :: "int \<Rightarrow> nat \<Rightarrow> rng \<Rightarrow> (int \<times> rng) option" and n k r y
  assume ih: "\<And>n k r y. f n k r = Some y \<Longrightarrow> 0 \<le> fst y \<and> fst y < n \<and> rg_words (snd y) = rg_words r"
    and eq: "(case getrandbits k r of (v, r1) \<Rightarrow> if n \<le> v then f n k r1 else Some (v, r1)) = Some y"
  obtain v r1 where g: "getrandbits k r = (v, r1)" by force
  then have "rg_words r1 = rg_words r" "0 \<le> v"
    using getrandbits_words [of k r] getrandbits_nonneg [of k r] by simp_all
  then show "0 \<le> fst y \<and> fst y < n \<and> rg_words (snd y) = rg_words r"
    using ih [of n k r1 y] eq unfolding g by (cases "n \<le> v") auto
qed

lemma yields_randbelow:
  assumes "draws_end src" "0 < n"
  shows "yields src (randbelow n) (\<lambda>v. 0 \<le> v \<and> v < n)"
  unfolding yields_def
proof
  fix p
  obtain v r where v: "reject_loop n (bit_length (nat n)) (at_pos src p) = Some (v, r)"
    using assms unfolding draws_end_def by fast
  moreover have "r = at_pos src (rg_pos r)" using reject_loop_result [OF v] by (cases r) simp
  ultimately show "\<exists>x q. randbelow n (at_pos src p) = Some (Inr x, at_pos src q) \<and> 0 \<le> x \<and> x < n"
    using reject_loop_result [OF v] unfolding randbelow_def by fastforce
qed

lemma yields_randrange:
  "draws_end src \<Longrightarrow> a < b \<Longrightarrow> yields src (randrange a b) (\<lambda>v. a \<le> v \<and> v < b)"
  unfolding randrange_def by (auto intro!: yields_bind [OF yields_randbelow] yields_return)

lemma yields_randint: "draws_end src \<Longrightarrow> yields src (randint 1 3) (\<lambda>_. True)"
  unfolding randint_def by (rule yields_weaken [OF yields_randrange]) simp_all

lemma yields_choice: "draws_end src \<Longrightarrow> xs \<noteq> [] \<Longrightarrow> yields src (choice xs) (\<lambda>x. x \<in> set xs)"
  unfolding choice_def by (auto intro!: yields_bind [OF yields_randbelow] yields_return nth_mem)

lemma length_le_bytes [simp]: "length (le_bytes k v) = k"
  by (induction k arbitrary: v) simp_all

lemma yields_randbytes: "0 \<le> n \<Longrightarrow> yields src (randbytes n) (\<lambda>data. length data = nat n)"
proof -
  assume n: "0 \<le> n"
  have "snd (getrandbits k (at_pos src p)) = at_pos src (rg_pos (snd (getrandbits k (at_pos src p))))" for k p
    using getrandbits_words [of k "at_pos src p"] by (cases "snd (getrandbits k (at_pos src p))") simp
  then show ?thesis using n by (auto simp: yields_def randbytes_def split: prod.splits) (metis snd_conv)
qed

section \<open>Payloads\<close>

lemma length_slice_to: "0 \<le> n \<Longrightarrow> n \<le> int (length xs) \<Longrightarrow> length (slice_to xs n) = nat n"
  by (simp add: slice_to_def)

lemma set_slice_to: "set (slice_to xs n) \<subseteq> set xs"
  by (simp add: slice_to_def set_take_subset)

lemma yields_incompressible: "0 \<le> n \<Longrightarrow> yields src (incompressible n) (\<lambda>data. length data = nat n)"
  by (simp add: incompressible_def yields_randbytes)

lemma yields_jpeg_like: "0 \<le> n \<Longrightarrow> yields src (jpeg_like n) (\<lambda>data. length data = nat n)"
  unfolding jpeg_like_def by (rule yields_bind [OF yields_randbytes]) (auto intro!: yields_return length_slice_to)

lemma yields_fill_archive:
  assumes "draws_end src" "\<And>x. deflate x \<noteq> []"
  shows "yields src (fill_archive deflate txt n blob) (\<lambda>out. n \<le> int (length out))"
proof (induction "nat (n - int (length blob))" arbitrary: blob rule: less_induct)
  case less
  show ?case
  proof (cases "int (length blob) < n")
    case True
    show ?thesis
      unfolding yields_def
    proof
      fix p
      obtain k q where k: "randint 1 3 (at_pos src p) = Some (Inr k, at_pos src q)"
        using yields_randint [OF assms(1)] by (rule yieldsE)
      have "0 < length (deflate (stride k txt))" using assms(2) by simp
      then have "yields src (fill_archive deflate txt n (blob @ deflate (stride k txt))) (\<lambda>out. n \<le> int (length out))"
        using True by (intro less) simp
      then obtain out s where "fill_archive deflate txt n (blob @ deflate (stride k txt)) (at_pos src q) = Some (Inr out, at_pos src s)"
        "n \<le> int (length out)" by (rule yieldsE)
      then show "\<exists>x s. fill_archive deflate txt n blob (at_pos src p) = Some (Inr x, at_pos src s) \<and> n \<le> int (length x)"
        using k True by (subst fill_archive.simps) simp
    qed
  next
    case False
    then show ?thesis by (simp add: yields_def fill_archive.simps)
  qed
qed

lemma archive_alphabet_nonempty: "archive_alphabet \<noteq> []"
  by (simp add: archive_alphabet_def text_bytes_def)

lemma yields_compressed_archive:
  assumes "draws_end src" "\<And>x. deflate x \<noteq> []" "0 \<le> n"
  shows "yields src (compressed_archive deflate n) (\<lambda>data. length data = nat n)"
  unfolding compressed_archive_def
  by (rule yields_bind [OF yields_times [OF yields_choice [OF assms(1) archive_alphabet_nonempty]]],
      rule yields_bind [OF yields_fill_archive [OF assms(1,2)]], rule yields_return, rule length_slice_to [OF assms(3)])

text \<open>The bytes of a text payload.\<close>

definition letters :: string where
  "letters = ''abcdefghijklmnopqrstuvwxyz''"

definition digits :: string where
  "digits = ''0123456789''"

definition text_alphabet :: bytes where
  "text_alphabet = text_bytes (letters @ digits @ '' []-'' @ [CHR 0x0A])"

definition plain_tag :: "string \<Rightarrow> bool" where
  "plain_tag tag \<longleftrightarrow> list_all (\<lambda>c. c \<in> set letters) tag"

lemma set_join_bytes: "set (join_bytes sep ws) \<subseteq> set sep \<union> \<Union> (set ` set ws)"
  by (induction sep ws rule: join_bytes.induct) auto

lemma text_bytes_append [simp]: "text_bytes (a @ b) = text_bytes a @ text_bytes b"
  by (simp add: text_bytes_def)

lemma set_text_bytes: "set a \<subseteq> set b \<Longrightarrow> set (text_bytes a) \<subseteq> set (text_bytes b)"
  by (auto simp: text_bytes_def)

lemma set_text_alphabet:
  "set text_alphabet = set (text_bytes letters) \<union> set (text_bytes digits) \<union> set (text_bytes '' []-'') \<union> set (text_bytes [CHR 0x0A])"
  unfolding text_alphabet_def text_bytes_append set_append by blast

lemma plain_tag_bytes: "plain_tag tag \<Longrightarrow> set (text_bytes tag) \<subseteq> set (text_bytes letters)"
  by (rule set_text_bytes) (auto simp: plain_tag_def list_all_iff)

lemma text_words_alphabet: "w \<in> set text_words \<Longrightarrow> set w \<subseteq> set (text_bytes letters)"
proof -
  define names where
    "names = [''alpha'', ''beta'', ''gamma'', ''delta'', ''epsilon'', ''zeta'', ''eta'', ''theta'', ''iota'', ''kappa'']"
  have "list_all plain_tag names" unfolding names_def by code_simp
  moreover have "set text_words = text_bytes ` set names" by (simp only: text_words_def names_def set_map)
  ultimately show "w \<in> set text_words \<Longrightarrow> set w \<subseteq> set (text_bytes letters)"
    using plain_tag_bytes by (auto simp: list_all_iff)
qed

lemma show_nat_digit_set: "set (show_nat n) \<subseteq> set digits"
proof (induction n rule: show_nat.induct)
  case (1 n)
  have "digits = map digit_char [0..<10]" by code_simp
  from arg_cong [OF this, of set] have "set digits = digit_char ` {0..<10}" by (simp only: set_map set_upt)
  then have d: "digit_char d \<in> set digits" if "d < 10" for d using that by auto
  show ?case using 1 d [of "n mod 10"] d [of n] by (subst show_nat.simps) auto
qed

lemma pad6_bytes: "set (text_bytes (pad6 v)) \<subseteq> set (text_bytes digits)"
proof -
  have "CHR ''0'' \<in> set digits" by (simp add: digits_def)
  then show ?thesis using show_nat_digit_set [of "nat v"] by (intro set_text_bytes) (auto simp: pad6_def Let_def)
qed

lemma text_line_alphabet:
  assumes "plain_tag tag" "\<forall>w \<in> set ws. w \<in> set text_words"
  shows "set (join_bytes (text_bytes '' '') ws @ text_bytes ('' ['' @ tag @ ''-'' @ pad6 v @ '']'' @ [CHR 0x0A])) \<subseteq> set text_alphabet"
proof -
  have "set (text_bytes '' '') \<union> set (text_bytes '' ['') \<union> set (text_bytes ''-'') \<union> set (text_bytes '']'') \<subseteq> set (text_bytes '' []-'')"
    by (intro Un_least set_text_bytes) simp_all
  moreover have "set (join_bytes (text_bytes '' '') ws) \<subseteq> set (text_bytes '' '') \<union> set (text_bytes letters)"
    using set_join_bytes [of "text_bytes '' ''" ws] assms(2) text_words_alphabet by blast
  ultimately show ?thesis
    using plain_tag_bytes [OF assms(1)] pad6_bytes [of v] unfolding set_text_alphabet text_bytes_append set_append by blast
qed

lemma yields_text_line:
  assumes "draws_end src" "plain_tag tag"
  shows "yields src (text_line tag) (\<lambda>line. line \<noteq> [] \<and> set line \<subseteq> set text_alphabet)"
proof -
  have "text_words \<noteq> []" by (simp add: text_words_def)
  then show ?thesis
    unfolding text_line_def
    by (intro yields_bind [OF yields_times [OF yields_choice [OF assms(1)]]] yields_bind [OF yields_randrange [OF assms(1)]]
          yields_return conjI text_line_alphabet [OF assms(2)]) (simp_all add: text_bytes_def)
qed

lemma yields_text_loop:
  assumes "draws_end src" "plain_tag tag" "set out \<subseteq> set text_alphabet"
  shows "yields src (text_loop tag n out) (\<lambda>res. n \<le> int (length res) \<and> set res \<subseteq> set text_alphabet)"
  using assms(3)
proof (induction "nat (n - int (length out))" arbitrary: out rule: less_induct)
  case less
  show ?case
  proof (cases "int (length out) < n")
    case True
    show ?thesis
      unfolding yields_def
    proof
      fix p
      obtain l q where l: "text_line tag (at_pos src p) = Some (Inr l, at_pos src q)" "l \<noteq> [] \<and> set l \<subseteq> set text_alphabet"
        using yields_text_line [OF assms(1,2)] by (rule yieldsE)
      then have "0 < length l" by simp
      have "yields src (text_loop tag n (out @ l)) (\<lambda>res. n \<le> int (length res) \<and> set res \<subseteq> set text_alphabet)"
        using True l(2) \<open>0 < length l\<close> less(2) by (intro less(1)) auto
      then obtain res s where "text_loop tag n (out @ l) (at_pos src q) = Some (Inr res, at_pos src s)"
        "n \<le> int (length res) \<and> set res \<subseteq> set text_alphabet" by (rule yieldsE)
      then show "\<exists>x s. text_loop tag n out (at_pos src p) = Some (Inr x, at_pos src s) \<and> n \<le> int (length x) \<and> set x \<subseteq> set text_alphabet"
        using l(1) True by (subst text_loop.simps) simp
    qed
  next
    case False
    then show ?thesis using less(2) by (simp add: yields_def text_loop.simps)
  qed
qed

lemma yields_text_payload:
  assumes "draws_end src" "plain_tag tag" "0 \<le> n"
  shows "yields src (text_payload tag n) (\<lambda>data. length data = nat n \<and> set data \<subseteq> set text_alphabet)"
  unfolding text_payload_def
  by (rule yields_bind [OF yields_text_loop [OF assms(1,2)]], simp, rule yields_return)
    (use set_slice_to assms(3) in \<open>force simp: length_slice_to\<close>)

text \<open>Database pages: how many of their bytes are not zero.\<close>

definition nonzero :: "bytes \<Rightarrow> nat" where
  "nonzero page = length (filter (\<lambda>b. b \<noteq> 0) page)"

lemma set_slice_page:
  assumes "a + 8 \<le> length page" "length data = 8"
  shows "length (set_slice a data page) = length page \<and> nonzero (set_slice a data page) \<le> nonzero page + 8"
proof -
  have "page = take a page @ take 8 (drop a page) @ drop (a + 8) page"
    by (metis append_take_drop_id drop_drop add.commute)
  then have "nonzero page = nonzero (take a page @ take 8 (drop a page) @ drop (a + 8) page)" by simp
  then have "nonzero (take a page) + nonzero (drop (a + 8) page) \<le> nonzero page" by (simp add: nonzero_def)
  moreover have "nonzero data \<le> 8" using assms(2) length_filter_le [of _ data] by (simp add: nonzero_def)
  ultimately show ?thesis using assms by (simp add: set_slice_def nonzero_def)
qed

lemma yields_fill_page:
  assumes "draws_end src" "int (length page) = n" "i = 0 \<or> 64 \<le> n"
  shows "yields src (fill_page i n page) (\<lambda>res. length res = length page \<and> nonzero res \<le> nonzero page + 8 * i)"
  using assms(2,3)
proof (induction i arbitrary: page)
  case (Suc i)
  show ?case
    unfolding fill_page.simps
  proof (rule yields_bind [OF yields_randrange [OF assms(1)]], goal_cases)
    case (2 off)
    show ?case
    proof (rule yields_bind [OF yields_randrange [OF assms(1)]], goal_cases)
      case (2 v)
      let ?page = "set_slice (nat off) (le_bytes 8 v) page"
      have s: "length ?page = length page" "nonzero ?page \<le> nonzero page + 8"
        using set_slice_page [of "nat off" page "le_bytes 8 v"] \<open>16 \<le> off \<and> off < n - 8\<close> Suc.prems(1) by auto
      have "yields src (fill_page i n ?page) (\<lambda>res. length res = length ?page \<and> nonzero res \<le> nonzero ?page + 8 * i)"
        using Suc.prems s by (intro Suc.IH) auto
      then show ?case by (rule yields_weaken) (use s in auto)
    qed simp
  qed (use Suc.prems in simp)
qed (simp add: yields_return)

lemma yields_sparse_binary:
  assumes "draws_end src" "16 \<le> n"
  shows "yields src (sparse_binary n) (\<lambda>data. length data = nat n \<and> 8 * nonzero data \<le> 5 * length data)"
proof -
  have "yields src (fill_page (nat (n div 64)) n (set_slice 0 (le_bytes 8 v) (replicate (nat n) 0)))
      (\<lambda>data. length data = nat n \<and> 8 * nonzero data \<le> 5 * length data)" for v
  proof -
    let ?page = "set_slice 0 (le_bytes 8 v) (replicate (nat n) 0)"
    have s: "length ?page = nat n" "nonzero ?page \<le> 8"
      using set_slice_page [of 0 "replicate (nat n) 0" "le_bytes 8 v"] assms(2) by (auto simp: nonzero_def)
    have "nat (n div 64) = 0 \<or> 64 \<le> n" by auto
    from yields_fill_page [OF assms(1) _ this, of ?page] s(1) assms(2)
    have "yields src (fill_page (nat (n div 64)) n ?page) (\<lambda>res. length res = length ?page \<and> nonzero res \<le> nonzero ?page + 8 * nat (n div 64))"
      by simp
    then show ?thesis by (rule yields_weaken) (use s assms(2) in auto)
  qed
  then show ?thesis
    using assms unfolding sparse_binary_def by (auto intro!: yields_bind [OF yields_randrange])
qed

section \<open>Entropy that a shape cannot exceed\<close>

definition freq :: "bytes \<Rightarrow> nat \<Rightarrow> real" where
  "freq data k = real (length (filter (\<lambda>b. unat b = k) data)) / real (length data)"

lemma sum_over_counts:
  "(\<Sum>c \<leftarrow> byte_counts data. f (real c / real (length data))) = (\<Sum>k < 256. f (freq data k))"
  by (simp add: sum_list_sum_nth byte_counts_nth freq_def atLeast0LessThan)

lemma entropy_freq:
  assumes "data \<noteq> []"
  shows "shannon_entropy data = (\<Sum>k < 256. plogp (freq data k))" "(\<Sum>k < 256. freq data k) = 1"
  using shannon_entropy_sum [OF assms] sum_probabilities [OF assms] sum_over_counts [of plogp data] sum_over_counts [of "\<lambda>x. x" data]
  by simp_all

lemma freq_nonneg: "0 \<le> freq data k"
  by (simp add: freq_def)

text \<open>Comparison with a distribution that gives byte \<open>k\<close> the probability of \<open>b k\<close> bits.\<close>

lemma entropy_le_code:
  assumes "data \<noteq> []" "\<And>k. k \<notin> K \<Longrightarrow> k < 256 \<Longrightarrow> freq data k = 0" "K \<subseteq> {..<256}" "(\<Sum>k \<in> K. 1 / 2 ^ b k) \<le> (1 :: real)"
  shows "shannon_entropy data \<le> (\<Sum>k \<in> K. real (b k) * freq data k)"
proof -
  have fin: "finite K" using assms(3) finite_subset by blast
  have cut: "(\<Sum>k < 256. f (freq data k)) = (\<Sum>k \<in> K. f (freq data k))" if "f 0 = 0" for f :: "real \<Rightarrow> real"
    using assms(2,3) that by (intro sum.mono_neutral_right) auto
  have one: "(\<Sum>k \<in> K. freq data k) = 1" using entropy_freq(2) [OF assms(1)] cut [of "\<lambda>x. x"] by simp
  have "(\<Sum>k \<in> K. plogp (freq data k) - real (b k) * freq data k) \<le> (\<Sum>k \<in> K. (1 / 2 ^ b k - freq data k) / ln 2)"
    by (intro sum_mono plogp_tangent freq_nonneg)
  also have "\<dots> = ((\<Sum>k \<in> K. 1 / 2 ^ b k) - 1) / ln 2"
    by (simp add: sum_divide_distrib [symmetric] sum_subtractf one)
  also have "\<dots> \<le> 0" using assms(4) by (simp add: divide_le_0_iff)
  finally show ?thesis
    using entropy_freq(1) [OF assms(1)] cut [of plogp] by (simp add: sum_subtractf plogp_def)
qed

lemma entropy_alphabet:
  assumes "set data \<subseteq> set A" "length A \<le> 64"
  shows "shannon_entropy data \<le> 6"
proof (cases "data = []")
  case False
  let ?K = "unat ` set A"
  have "card ?K \<le> 64" using assms(2) card_image_le [of "set A" unat] card_length [of A] by simp
  then have k: "(\<Sum>k \<in> ?K. 1 / 2 ^ 6) \<le> (1 :: real)" by simp
  have z: "freq data k = 0" if "k \<notin> ?K" for k
  proof -
    have "filter (\<lambda>b. unat b = k) data = []" using that assms(1) by (auto simp: filter_empty_conv)
    then show ?thesis by (simp add: freq_def)
  qed
  have "(\<Sum>k \<in> ?K. freq data k) \<le> (\<Sum>k < 256. freq data k)"
    by (intro sum_mono2) (auto simp: freq_nonneg)
  moreover have "shannon_entropy data \<le> (\<Sum>k \<in> ?K. real 6 * freq data k)"
    using z by (intro entropy_le_code [OF False _ _ k]) auto
  ultimately show ?thesis using entropy_freq(2) [OF False] by (simp flip: sum_distrib_left)
qed (simp add: shannon_entropy_def)

lemma entropy_mostly_zero:
  assumes "8 * nonzero data \<le> 5 * length data"
  shows "shannon_entropy data \<le> 6"
proof (cases "data = []")
  case False
  let ?b = "\<lambda>k :: nat. if k = 0 then 1 else 9 :: nat"
  have split: "{..<256} = insert 0 {1..<256 :: nat}" by auto
  have "(\<Sum>k < 256. 1 / 2 ^ ?b k) \<le> (1 :: real)" unfolding split by simp
  then have "shannon_entropy data \<le> (\<Sum>k < 256. real (?b k) * freq data k)"
    by (intro entropy_le_code [OF False]) auto
  also have "\<dots> = freq data 0 + 9 * (\<Sum>k = 1..<256. freq data k)"
    unfolding split by (simp add: sum_distrib_left)
  also have "\<dots> = 9 - 8 * freq data 0"
    using entropy_freq(2) [OF False] unfolding split by simp
  finally have e: "shannon_entropy data \<le> 9 - 8 * freq data 0" .
  have "length (filter (\<lambda>b. unat b = 0) data) + nonzero data = length data"
    using sum_length_filter_compl [of "\<lambda>b. b = 0" data] by (simp add: nonzero_def unat_eq_0)
  then have "3 * real (length data) \<le> 8 * real (length (filter (\<lambda>b. unat b = 0) data))"
    using assms by linarith
  then have "3 \<le> 8 * freq data 0" using False by (simp add: freq_def field_simps)
  then show ?thesis using e by simp
qed (simp add: shannon_entropy_def)

lemma entropy_text: "set data \<subseteq> set text_alphabet \<Longrightarrow> shannon_entropy data \<le> 6"
  by (erule entropy_alphabet) (simp add: text_alphabet_def text_bytes_def letters_def digits_def)

section \<open>Events of a workload\<close>

lemma emitsE:
  assumes "emits src g Q"
  obtains evs q where "g (at_pos src p) = Some (evs, None, at_pos src q)" "Q evs"
  using assms unfolding emits_def by meson

lemma emits_weaken: "emits src g P \<Longrightarrow> (\<And>evs. P evs \<Longrightarrow> Q evs) \<Longrightarrow> emits src g Q"
  unfolding emits_def by meson

lemma emits_done: "Q [] \<Longrightarrow> emits src done_gen Q"
  by (simp add: emits_def done_gen_def)

lemma emits_yield: "Q [ev] \<Longrightarrow> emits src (yield_event ev) Q"
  by (simp add: emits_def yield_event_def)

lemma emits_then:
  assumes "emits src g P" "emits src h R" "\<And>a b. P a \<Longrightarrow> R b \<Longrightarrow> Q (a @ b)"
  shows "emits src (then_gen g h) Q"
  unfolding emits_def
proof
  fix p
  obtain a q where a: "g (at_pos src p) = Some (a, None, at_pos src q)" "P a" using assms(1) by (rule emitsE)
  obtain b s where b: "h (at_pos src q) = Some (b, None, at_pos src s)" "R b" using assms(2) by (rule emitsE)
  show "\<exists>evs q. then_gen g h (at_pos src p) = Some (evs, None, at_pos src q) \<and> Q evs"
    using a b assms(3) by (simp add: then_gen_def)
qed

lemma emits_draw:
  assumes "yields src m P" "\<And>x. P x \<Longrightarrow> emits src (f x) Q"
  shows "emits src (draw_gen m f) Q"
  unfolding emits_def
proof
  fix p
  obtain x q where m: "m (at_pos src p) = Some (Inr x, at_pos src q)" "P x" using assms(1) by (rule yieldsE)
  obtain evs s where "f x (at_pos src q) = Some (evs, None, at_pos src s)" "Q evs" using assms(2) [OF m(2)] by (rule emitsE)
  then show "\<exists>evs q. draw_gen m f (at_pos src p) = Some (evs, None, at_pos src q) \<and> Q evs"
    using m(1) by (simp add: draw_gen_def)
qed

text \<open>A loop emits one group of events for each round.\<close>

definition rounds :: "(io_event list \<Rightarrow> bool) \<Rightarrow> nat \<Rightarrow> io_event list \<Rightarrow> bool" where
  "rounds B n evs \<longleftrightarrow> (\<exists>groups. evs = concat groups \<and> length groups = n \<and> (\<forall>g \<in> set groups. B g))"

lemma emits_for:
  assumes "\<And>i. i \<in> set is \<Longrightarrow> emits src (body i) B"
  shows "emits src (for_gen body is) (rounds B (length is))"
  using assms
proof (induction "is")
  case Nil
  then show ?case by (simp add: emits_done rounds_def)
next
  case (Cons i "is")
  then have "emits src (body i) B" "emits src (for_gen body is) (rounds B (length is))" by simp_all
  then show ?case
    unfolding for_gen.simps
  proof (rule emits_then)
    fix a b assume a: "B a" and "rounds B (length is) b"
    then obtain groups where "b = concat groups" "length groups = length is" "\<forall>g \<in> set groups. B g" unfolding rounds_def by blast
    then show "rounds B (length (i # is)) (a @ b)"
      using a unfolding rounds_def by (intro exI [of _ "a # groups"]) simp
  qed
qed

lemma yields_mod: "0 < b \<Longrightarrow> yields src (py_mod a b) (\<lambda>v. 0 \<le> v \<and> v < b)"
  by (simp add: py_mod_def yields_return)

section \<open>The shapes of the corpus\<close>

definition event_ok :: "int \<Rightarrow> io_event \<Rightarrow> bool" where
  "event_ok n ev \<longleftrightarrow> ev_blocks ev = 1 \<and> (ev_kind ev = WRITE \<longrightarrow> length (ev_payload ev) = nat n)"

definition writes_only :: "int \<Rightarrow> io_event list \<Rightarrow> bool" where
  "writes_only n evs \<longleftrightarrow> (\<forall>ev \<in> set evs. ev_kind ev = WRITE \<and> event_ok n ev)"

text \<open>A block is read and replaced by content of at most 6 bits per byte.\<close>

definition quiet_pair :: "int \<Rightarrow> io_event list \<Rightarrow> bool" where
  "quiet_pair n evs \<longleftrightarrow>
     (\<exists>lba data. evs = [plain_event READ lba [], plain_event WRITE lba data] \<and> length data = nat n \<and> shannon_entropy data \<le> 6)"

text \<open>What the benign workloads have in common.\<close>

definition calm :: "int \<Rightarrow> io_event list \<Rightarrow> bool" where
  "calm n evs \<longleftrightarrow> writes_only n evs \<or> (\<exists>k. rounds (quiet_pair n) k evs)"

lemma plain_event_ok: "kind \<noteq> WRITE \<or> length data = nat n \<Longrightarrow> event_ok n (plain_event kind lba data)"
  by (auto simp: event_ok_def plain_event_def)

lemma plain_event_sel [simp]:
  "ev_kind (plain_event kind lba data) = kind" "ev_lba (plain_event kind lba data) = lba"
  "ev_payload (plain_event kind lba data) = data" "ev_blocks (plain_event kind lba data) = 1"
  by (simp_all add: plain_event_def)

lemma rounds_all: "rounds B k evs \<Longrightarrow> (\<And>g ev. B g \<Longrightarrow> ev \<in> set g \<Longrightarrow> P ev) \<Longrightarrow> ev \<in> set evs \<Longrightarrow> P ev"
  by (auto simp: rounds_def) metis

lemma emits_write:
  "yields src m (\<lambda>data. length data = nat n \<and> P data) \<Longrightarrow>
   emits src (write_of lba m) (\<lambda>evs. \<exists>data. evs = [plain_event WRITE lba data] \<and> length data = nat n \<and> P data)"
  unfolding write_of_def by (erule emits_draw) (auto intro: emits_yield)

lemma emits_read: "emits src (read_of lba) (\<lambda>evs. evs = [plain_event READ lba []])"
  unfolding read_of_def by (rule emits_yield) simp

lemma emits_each_write:
  assumes "\<And>i. yields src (m i) (\<lambda>data. length data = nat n)" "0 < nb"
  shows "emits src (for_gen (\<lambda>i. draw_gen (py_mod (f i) nb) (\<lambda>lba. write_of lba (m i))) is) (calm n)"
proof -
  have w: "emits src (write_of lba (m i)) (\<lambda>evs. \<exists>data. evs = [plain_event WRITE lba data] \<and> length data = nat n \<and> True)" for lba i
    using assms(1) by (intro emits_write) simp
  have "emits src (for_gen (\<lambda>i. draw_gen (py_mod (f i) nb) (\<lambda>lba. write_of lba (m i))) is) (rounds (writes_only n) (length is))"
    by (intro emits_for emits_draw [OF yields_mod [OF assms(2)]] emits_weaken [OF w])
      (auto simp: writes_only_def plain_event_ok)
  then show ?thesis
    by (rule emits_weaken) (auto simp: calm_def rounds_def writes_only_def)
qed

lemma emits_quiet_pair:
  assumes "yields src m (\<lambda>data. length data = nat n \<and> shannon_entropy data \<le> 6)"
  shows "emits src (then_gen (read_of lba) (write_of lba m)) (quiet_pair n)"
  by (rule emits_then [OF emits_read emits_write [OF assms]]) (auto simp: quiet_pair_def)

lemma emits_calm_pairs:
  "(\<And>i. i \<in> set is \<Longrightarrow> emits src (body i) (quiet_pair n)) \<Longrightarrow> emits src (for_gen body is) (calm n)"
  by (rule emits_weaken [OF emits_for]) (auto simp: calm_def)

lemma yields_text_quiet:
  assumes "draws_end src" "plain_tag tag" "0 \<le> n"
  shows "yields src (text_payload tag n) (\<lambda>data. length data = nat n \<and> shannon_entropy data \<le> 6)"
  by (rule yields_weaken [OF yields_text_payload [OF assms]]) (simp add: entropy_text)

lemma yields_page_quiet:
  assumes "draws_end src" "16 \<le> n"
  shows "yields src (sparse_binary n) (\<lambda>data. length data = nat n \<and> shannon_entropy data \<le> 6)"
  by (rule yields_weaken [OF yields_sparse_binary [OF assms]]) (simp add: entropy_mostly_zero)

lemma plain_tags: "plain_tag ''log''" "plain_tag ''bin''" "plain_tag ''record''" "plain_tag ''user''"
  by code_simp+

lemma database_oltp_calm:
  assumes "draws_end src" "16 \<le> n" "0 < nb"
  shows "emits src (database_oltp nb n) (calm n)"
proof -
  have pair: "emits src (then_gen (read_of page) (write_of page (sparse_binary n))) (quiet_pair n)" for page
    by (rule emits_quiet_pair [OF yields_page_quiet [OF assms(1,2)]])
  have "yields src (draw_times (max 4 (nb div 12)) (randrange 0 nb))
      (\<lambda>ys. length ys = nat (max 4 (nb div 12)) \<and> (\<forall>y \<in> set ys. 0 \<le> y \<and> y < nb))"
    using assms by (intro yields_times yields_randrange)
  then show ?thesis
    unfolding database_oltp_def
  proof (rule emits_draw)
    fix hot :: "int list"
    assume "length hot = nat (max 4 (nb div 12)) \<and> (\<forall>y \<in> set hot. 0 \<le> y \<and> y < nb)"
    then have "hot \<noteq> []" by auto
    then show "emits src (for_gen (\<lambda>_. draw_gen (choice hot) (\<lambda>page. then_gen (read_of page) (write_of page (sparse_binary n)))) (up_to 120)) (calm n)"
      by (intro emits_calm_pairs emits_draw [OF yields_choice [OF assms(1)]] pair)
  qed
qed

lemma software_update_calm:
  assumes "draws_end src" "16 \<le> n" "0 < nb"
  shows "emits src (software_update nb n) (calm n)"
proof -
  have "yields src (if i mod 3 \<noteq> (0 :: int) then sparse_binary n else text_payload ''bin'' n)
      (\<lambda>data. length data = nat n \<and> shannon_entropy data \<le> 6)" for i
    using yields_page_quiet [OF assms(1,2)] yields_text_quiet [OF assms(1) plain_tags(2), of n] assms(2) by simp
  then show ?thesis
    unfolding software_update_def
    by (intro emits_calm_pairs emits_draw [OF yields_mod [OF assms(3)]] emits_quiet_pair)
qed

lemma benign_calm:
  assumes "draws_end src" "\<And>x. deflate x \<noteq> []" "16 \<le> n" "0 < nb" "w \<in> set (benign_workloads deflate)"
  shows "emits src (wl_generate w nb n) (calm n)"
proof -
  have n: "0 \<le> n" using assms(3) by simp
  note tx = yields_weaken [OF yields_text_payload [OF assms(1) _ n]]
  have ar: "yields src (compressed_archive deflate n) (\<lambda>data. length data = nat n)"
    by (rule yields_compressed_archive [OF assms(1,2) n])
  have "emits src (archive_copy deflate nb n) (calm n)" "emits src (media_import nb n) (calm n)"
    "emits src (encrypted_volume_fill nb n) (calm n)" "emits src (log_append nb n) (calm n)"
    unfolding archive_copy_def media_import_def encrypted_volume_fill_def log_append_def
    by (intro emits_each_write [where f = "\<lambda>i. i"] assms(4) ar yields_jpeg_like yields_incompressible n tx plain_tags; simp)+
  moreover have "emits src (backup_restore deflate nb n) (calm n)"
    unfolding backup_restore_def
    using ar tx [OF plain_tags(3)] by (intro emits_each_write [where f = "\<lambda>i. i"] assms(4)) simp
  ultimately show ?thesis
    using assms(5) database_oltp_calm [OF assms(1,3,4)] software_update_calm [OF assms(1,3,4)]
    by (auto simp: benign_workloads_def make_workload_def)
qed

text \<open>The attack shapes: every event is one block long and every payload fills it.\<close>

definition ok_events :: "int \<Rightarrow> io_event list \<Rightarrow> bool" where
  "ok_events n evs \<longleftrightarrow> (\<forall>ev \<in> set evs. event_ok n ev)"

lemma calm_ok: "calm n evs \<Longrightarrow> ok_events n evs"
  unfolding calm_def ok_events_def
  by (auto simp: writes_only_def elim!: rounds_all) (auto simp: quiet_pair_def plain_event_ok)

lemma ok_then: "emits src g (ok_events n) \<Longrightarrow> emits src h (ok_events n) \<Longrightarrow> emits src (then_gen g h) (ok_events n)"
  by (erule emits_then, assumption) (auto simp: ok_events_def)

lemma ok_for: "(\<And>i. i \<in> set is \<Longrightarrow> emits src (body i) (ok_events n)) \<Longrightarrow> emits src (for_gen body is) (ok_events n)"
  by (rule emits_weaken [OF emits_for]) (auto simp: ok_events_def rounds_def)

lemma ok_read: "emits src (read_of lba) (ok_events n)"
  by (rule emits_weaken [OF emits_read]) (simp add: ok_events_def plain_event_ok)

lemma ok_write: "yields src m (\<lambda>data. length data = nat n) \<Longrightarrow> emits src (write_of lba m) (ok_events n)"
  by (rule emits_weaken [OF emits_write [of src m n "\<lambda>_. True"]]) (auto simp: ok_events_def plain_event_ok)

lemma ok_wipe: "emits src (if b then yield_event (plain_event DEALLOCATE lba []) else done_gen) (ok_events n)"
  by (auto intro!: emits_yield emits_done simp: ok_events_def plain_event_ok)

lemmas ok_intros = ok_then ok_for ok_read ok_write ok_wipe yields_incompressible

lemma attacks_ok:
  assumes "draws_end src" "0 \<le> n" "0 < nb" "w \<in> set ransomware_workloads"
  shows "emits src (wl_generate w nb n) (ok_events n)"
proof -
  have t: "yields src (text_payload ''record'' n) (\<lambda>data. length data = nat n)"
    by (rule yields_weaken [OF yields_text_payload [OF assms(1) plain_tags(3) assms(2)]]) simp
  note intros = ok_intros emits_draw [OF yields_mod [OF assms(3)]] assms(2) t
  have "emits src (encrypt_in_place nb n) (ok_events n)" "emits src (encrypt_and_wipe nb n) (ok_events n)"
    "emits src (minimal_evasion nb n) (ok_events n)" "emits src (targeted_documents nb n) (ok_events n)"
    unfolding encrypt_in_place_def encrypt_and_wipe_def minimal_evasion_def targeted_documents_def Let_def
    by (intro intros)+
  moreover have "emits src (low_and_slow nb n) (ok_events n)"
    unfolding low_and_slow_def by (rule ok_for, split if_split, intro conjI impI intros)
  ultimately show ?thesis using assms(4) by (auto simp: ransomware_workloads_def make_workload_def)
qed

lemma workloads_ok:
  assumes "draws_end src" "\<And>x. deflate x \<noteq> []" "16 \<le> n" "0 < nb" "w \<in> set (all_workloads deflate)"
  shows "emits src (wl_generate w nb n) (ok_events n)"
proof (cases "w \<in> set (benign_workloads deflate)")
  case True
  show ?thesis using benign_calm [OF assms(1-4) True] by (rule emits_weaken) (rule calm_ok)
next
  case False
  then show ?thesis using assms by (intro attacks_ok) (auto simp: all_workloads_def)
qed

lemma wipe_deallocates:
  assumes "0 \<le> n" "0 < nb"
  shows "emits src (encrypt_and_wipe nb n) (\<lambda>evs. ok_events n evs \<and> (\<exists>ev \<in> set evs. ev_kind ev = DEALLOCATE))"
proof -
  have first: "up_to 120 = 0 # [1..119]" unfolding up_to_def by (subst upto.simps) simp
  note intros = ok_intros emits_draw [OF yields_mod [OF assms(2)]] assms(1)
  let ?body = "\<lambda>i. draw_gen (py_mod (i * 11) nb) (\<lambda>target. then_gen (read_of target)
         (then_gen (write_of target (incompressible n))
            (if i mod 4 = 0 then yield_event (plain_event DEALLOCATE target []) else done_gen)))"
  have rest: "emits src (for_gen ?body [1..119]) (ok_events n)" by (intro intros)
  let ?D = "\<lambda>evs. ok_events n evs \<and> (\<exists>ev \<in> set evs. ev_kind ev = DEALLOCATE)"
  have d: "emits src (if (0 :: int) mod 4 = 0 then yield_event (plain_event DEALLOCATE lba []) else done_gen) ?D" for lba
    by (auto intro!: emits_yield simp: ok_events_def plain_event_ok)
  have "emits src (then_gen (write_of lba (incompressible n))
      (if (0 :: int) mod 4 = 0 then yield_event (plain_event DEALLOCATE lba []) else done_gen)) ?D" for lba
    by (rule emits_then [OF ok_write [OF yields_incompressible [OF assms(1)]] d]) (auto simp: ok_events_def)
  then have "emits src (then_gen (read_of lba) (then_gen (write_of lba (incompressible n))
      (if (0 :: int) mod 4 = 0 then yield_event (plain_event DEALLOCATE lba []) else done_gen))) ?D" for lba
    by (rule emits_then [OF ok_read]) (auto simp: ok_events_def)
  then have "emits src (?body 0) ?D"
    by (rule emits_draw [OF yields_mod [OF assms(2)]])
  then show ?thesis
    unfolding encrypt_and_wipe_def first for_gen.simps by (rule emits_then [OF _ rest]) (auto simp: ok_events_def)
qed

end
