(* ===== verification/Benchmark.thy ===== *)
theory Benchmark
  imports Workloads_Spec Policy Json "HOL-Library.Product_Lexorder"
begin

text \<open>
  The measurement of the policy against the workloads (\<^verbatim>\<open>aegis_shield/core/benchmark.py\<close>): one workload
  through the real analyzer and policy on a device that is in service, the report over the corpus, and
  the worst case over several seeds. \<open>None\<close> is a draw that never ends (see \<open>Workloads\<close>).
\<close>

unbundle bit_operations_syntax

section \<open>One workload\<close>

record workload_result =
  wr_name :: string
  wr_kind :: string
  wr_description :: string
  peak_score :: real
  mean_score :: real
  alerted :: bool
  contained :: bool
  wr_operations :: nat
  peak_features :: "feature_vector option"

definition correct :: "workload_result \<Rightarrow> bool" where
  "correct r = (if wr_kind r = ''ransomware'' then contained r else \<not> contained r)"

text \<open>The local variables of the loop; \<open>m_written\<close> is the device content, \<open>m_peak_features\<close> is \<open>None\<close> for the empty dictionary.\<close>

record measuring =
  m_analyzer :: analyzer
  m_written :: "int \<Rightarrow> bytes option"
  m_peak :: real
  m_total :: real
  m_scored :: nat
  m_alerted :: bool
  m_contained :: bool
  m_peak_features :: "feature_vector option"

definition before_image :: "int \<Rightarrow> io_event \<Rightarrow> measuring \<Rightarrow> bytes option res" where
  "before_image bsize ev m =
     (if ev_kind ev = WRITE
      then if bsize < 0 then Inl (ValueError ''negative count'')
           else Inr (Some (case m_written m (ev_lba ev) of None \<Rightarrow> replicate (nat bsize) 0 | Some b \<Rightarrow> b))
      else Inr None)"

definition count_decision :: "decision \<Rightarrow> measuring \<Rightarrow> measuring" where
  "count_decision d m =
     m\<lparr>m_total := m_total m + score d,
       m_scored := m_scored m + 1,
       m_peak := (if m_peak m < score d then score d else m_peak m),
       m_peak_features := (if m_peak m < score d then Some (features d) else m_peak_features m),
       m_alerted := (m_alerted m \<or> alert d),
       m_contained := (m_contained m \<or> contain d)\<rparr>"

definition measure_event :: "policy_config \<Rightarrow> int \<Rightarrow> io_event \<Rightarrow> measuring \<Rightarrow> measuring res" where
  "measure_event cfg bsize ev m =
     bind_res (before_image bsize ev m) (\<lambda>before.
       case observe ev before (m_analyzer m) of
         (Inl e, _) \<Rightarrow> Inl e
       | (Inr f, an) \<Rightarrow>
           Inr (count_decision (evaluate cfg f)
             (m\<lparr>m_analyzer := an,
                m_written := (if ev_kind ev = WRITE then (m_written m)(ev_lba ev \<mapsto> ev_payload ev) else m_written m)\<rparr>)))"

fun measure_events :: "policy_config \<Rightarrow> int \<Rightarrow> io_event list \<Rightarrow> measuring \<Rightarrow> measuring res" where
  "measure_events cfg bsize [] m = Inr m"
| "measure_events cfg bsize (ev # evs) m = bind_res (measure_event cfg bsize ev m) (measure_events cfg bsize evs)"

definition new_measuring :: "analyzer \<Rightarrow> (int \<times> bytes) list \<Rightarrow> measuring" where
  "new_measuring an images =
     \<lparr>m_analyzer = an, m_written = map_of images, m_peak = 0, m_total = 0, m_scored = 0, m_alerted = False,
      m_contained = False, m_peak_features = None\<rparr>"

definition result_of :: "workload \<Rightarrow> measuring \<Rightarrow> workload_result" where
  "result_of w m =
     \<lparr>wr_name = wl_name w, wr_kind = wl_kind w, wr_description = wl_description w, peak_score = m_peak m,
      mean_score = (if m_scored m \<noteq> 0 then m_total m / real (m_scored m) else 0),
      alerted = m_alerted m, contained = m_contained m, wr_operations = m_scored m, peak_features = m_peak_features m\<rparr>"

text \<open>\<open>{block: _text(seed_rng, block_size, "user") for block in range(blocks)}\<close>.\<close>

definition user_content :: "int \<Rightarrow> int \<Rightarrow> (int \<times> bytes) list draw" where
  "user_content nblocks bsize =
     draw_each (\<lambda>b. bind_draw (text_payload ''user'' bsize) (\<lambda>t. return_draw (b, t))) (up_to nblocks)"

definition run_workload ::
  "source \<Rightarrow> workload \<Rightarrow> policy_config \<Rightarrow> int \<Rightarrow> int \<Rightarrow> int \<Rightarrow> workload_result res option" where
  "run_workload source w config nblocks bsize seed =
     (case new_analyzer (default_config nblocks) of
        Inl e \<Rightarrow> Some (Inl e)
      | Inr an \<Rightarrow>
          (case new_policy (Some config) of
             Inl e \<Rightarrow> Some (Inl e)
           | Inr cfg \<Rightarrow>
               (case user_content nblocks bsize (random_Random source (seed XOR 0x5EED)) of
                  None \<Rightarrow> None
                | Some (Inl e, _) \<Rightarrow> Some (Inl e)
                | Some (Inr images, _) \<Rightarrow>
                    (case wl_generate w nblocks bsize (random_Random source seed) of
                       None \<Rightarrow> None
                     | Some (evs, err, _) \<Rightarrow>
                         Some (bind_res (measure_events cfg bsize evs (new_measuring an images)) (\<lambda>m.
                           case err of Some e \<Rightarrow> Inl e | None \<Rightarrow> Inr (result_of w m)))))))"

section \<open>A report\<close>

record benchmark_report =
  results :: "workload_result list"
  rp_config :: policy_config

definition benign_results :: "benchmark_report \<Rightarrow> workload_result list" where
  "benign_results rp = filter (\<lambda>r. wr_kind r = ''benign'') (results rp)"

definition ransomware_results :: "benchmark_report \<Rightarrow> workload_result list" where
  "ransomware_results rp = filter (\<lambda>r. wr_kind r = ''ransomware'') (results rp)"

definition false_positives :: "benchmark_report \<Rightarrow> workload_result list" where
  "false_positives rp = filter contained (benign_results rp)"

definition false_negatives :: "benchmark_report \<Rightarrow> workload_result list" where
  "false_negatives rp = filter (\<lambda>r. \<not> contained r) (ransomware_results rp)"

definition false_positive_rate :: "benchmark_report \<Rightarrow> real" where
  "false_positive_rate rp =
     (if benign_results rp \<noteq> [] then real (length (false_positives rp)) / real (length (benign_results rp)) else 0)"

definition true_positive_rate :: "benchmark_report \<Rightarrow> real" where
  "true_positive_rate rp =
     (if ransomware_results rp \<noteq> []
      then real (length (ransomware_results rp) - length (false_negatives rp)) / real (length (ransomware_results rp)) else 0)"

fun list_max :: "real list \<Rightarrow> real res" where
  "list_max [] = Inl (ValueError ''max() arg is an empty sequence'')"
| "list_max (x # xs) = Inr (foldl max x xs)"

fun list_min :: "real list \<Rightarrow> real res" where
  "list_min [] = Inl (ValueError ''min() arg is an empty sequence'')"
| "list_min (x # xs) = Inr (foldl min x xs)"

definition separation :: "benchmark_report \<Rightarrow> real res" where
  "separation rp =
     (if benign_results rp = [] \<or> ransomware_results rp = [] then Inr 0
      else bind_res (list_min (map peak_score (ransomware_results rp))) (\<lambda>lo.
           bind_res (list_max (map peak_score (benign_results rp))) (\<lambda>hi. Inr (lo - hi))))"

fun run_each :: "source \<Rightarrow> policy_config \<Rightarrow> int \<Rightarrow> int \<Rightarrow> int \<Rightarrow> workload list \<Rightarrow> workload_result list res option" where
  "run_each source cfg nblocks bsize seed [] = Some (Inr [])"
| "run_each source cfg nblocks bsize seed (w # ws) =
     (case run_workload source w cfg nblocks bsize seed of
        None \<Rightarrow> None
      | Some (Inl e) \<Rightarrow> Some (Inl e)
      | Some (Inr r) \<Rightarrow> map_option (\<lambda>rest. bind_res rest (\<lambda>rs. Inr (r # rs))) (run_each source cfg nblocks bsize seed ws))"

definition run_benchmark ::
  "source \<Rightarrow> policy_config option \<Rightarrow> workload list \<Rightarrow> int \<Rightarrow> int \<Rightarrow> int \<Rightarrow> benchmark_report res option" where
  "run_benchmark source config ws nblocks bsize seed =
     (let resolved = (case config of None \<Rightarrow> default_policy | Some c \<Rightarrow> c)
      in map_option (\<lambda>rs. bind_res rs (\<lambda>l. Inr \<lparr>results = l, rp_config = resolved\<rparr>))
           (run_each source resolved nblocks bsize seed ws))"

section \<open>Several seeds\<close>

record multi_seed_report =
  ms_seeds :: nat
  ms_reports :: "benchmark_report list"
  ms_per_workload :: "real list dict"
  loudest_benign :: real
  quietest_attack :: real
  ms_separation :: real
  max_false_positive_rate :: real
  min_true_positive_rate :: real
  containment_margin :: real

fun run_seeds ::
  "source \<Rightarrow> policy_config option \<Rightarrow> workload list \<Rightarrow> int \<Rightarrow> int \<Rightarrow> int list \<Rightarrow> benchmark_report list res option" where
  "run_seeds source config ws nblocks bsize [] = Some (Inr [])"
| "run_seeds source config ws nblocks bsize (s # ss) =
     (case run_benchmark source config ws nblocks bsize s of
        None \<Rightarrow> None
      | Some (Inl e) \<Rightarrow> Some (Inl e)
      | Some (Inr rp) \<Rightarrow> map_option (\<lambda>rest. bind_res rest (\<lambda>rps. Inr (rp # rps))) (run_seeds source config ws nblocks bsize ss))"

text \<open>\<open>per_workload.setdefault(result.name, []).append(result.peak_score)\<close>.\<close>

definition add_peak :: "real list dict \<Rightarrow> workload_result \<Rightarrow> real list dict" where
  "add_peak d r = AList.update (wr_name r) ((case map_of d (wr_name r) of None \<Rightarrow> [] | Some l \<Rightarrow> l) @ [peak_score r]) d"

definition peaks_by_workload :: "benchmark_report list \<Rightarrow> real list dict" where
  "peaks_by_workload rps = foldl add_peak [] (concat (map results rps))"

fun each_res :: "('a \<Rightarrow> 'b res) \<Rightarrow> 'a list \<Rightarrow> 'b list res" where
  "each_res f [] = Inr []"
| "each_res f (x # xs) = bind_res (f x) (\<lambda>y. bind_res (each_res f xs) (\<lambda>ys. Inr (y # ys)))"

definition summarise :: "int list \<Rightarrow> benchmark_report list \<Rightarrow> multi_seed_report res" where
  "summarise seeds reports =
     (let per_workload = peaks_by_workload reports in
      case reports of
        [] \<Rightarrow> Inl IndexError
      | first # _ \<Rightarrow>
          (let benign_names = set (map wr_name (benign_results first)) in
           bind_res (bind_res (each_res list_max (map snd (filter (\<lambda>(name, _). name \<in> benign_names) per_workload))) list_max)
             (\<lambda>worst_benign.
           bind_res (bind_res (each_res list_min (map snd (filter (\<lambda>(name, _). name \<notin> benign_names) per_workload))) list_min)
             (\<lambda>worst_attack.
           bind_res (list_max (map false_positive_rate reports)) (\<lambda>fpr.
           bind_res (list_min (map true_positive_rate reports)) (\<lambda>tpr.
             Inr \<lparr>ms_seeds = length seeds, ms_reports = reports, ms_per_workload = per_workload,
                  loudest_benign = worst_benign, quietest_attack = worst_attack,
                  ms_separation = worst_attack - worst_benign, max_false_positive_rate = fpr,
                  min_true_positive_rate = tpr,
                  containment_margin = containment_threshold (rp_config first) - worst_benign\<rparr>))))))"

definition run_multi_seed ::
  "source \<Rightarrow> (bytes \<Rightarrow> bytes) \<Rightarrow> policy_config option \<Rightarrow> int list \<Rightarrow> int \<Rightarrow> int \<Rightarrow> multi_seed_report res option" where
  "run_multi_seed source deflate config seeds nblocks bsize =
     map_option (\<lambda>rps. bind_res rps (summarise seeds)) (run_seeds source config (all_workloads deflate) nblocks bsize seeds)"

section \<open>The report as text\<close>

text \<open>
  Python's number formats on the value of a float, taken as a real: \<open>{:.df}\<close> rounds to \<open>d\<close> places, halves
  to the even neighbour; \<open>{:+.df}\<close> shows the sign of a positive number too; \<open>{:.0%}\<close> is a percentage.
\<close>

definition round_half_even :: "real \<Rightarrow> int" where
  "round_half_even x =
     (let n = floor x; r = x - of_int n
      in if r < 1 / 2 \<or> r = 1 / 2 \<and> even n then n else n + 1)"

definition fixed :: "nat \<Rightarrow> real \<Rightarrow> string" where
  "fixed d x =
     (let n = nat (round_half_even (\<bar>x\<bar> * 10 ^ d)); frac = show_nat (n mod 10 ^ d)
      in (if x < 0 then ''-'' else '''') @ show_nat (n div 10 ^ d) @
         (if d = 0 then '''' else ''.'' @ replicate (d - length frac) (CHR ''0'') @ frac))"

definition fixed_signed :: "nat \<Rightarrow> real \<Rightarrow> string" where
  "fixed_signed d x = (if x < 0 then '''' else ''+'') @ fixed d x"

definition percent :: "real \<Rightarrow> string" where
  "percent x = fixed 0 (x * 100) @ ''%''"

definition ljust :: "nat \<Rightarrow> string \<Rightarrow> string" where
  "ljust n s = s @ replicate (n - length s) (CHR '' '')"

definition rjust :: "nat \<Rightarrow> string \<Rightarrow> string" where
  "rjust n s = replicate (n - length s) (CHR '' '') @ s"

definition bool_text :: "bool \<Rightarrow> string" where
  "bool_text b = (if b then ''True'' else ''False'')"

definition verdict :: "workload_result \<Rightarrow> string" where
  "verdict r = (if correct r then ''ok'' else if wr_kind r = ''benign'' then ''FALSE POSITIVE'' else ''MISSED'')"

definition report_row :: "nat \<Rightarrow> workload_result \<Rightarrow> string" where
  "report_row width r =
     ljust width (wr_name r) @ ''  '' @ ljust 10 (wr_kind r) @ '' '' @ rjust 6 (fixed 3 (peak_score r)) @ '' '' @
     rjust 6 (fixed 3 (mean_score r)) @ ''  '' @ ljust 6 (bool_text (alerted r)) @ '' '' @ ljust 8 (bool_text (contained r)) @ '' '' @ verdict r"

definition report_head :: "nat \<Rightarrow> string list" where
  "report_head width =
     [ljust width ''WORKLOAD'' @ ''  '' @ ljust 10 ''KIND'' @ '' '' @ rjust 6 ''PEAK'' @ '' '' @ rjust 6 ''MEAN'' @ ''  '' @
        ljust 6 ''ALERT'' @ '' '' @ ljust 8 ''CONTAIN'' @ '' VERDICT'',
      replicate (width + 48) (CHR ''-'')]"

definition report_foot :: "benchmark_report \<Rightarrow> real \<Rightarrow> string list" where
  "report_foot rp sep =
     [[],
      ''alert threshold      : '' @ fixed 2 (alert_threshold (rp_config rp)),
      ''containment threshold: '' @ fixed 2 (containment_threshold (rp_config rp)),
      ''containment enabled  : '' @ bool_text (containment_enabled (rp_config rp)),
      [],
      ''true-positive rate   : '' @ percent (true_positive_rate rp) @ '' ('' @
        show_nat (length (ransomware_results rp) - length (false_negatives rp)) @ ''/'' @ show_nat (length (ransomware_results rp)) @ '')'',
      ''false-positive rate  : '' @ percent (false_positive_rate rp) @ '' ('' @
        show_nat (length (false_positives rp)) @ ''/'' @ show_nat (length (benign_results rp)) @ '')'',
      ''separation           : '' @ fixed_signed 3 sep @ '' (quietest attack minus loudest benign)'']"

text \<open>Rows in the order of kind, the loudest first; rows that agree in both keep their order.\<close>

definition format_report :: "benchmark_report \<Rightarrow> string res" where
  "format_report rp =
     (case map (\<lambda>r. length (wr_name r)) (results rp) of
        [] \<Rightarrow> Inl (ValueError ''max() arg is an empty sequence'')
      | n # ns \<Rightarrow>
          (let width = foldl max n ns;
               rows = sort_key (\<lambda>r. (wr_kind r, - peak_score r)) (results rp)
           in bind_res (separation rp) (\<lambda>sep.
                Inr (join [nl] (report_head width @ map (report_row width) rows @ report_foot rp sep)))))"


end
