(* ===== verification/Benchmark_Spec.thy ===== *)
theory Benchmark_Spec
  imports Benchmark
begin

text \<open>
  What the measurement can show. Whatever the random stream of a seed is, every workload of the corpus
  runs to its end; no benign workload ever reaches the alert threshold of the shipped policy; the
  workload that discards blocks is always contained; and over any seeds the report has no false positive
  and keeps its margin. The separation figure of a report is positive exactly if a threshold exists.
\<close>

section \<open>One observation\<close>

definition observed :: "analyzer_config \<Rightarrow> io_event \<Rightarrow> real \<Rightarrow> write_facts \<Rightarrow> observation" where
  "observed c ev entropy w =
     \<lparr>ob_kind = ev_kind ev, ob_lba = ev_lba ev, ob_blocks = ev_blocks ev, ob_entropy = entropy,
      ob_high_entropy = (high_entropy_bits_per_byte c \<le> entropy), ob_overwrite = wf_overwrite w,
      ob_changed_fraction = wf_change w, ob_sequential = wf_sequential w,
      ob_read_before_write = wf_read_before_write w, ob_destructive = (ev_kind ev = ADMIN \<or> ev_kind ev = DEALLOCATE)\<rparr>"

lemma record_observation_sel [simp]:
  "an_window (record_observation ev x w a) = deque_append (window_operations (an_config a)) (an_window a) (observed (an_config a) ev x w)"
  "an_config (record_observation ev x w a) = an_config a"
  "an_recent_reads (record_observation ev x w a) = an_recent_reads a"
  by (simp_all add: record_observation_def observed_def retire_def Let_def)

lemma observe_cases:
  assumes "observe ev before a = (Inr f, a')"
  obtains w b where "a' = record_observation ev (if ev_kind ev = WRITE then shannon_entropy (ev_payload ev) else 0) w b"
    "an_window b = an_window a" "an_config b = an_config a" "an_recent_reads a = [] \<longrightarrow> \<not> wf_read_before_write w"
    "ev_kind ev \<noteq> READ \<longrightarrow> an_recent_reads b = an_recent_reads a" "f = snapshot_features a'"
proof -
  consider (r) "ev_kind ev = READ" | (w) "ev_kind ev = WRITE" | (o) "ev_kind ev \<noteq> READ" "ev_kind ev \<noteq> WRITE" by blast
  then show thesis
  proof cases
    case r
    then show thesis
      using assms that [of no_facts "a\<lparr>an_recent_reads := deque_append (window_operations (an_config a)) (an_recent_reads a)
                        (ev_lba ev, ev_lba ev + ev_blocks ev)\<rparr>"]
      by (auto simp: observe_def Let_def no_facts_def)
  next
    case w
    then obtain x where x: "write_facts_of a ev before = Inr x"
      "a' = record_observation ev (shannon_entropy (ev_payload ev)) x (a\<lparr>an_last_write_end := Some (ev_lba ev + ev_blocks ev)\<rparr>)"
      "f = snapshot_features a'"
      using assms by (auto simp: observe_def Let_def split: sum.splits)
    moreover have "\<not> wf_read_before_write x" if "an_recent_reads a = []"
      using that x(1) by (auto simp: write_facts_of_def Let_def bind_res_Inr_conv split: option.splits)
    ultimately show thesis
      using w that [of x "a\<lparr>an_last_write_end := Some (ev_lba ev + ev_blocks ev)\<rparr>"] by simp
  next
    case o
    then show thesis using assms that [of no_facts a] by (auto simp: observe_def Let_def no_facts_def)
  qed
qed

lemma observe_window:
  assumes "observe ev before a = (Inr f, a')"
  obtains ob where "an_window a' = deque_append (window_operations (an_config a)) (an_window a) ob" "an_config a' = an_config a"
    "ob_kind ob = ev_kind ev" "ob_destructive ob = (ev_kind ev = ADMIN \<or> ev_kind ev = DEALLOCATE)"
    "ob_entropy ob = (if ev_kind ev = WRITE then shannon_entropy (ev_payload ev) else 0)"
    "ob_high_entropy ob = (high_entropy_bits_per_byte (an_config a) \<le> ob_entropy ob)"
    "an_recent_reads a = [] \<Longrightarrow> \<not> ob_read_before_write ob" "ev_kind ev \<noteq> READ \<Longrightarrow> an_recent_reads a' = an_recent_reads a"
    "f = snapshot_features a'"
proof -
  let ?x = "if ev_kind ev = WRITE then shannon_entropy (ev_payload ev) else 0"
  obtain w b where r: "a' = record_observation ev ?x w b" and b: "an_window b = an_window a" "an_config b = an_config a"
    "an_recent_reads a = [] \<longrightarrow> \<not> wf_read_before_write w" "ev_kind ev \<noteq> READ \<longrightarrow> an_recent_reads b = an_recent_reads a"
    and f: "f = snapshot_features a'"
    using assms by (rule observe_cases)
  show thesis
    by (rule that [of "observed (an_config a) ev ?x w"]) (use r b f in \<open>simp_all add: observed_def\<close>)
qed

lemma observe_returns:
  assumes "event_ok n ev" "ev_kind ev = WRITE \<longrightarrow> (\<exists>b. before = Some b \<and> length b = nat n)"
  shows "\<exists>a'. observe ev before a = (Inr (snapshot_features a'), a')"
proof (cases "ev_kind ev = WRITE")
  case True
  then obtain b where b: "before = Some b" "length b = length (ev_payload ev)"
    using assms by (auto simp: event_ok_def)
  then obtain c where "changed_byte_fraction b (ev_payload ev) = Inr c" by (cases "b = []") (simp_all add: changed_byte_fraction_def)
  then obtain w where "write_facts_of a ev before = Inr w" using b(1) by (simp add: write_facts_of_def Let_def)
  then show ?thesis using True by (simp add: observe_def Let_def)
qed (simp add: observe_def Let_def)

section \<open>The loop over the events\<close>

definition images_ok :: "int \<Rightarrow> (int \<Rightarrow> bytes option) \<Rightarrow> bool" where
  "images_ok n written \<longleftrightarrow> (\<forall>lba b. written lba = Some b \<longrightarrow> length b = nat n)"

lemma measure_event_returns:
  assumes "event_ok n ev" "0 \<le> n" "images_ok n (m_written m)"
  obtains a' written before where "observe ev before (m_analyzer m) = (Inr (snapshot_features a'), a')"
    "images_ok n written"
    "measure_event cfg n ev m =
       Inr (count_decision (evaluate cfg (snapshot_features a')) (m\<lparr>m_analyzer := a', m_written := written\<rparr>))"
proof -
  let ?old = "case m_written m (ev_lba ev) of None \<Rightarrow> replicate (nat n) 0 | Some b \<Rightarrow> b"
  let ?before = "if ev_kind ev = WRITE then Some ?old else None"
  have b: "before_image n ev m = Inr ?before" using assms(2) by (simp add: before_image_def)
  have "length ?old = nat n" using assms(3) by (auto simp: images_ok_def split: option.splits)
  then obtain a' where ob: "observe ev ?before (m_analyzer m) = (Inr (snapshot_features a'), a')"
    using observe_returns [OF assms(1), of ?before "m_analyzer m"] by auto
  let ?written = "if ev_kind ev = WRITE then (m_written m)(ev_lba ev \<mapsto> ev_payload ev) else m_written m"
  have "images_ok n ?written" using assms(1,3) by (auto simp: images_ok_def event_ok_def)
  then show thesis using that [OF ob] b ob by (simp add: measure_event_def)
qed

text \<open>
  The rule for the loop. \<open>I pre a\<close> relates the events so far and the analyzer; what \<open>I\<close> says of the
  decision at every point holds for the whole run.
\<close>

lemma measure_events_rule:
  assumes "ok_events n evs" "0 \<le> n" "images_ok n (m_written m)" "I pre (m_analyzer m)" "Q m"
    and step: "\<And>p ev post a before f a'. pre @ evs = p @ ev # post \<Longrightarrow> I p a \<Longrightarrow> observe ev before a = (Inr f, a') \<Longrightarrow> I (p @ [ev]) a'"
    and keep: "\<And>p a m written. I p a \<Longrightarrow> Q m \<Longrightarrow>
      Q (count_decision (evaluate cfg (snapshot_features a)) (m\<lparr>m_analyzer := a, m_written := written\<rparr>))"
  shows "\<exists>m'. measure_events cfg n evs m = Inr m' \<and> Q m' \<and> m_scored m' = m_scored m + length evs"
  using assms
proof (induction evs arbitrary: m pre)
  case (Cons ev evs)
  obtain a' written before where e: "observe ev before (m_analyzer m) = (Inr (snapshot_features a'), a')" "images_ok n written"
    "measure_event cfg n ev m = Inr (count_decision (evaluate cfg (snapshot_features a')) (m\<lparr>m_analyzer := a', m_written := written\<rparr>))"
    using Cons.prems measure_event_returns [of n ev m] by (metis list.set_intros(1) ok_events_def)
  let ?m = "count_decision (evaluate cfg (snapshot_features a')) (m\<lparr>m_analyzer := a', m_written := written\<rparr>)"
  have i: "I (pre @ [ev]) a'" using Cons.prems(4) e(1) by (intro Cons.prems(6) [of pre ev evs]) auto
  have sel: "m_analyzer ?m = a'" "m_written ?m = written" "m_scored ?m = m_scored m + 1" by (simp_all add: count_decision_def)
  have "\<exists>m'. measure_events cfg n evs ?m = Inr m' \<and> Q m' \<and> m_scored m' = m_scored ?m + length evs"
  proof (rule Cons.IH [of ?m "pre @ [ev]"])
    show "ok_events n evs" "0 \<le> n" "images_ok n (m_written ?m)" "I (pre @ [ev]) (m_analyzer ?m)" "Q ?m"
      using Cons.prems(1,2,5) e(2) i sel Cons.prems(7) [OF i] by (auto simp: ok_events_def)
  qed (use Cons.prems(6,7) in auto)
  then show ?case using e(3) sel(3) by (metis (no_types, lifting) bind_res_simps(2) measure_events.simps(2) add.assoc length_Cons plus_1_eq_Suc)
qed simp

section \<open>Calm workloads stay below the alert threshold\<close>

lemma deque_append_set: "ob \<in> set (deque_append k xs x) \<Longrightarrow> ob = x \<or> ob \<in> set xs"
  by (cases xs) (auto simp: deque_append_def split: if_splits)

lemma ratio_zero: "ratio 0 y = 0"
  by (simp add: ratio_def)

lemma tally_none: "\<forall>ob \<in> set obs. \<not> P ob \<Longrightarrow> tally P obs = 0"
  by (simp add: tally_def filter_empty_conv)

lemma default_score_parts:
  assumes "features_ok f" "deallocate_fraction f = 0"
  shows "weighted_score default_policy f \<le>
    10 / 100 * clamp ((mean_write_entropy f - 6) / 2) + 10 / 100 * high_entropy_write_fraction f + 44 / 100
    + 24 / 100 * read_before_write_fraction f + 6 / 100 * write_fraction f"
proof -
  have "clamp (deallocate_fraction f * 10) = 0" using assms(2) by (simp add: clamp_def)
  moreover have "fv_changed_byte_fraction f \<le> 1" "overwrite_fraction f \<le> 1" using assms(1) by (auto simp: features_ok_def)
  moreover have "clamp (namespace_coverage_fraction f * 20) \<le> 1" by (rule clamp_bounds)
  ultimately show ?thesis unfolding default_score by simp
qed

definition bounded_analyzer :: "int \<Rightarrow> analyzer \<Rightarrow> bool" where
  "bounded_analyzer nb a \<longleftrightarrow> analyzer_inv a \<and> an_config a = default_config nb"

lemma bounded_step:
  assumes "bounded_analyzer nb a" "observe ev before a = (Inr f, a')" "event_ok n ev"
  shows "bounded_analyzer nb a'"
proof -
  have "analyzer_inv a'"
    using observe_inv [of a ev before] assms by (simp add: bounded_analyzer_def event_ok_def)
  moreover have "an_config a' = an_config a" using assms(2) by (rule observe_window)
  ultimately show ?thesis using assms(1) by (simp add: bounded_analyzer_def)
qed

text \<open>Writes without a read before them.\<close>

definition unread :: "observation \<Rightarrow> bool" where
  "unread ob \<longleftrightarrow> ob_kind ob = WRITE \<and> \<not> ob_read_before_write ob \<and> \<not> ob_destructive ob"

definition only_writes :: "int \<Rightarrow> analyzer \<Rightarrow> bool" where
  "only_writes nb a \<longleftrightarrow> bounded_analyzer nb a \<and> an_recent_reads a = [] \<and> (\<forall>ob \<in> set (an_window a). unread ob)"

lemma only_writes_step:
  assumes "only_writes nb a" "observe ev before a = (Inr f, a')" "event_ok n ev" "ev_kind ev = WRITE"
  shows "only_writes nb a'"
proof -
  have b: "bounded_analyzer nb a'" using assms bounded_step unfolding only_writes_def by blast
  obtain ob where ob: "an_window a' = deque_append (window_operations (an_config a)) (an_window a) ob"
    "ob_kind ob = ev_kind ev" "ob_destructive ob = (ev_kind ev = ADMIN \<or> ev_kind ev = DEALLOCATE)"
    "an_recent_reads a = [] \<Longrightarrow> \<not> ob_read_before_write ob" "ev_kind ev \<noteq> READ \<Longrightarrow> an_recent_reads a' = an_recent_reads a"
    using assms(2) by (rule observe_window) blast
  have "unread ob" using ob assms(1,4) by (simp add: unread_def only_writes_def)
  then have "\<forall>x \<in> set (an_window a'). unread x"
    using deque_append_set assms(1) unfolding ob(1) only_writes_def by metis
  then show ?thesis using b ob(5) assms(1,4) by (simp add: only_writes_def)
qed

lemma only_writes_score:
  assumes "only_writes nb a"
  shows "\<not> destructive_command_seen (snapshot_features a) \<and> weighted_score default_policy (snapshot_features a) \<le> 70 / 100"
proof -
  let ?f = "snapshot_features a"
  have ok: "features_ok ?f" using assms by (auto simp: only_writes_def bounded_analyzer_def intro: snapshot_features_ok)
  have w: "\<forall>ob \<in> set (an_window a). unread ob" using assms by (simp add: only_writes_def)
  have "deallocate_fraction ?f = 0" "read_before_write_fraction ?f = 0" "\<not> destructive_command_seen ?f"
    using w by (auto simp: snapshot_features_def Let_def unread_def list_ex_iff tally_none ratio_zero)
  moreover have "write_fraction ?f \<le> 1" "high_entropy_write_fraction ?f \<le> 1" using ok by (auto simp: features_ok_def)
  moreover have "clamp ((mean_write_entropy ?f - 6) / 2) \<le> 1" by (rule clamp_bounds)
  ultimately show ?thesis using default_score_parts [OF ok] by simp
qed

text \<open>Pairs of a read and a quiet write: half of every full window are reads.\<close>

definition alternating :: "nat \<Rightarrow> io_kind list" where
  "alternating n = map (\<lambda>i. if even i then READ else WRITE) [0..<n]"

lemma alternating_Suc: "alternating (Suc n) = alternating n @ [if even n then READ else WRITE]"
  by (simp add: alternating_def)

lemma rounds_alternate: "rounds (quiet_pair n) k evs \<Longrightarrow> map ev_kind evs = alternating (2 * k)"
proof (induction k arbitrary: evs)
  case 0
  then show ?case by (auto simp: rounds_def alternating_def)
next
  case (Suc k)
  then obtain groups where g: "evs = concat groups" "length groups = Suc k" "\<forall>g \<in> set groups. quiet_pair n g"
    unfolding rounds_def by blast
  then obtain front x where x: "groups = front @ [x]" by (metis length_0_conv nat.distinct(1) rev_exhaust)
  have "rounds (quiet_pair n) k (concat front)" unfolding rounds_def using g x by (intro exI [of _ front]) simp
  then have "map ev_kind (concat front) = alternating (2 * k)" by (rule Suc.IH)
  moreover have "map ev_kind x = [READ, WRITE]" using g(3) x by (auto simp: quiet_pair_def)
  ultimately show ?case using g(1) x by (simp add: alternating_Suc)
qed

lemma count_odd: "length (filter odd [m..<m + 2 * j]) = j"
proof (induction j)
  case (Suc j)
  have "[m..<m + 2 * Suc j] = [m..<m + 2 * j] @ [m + 2 * j, Suc (m + 2 * j)]" by simp
  then show ?case using Suc by simp
qed simp

lemma alternating_writes:
  "2 * length (filter (\<lambda>k. k = WRITE) (drop (n - 128) (alternating n))) \<le> length (drop (n - 128) (alternating n))"
proof -
  have d: "drop (n - 128) (alternating n) = map (\<lambda>i. if even i then READ else WRITE) [n - 128..<n]"
    by (simp add: alternating_def drop_map)
  have f: "length (filter (\<lambda>k. k = WRITE) (map (\<lambda>i. if even i then READ else WRITE) l)) = length (filter odd l)" for l :: "nat list"
    by (induction l) simp_all
  show ?thesis
  proof (cases "n \<le> 128")
    case True
    have "2 * length (filter odd [0..<n]) \<le> n"
    proof (cases "even n")
      case True
      then show ?thesis using count_odd [of 0 "n div 2"] by simp
    next
      case False
      then obtain j where j: "n = Suc (2 * j)" by (metis oddE add.commute plus_1_eq_Suc)
      then show ?thesis using count_odd [of 0 j] by simp
    qed
    then show ?thesis unfolding d f using True by simp
  next
    case False
    then show ?thesis unfolding d f using count_odd [of "n - 128" 64] by simp
  qed
qed

definition quiet :: "observation \<Rightarrow> bool" where
  "quiet ob \<longleftrightarrow> (ob_kind ob = READ \<or> ob_kind ob = WRITE) \<and> ob_entropy ob \<le> 6 \<and> \<not> ob_high_entropy ob \<and> \<not> ob_destructive ob"

definition in_pairs :: "int \<Rightarrow> nat \<Rightarrow> analyzer \<Rightarrow> bool" where
  "in_pairs nb n a \<longleftrightarrow> bounded_analyzer nb a \<and> map ob_kind (an_window a) = drop (n - 128) (alternating n) \<and>
     (\<forall>ob \<in> set (an_window a). quiet ob)"

lemma in_pairs_step:
  assumes "in_pairs nb n a" "observe ev before a = (Inr f, a')" "event_ok k ev"
    and "ev_kind ev = (if even n then READ else WRITE)" "shannon_entropy (ev_payload ev) \<le> 6"
  shows "in_pairs nb (Suc n) a'"
proof -
  have b: "bounded_analyzer nb a'" using assms bounded_step unfolding in_pairs_def by blast
  obtain ob where ob: "an_window a' = deque_append (window_operations (an_config a)) (an_window a) ob"
    "ob_kind ob = ev_kind ev" "ob_destructive ob = (ev_kind ev = ADMIN \<or> ev_kind ev = DEALLOCATE)"
    "ob_entropy ob = (if ev_kind ev = WRITE then shannon_entropy (ev_payload ev) else 0)"
    "ob_high_entropy ob = (high_entropy_bits_per_byte (an_config a) \<le> ob_entropy ob)"
    using assms(2) by (rule observe_window) blast
  have c: "window_operations (an_config a) = 128" "high_entropy_bits_per_byte (an_config a) = 15 / 2"
    using assms(1) by (auto simp: in_pairs_def bounded_analyzer_def default_config_def)
  have "quiet ob" using ob assms(4,5) c(2) by (simp add: quiet_def)
  then have q: "\<forall>x \<in> set (an_window a'). quiet x"
    using deque_append_set assms(1) unfolding ob(1) in_pairs_def by metis
  have k: "map ob_kind (an_window a) = drop (n - 128) (alternating n)" using assms(1) by (simp add: in_pairs_def)
  have la: "length (alternating n) = n" by (simp add: alternating_def)
  have l: "length (an_window a) = n - (n - 128)" using arg_cong [OF k, of length] la by simp
  have "map ob_kind (an_window a') = drop (Suc n - 128) (alternating (Suc n))"
  proof (cases "n < 128")
    case True
    then show ?thesis using k l c(1) ob(1,2) assms(4) la by (simp add: deque_append_def alternating_Suc)
  next
    case False
    then have e: "Suc n - 128 = Suc (n - 128)" by simp
    show ?thesis
      unfolding e using False k l c(1) ob(1,2) assms(4) la by (simp add: deque_append_def alternating_Suc map_tl drop_Suc tl_drop)
  qed
  then show ?thesis using b q by (simp add: in_pairs_def)
qed

lemma in_pairs_score:
  assumes "in_pairs nb n a"
  shows "\<not> destructive_command_seen (snapshot_features a) \<and> weighted_score default_policy (snapshot_features a) \<le> 71 / 100"
proof -
  let ?f = "snapshot_features a" and ?w = "filter (\<lambda>ob. ob_kind ob = WRITE) (an_window a)"
  have ok: "features_ok ?f" and ai: "analyzer_inv a"
    using assms by (auto simp: in_pairs_def bounded_analyzer_def intro: snapshot_features_ok)
  have w: "\<forall>ob \<in> set (an_window a). quiet ob" using assms by (simp add: in_pairs_def)
  have "tally (\<lambda>ob. ob_kind ob = DEALLOCATE) (an_window a) = 0" "tally ob_high_entropy ?w = 0"
    by (rule tally_none, use w in \<open>auto simp: quiet_def\<close>)+
  then have "deallocate_fraction ?f = 0" "high_entropy_write_fraction ?f = 0" "\<not> destructive_command_seen ?f"
    using w by (auto simp: snapshot_features_def Let_def quiet_def list_ex_iff ratio_zero)
  moreover have "mean_write_entropy ?f \<le> 6"
  proof -
    have "0 \<le> ob_entropy ob \<and> ob_entropy ob \<le> 6" if "ob \<in> set ?w" for ob
      using that w ai by (auto simp: quiet_def analyzer_inv_def list_all_iff observation_ok_def)
    then have "ratio (sum_list (map ob_entropy ?w)) (real (length ?w)) \<le> 6" using ratio_mean [of ?w ob_entropy 6] by simp
    then show ?thesis by (simp add: snapshot_features_def Let_def)
  qed
  moreover have "write_fraction ?f \<le> 1 / 2"
  proof -
    have "length ?w = length (filter (\<lambda>k. k = WRITE) (map ob_kind (an_window a)))" by (simp add: filter_map o_def)
    then have "2 * length ?w \<le> length (an_window a)"
      using alternating_writes [of n] assms by (metis in_pairs_def length_map)
    then have "ratio (real (length ?w)) (real (length (an_window a))) \<le> 1 / 2"
      using ratio_bounds [of "real (length ?w)" "1 / 2" "real (length (an_window a))"] by simp
    then show ?thesis by (simp add: snapshot_features_def Let_def)
  qed
  moreover have "read_before_write_fraction ?f \<le> 1" using ok by (auto simp: features_ok_def)
  ultimately show ?thesis using default_score_parts [OF ok] by (simp add: clamp_def)
qed

section \<open>Whole runs\<close>

lemma random_Random_at [simp]: "random_Random source seed = at_pos (source seed) 0"
  by (simp add: random_Random_def)

lemma yields_user_content:
  assumes "draws_end src" "0 \<le> n"
  shows "yields src (user_content nb n) (\<lambda>images. images_ok n (map_of images))"
proof -
  have "yields src (bind_draw (text_payload ''user'' n) (\<lambda>t. return_draw (b, t))) (\<lambda>x. length (snd x) = nat n)" for b :: int
    by (rule yields_bind [OF yields_text_payload [OF assms(1) plain_tags(4) assms(2)]]) (simp add: yields_return)
  then have "yields src (user_content nb n) (\<lambda>images. length images = length (up_to nb) \<and> (\<forall>x \<in> set images. length (snd x) = nat n))"
    unfolding user_content_def by (intro yields_each)
  then show ?thesis by (rule yields_weaken) (auto simp: images_ok_def dest!: map_of_SomeD)
qed

lemma new_policy_same: "new_policy (Some c) = Inr cfg \<Longrightarrow> cfg = c"
  by (auto simp: new_policy_def Let_def split: if_splits)

lemma fresh_analyzer:
  assumes "0 < nb"
  obtains an where "new_analyzer (default_config nb) = Inr an" "bounded_analyzer nb an" "an_window an = []" "an_recent_reads an = []"
proof -
  obtain an where an: "new_analyzer (default_config nb) = Inr an"
    using assms by (simp add: new_analyzer_def default_config_def)
  moreover have "bounded_analyzer nb an"
    using new_analyzer_inv [OF an] an by (auto simp: bounded_analyzer_def new_analyzer_def split: if_splits)
  moreover have "an_window an = []" "an_recent_reads an = []" using an by (auto simp: new_analyzer_def split: if_splits)
  ultimately show thesis by (rule that)
qed

lemma run_workload_rule:
  assumes "draws_end (source (seed XOR 0x5EED))" "0 < nb" "0 \<le> n" "new_policy (Some cfg) = Inr cfg"
    and "wl_generate w nb n (at_pos (source seed) 0) = Some (evs, None, r)"
    and "\<And>an images. images_ok n (map_of images) \<Longrightarrow> bounded_analyzer nb an \<Longrightarrow> an_window an = [] \<Longrightarrow> an_recent_reads an = [] \<Longrightarrow>
      \<exists>m. measure_events cfg n evs (new_measuring an images) = Inr m \<and> Q m"
  shows "\<exists>m. run_workload source w cfg nb n seed = Some (Inr (result_of w m)) \<and> Q m"
proof -
  obtain an where an: "new_analyzer (default_config nb) = Inr an" "bounded_analyzer nb an" "an_window an = []" "an_recent_reads an = []"
    using assms(2) by (rule fresh_analyzer)
  obtain images q where im: "user_content nb n (at_pos (source (seed XOR 0x5EED)) 0) = Some (Inr images, at_pos (source (seed XOR 0x5EED)) q)"
    "images_ok n (map_of images)"
    using yields_user_content [OF assms(1,3)] by (rule yieldsE)
  obtain m where "measure_events cfg n evs (new_measuring an images) = Inr m" "Q m"
    using assms(6) [OF im(2) an(2-4)] by blast
  then show ?thesis using an(1) assms(4,5) im(1) by (intro exI [of _ m]) (simp add: run_workload_def)
qed

lemma new_measuring_sel [simp]:
  "m_analyzer (new_measuring an images) = an" "m_written (new_measuring an images) = map_of images"
  "m_peak (new_measuring an images) = 0" "m_total (new_measuring an images) = 0" "m_scored (new_measuring an images) = 0"
  "\<not> m_alerted (new_measuring an images)" "\<not> m_contained (new_measuring an images)"
  by (simp_all add: new_measuring_def)

definition below_alert :: "measuring \<Rightarrow> bool" where
  "below_alert m \<longleftrightarrow> 0 \<le> m_peak m \<and> m_peak m \<le> 71 / 100 \<and> \<not> m_alerted m \<and> \<not> m_contained m"

lemma below_alert_step:
  assumes "below_alert m" "\<not> destructive_command_seen f \<and> weighted_score default_policy f \<le> 71 / 100"
  shows "below_alert (count_decision (evaluate default_policy f) (m\<lparr>m_analyzer := a, m_written := written\<rparr>))"
  using assms by (auto simp: below_alert_def count_decision_def evaluate_def Let_def default_policy_def)

lemma calm_run:
  assumes "calm n evs" "0 \<le> n" "images_ok n (map_of images)" "bounded_analyzer nb an" "an_window an = []" "an_recent_reads an = []"
  shows "\<exists>m. measure_events default_policy n evs (new_measuring an images) = Inr m \<and> below_alert m"
proof -
  let ?m = "new_measuring an images"
  have ok: "ok_events n evs" using assms(1) by (rule calm_ok)
  have start: "below_alert ?m" by (simp add: below_alert_def)
  consider (w) "writes_only n evs" | (p) k where "rounds (quiet_pair n) k evs" using assms(1) unfolding calm_def by blast
  then show ?thesis
  proof cases
    case w
    have "\<exists>m'. measure_events default_policy n evs ?m = Inr m' \<and> below_alert m' \<and> m_scored m' = m_scored ?m + length evs"
    proof (rule measure_events_rule [where I = "\<lambda>_. only_writes nb" and pre = "[]"])
      show "only_writes nb (m_analyzer ?m)" using assms by (simp add: only_writes_def)
      show "only_writes nb a'" if "[] @ evs = p @ ev # post" "only_writes nb a" "observe ev before a = (Inr f, a')" for p ev post a before f a'
        using w that by (intro only_writes_step [OF that(2,3)]) (auto simp: writes_only_def)
    qed (use assms ok start only_writes_score below_alert_step in force)+
    then show ?thesis by blast
  next
    case p
    have kinds: "map ev_kind evs = alternating (2 * k)" using p by (rule rounds_alternate)
    then have len: "length evs = 2 * k" by (metis alternating_def diff_zero length_map length_upt)
    have "\<exists>m'. measure_events default_policy n evs ?m = Inr m' \<and> below_alert m' \<and> m_scored m' = m_scored ?m + length evs"
    proof (rule measure_events_rule [where I = "\<lambda>pre. in_pairs nb (length pre)" and pre = "[]"])
      show "in_pairs nb (length []) (m_analyzer ?m)" using assms by (simp add: in_pairs_def alternating_def)
      show "in_pairs nb (length (p @ [ev])) a'"
        if d: "[] @ evs = p @ ev # post" "in_pairs nb (length p) a" "observe ev before a = (Inr f, a')" for p ev post a before f a'
      proof -
        have "map ev_kind evs ! length p = ev_kind ev" "length p < length evs" using d(1) by (simp_all add: nth_append)
        then have "ev_kind ev = alternating (2 * k) ! length p" "length p < 2 * k"
          using kinds len by simp_all
        then have "ev_kind ev = (if even (length p) then READ else WRITE)" by (simp add: alternating_def)
        moreover have "shannon_entropy (ev_payload ev) \<le> 6 \<and> event_ok n ev"
        proof (rule rounds_all [OF p, of "\<lambda>ev. shannon_entropy (ev_payload ev) \<le> 6 \<and> event_ok n ev"])
          show "ev \<in> set evs" using d(1) by simp
        qed (auto simp: quiet_pair_def plain_event_ok shannon_entropy_def)
        ultimately show ?thesis using in_pairs_step [OF d(2,3), of n] by simp
      qed
    qed (use assms ok start in_pairs_score below_alert_step in force)+
    then show ?thesis by blast
  qed
qed

lemma default_policy_valid: "new_policy (Some default_policy) = Inr default_policy"
  using default_policy_new by (simp add: new_policy_def)

lemma benign_run:
  assumes "\<And>s. draws_end (source s)" "\<And>x. deflate x \<noteq> []" "1 \<le> nb" "16 \<le> n" "w \<in> set (benign_workloads deflate)"
  shows "\<exists>m. run_workload source w default_policy nb n seed = Some (Inr (result_of w m)) \<and> below_alert m"
proof -
  have nb: "0 < nb" "0 \<le> n" using assms(3,4) by simp_all
  obtain evs q where ev: "wl_generate w nb n (at_pos (source seed) 0) = Some (evs, None, at_pos (source seed) q)" "calm n evs"
    using benign_calm [OF assms(1,2,4) nb(1) assms(5)] by (rule emitsE)
  show ?thesis
    by (rule run_workload_rule [where source = source and seed = seed, OF assms(1) nb default_policy_valid ev(1)]) (rule calm_run [OF ev(2) nb(2)])
qed

text \<open>What holds of every run under a validated policy.\<close>

definition coherent :: "policy_config \<Rightarrow> measuring \<Rightarrow> bool" where
  "coherent cfg m \<longleftrightarrow> 0 \<le> m_total m \<and> m_total m \<le> m_peak m * real (m_scored m) \<and> 0 \<le> m_peak m \<and> m_peak m \<le> 1 \<and>
     (m_contained m \<longrightarrow> m_alerted m \<and> containment_enabled cfg)"

lemma coherent_step:
  assumes "coherent cfg m" "new_policy (Some cfg) = Inr cfg" "bounded_analyzer nb a"
  shows "coherent cfg (count_decision (evaluate cfg (snapshot_features a)) (m\<lparr>m_analyzer := a', m_written := written\<rparr>))"
proof -
  let ?d = "evaluate cfg (snapshot_features a)"
  have f: "features_ok (snapshot_features a)" using assms(3) by (simp add: bounded_analyzer_def snapshot_features_ok)
  note p = new_policy_facts [OF assms(2)] weighted_score_bounds [OF f new_policy_facts(1) [OF assms(2)]]
  have d: "0 \<le> score ?d" "score ?d \<le> 1" "contain ?d \<longrightarrow> alert ?d \<and> containment_enabled cfg"
    using p by (auto simp: evaluate_def Let_def)
  have "m_total m + score ?d \<le> max (m_peak m) (score ?d) * real (m_scored m + 1)"
  proof -
    have "m_peak m * real (m_scored m) \<le> max (m_peak m) (score ?d) * real (m_scored m)" by (intro mult_right_mono) auto
    moreover have "score ?d \<le> max (m_peak m) (score ?d)" by simp
    moreover have "m_total m \<le> m_peak m * real (m_scored m)" using assms(1) by (simp add: coherent_def)
    ultimately show ?thesis unfolding of_nat_add distrib_left by linarith
  qed
  then show ?thesis using assms(1) d by (auto simp: coherent_def count_decision_def max_def split: if_splits)
qed

lemma coherent_run:
  assumes "ok_events n evs" "0 \<le> n" "images_ok n (map_of images)" "bounded_analyzer nb an" "new_policy (Some cfg) = Inr cfg"
  shows "\<exists>m. measure_events cfg n evs (new_measuring an images) = Inr m \<and> coherent cfg m \<and> m_scored m = length evs"
proof -
  let ?m = "new_measuring an images"
  have "\<exists>m'. measure_events cfg n evs ?m = Inr m' \<and> coherent cfg m' \<and> m_scored m' = m_scored ?m + length evs"
  proof (rule measure_events_rule [where I = "\<lambda>_. bounded_analyzer nb" and pre = "[]"])
    show "coherent cfg ?m" by (simp add: coherent_def)
    show "bounded_analyzer nb a'"
      if "[] @ evs = p @ ev # post" "bounded_analyzer nb a" "observe ev before a = (Inr f, a')" for p ev post a before f a'
      using bounded_step [OF that(2,3)] assms(1) that(1) by (auto simp: ok_events_def)
  qed (use assms coherent_step in auto)
  then show ?thesis by simp
qed

text \<open>A discarded block is a destructive command, which decides alone.\<close>

lemma deallocate_contains:
  assumes "observe ev before a = (Inr f, a')" "ev_kind ev = DEALLOCATE" "containment_enabled cfg" "bounded_analyzer nb a"
  shows "contain (evaluate cfg (snapshot_features a')) \<and> score (evaluate cfg (snapshot_features a')) = 1"
proof -
  obtain ob where ob: "an_window a' = deque_append (window_operations (an_config a)) (an_window a) ob"
    "ob_destructive ob = (ev_kind ev = ADMIN \<or> ev_kind ev = DEALLOCATE)"
    using assms(1) by (rule observe_window) blast
  have "ob \<in> set (an_window a')" unfolding ob(1) by (simp add: deque_append_def)
  then show ?thesis using ob(2) assms(2,3) by (auto simp: evaluate_def snapshot_features_def Let_def list_ex_iff)
qed

definition caught :: "measuring \<Rightarrow> bool" where
  "caught m \<longleftrightarrow> m_contained m \<and> m_peak m = 1"

lemma wipe_run:
  assumes "ok_events n evs" "0 \<le> n" "images_ok n (m_written m)" "bounded_analyzer nb (m_analyzer m)" "new_policy (Some cfg) = Inr cfg"
    and "containment_enabled cfg" "coherent cfg m" "caught m \<or> (\<exists>ev \<in> set evs. ev_kind ev = DEALLOCATE)"
    and "measure_events cfg n evs m = Inr m'"
  shows "caught m'"
  using assms
proof (induction evs arbitrary: m)
  case (Cons ev evs)
  have ok: "event_ok n ev" using Cons.prems(1) by (simp add: ok_events_def)
  obtain a' written before where e: "observe ev before (m_analyzer m) = (Inr (snapshot_features a'), a')" "images_ok n written"
    "measure_event cfg n ev m = Inr (count_decision (evaluate cfg (snapshot_features a')) (m\<lparr>m_analyzer := a', m_written := written\<rparr>))"
    using measure_event_returns [OF ok Cons.prems(2,3)] by blast
  let ?m = "count_decision (evaluate cfg (snapshot_features a')) (m\<lparr>m_analyzer := a', m_written := written\<rparr>)"
  have b: "bounded_analyzer nb a'" using Cons.prems(4) e(1) ok by (rule bounded_step)
  have co: "coherent cfg ?m" using Cons.prems(7,5) b by (rule coherent_step)
  have up: "caught ?m" if "caught m"
    using that co by (auto simp: caught_def count_decision_def coherent_def split: if_splits)
  have new: "caught ?m" if "ev_kind ev = DEALLOCATE"
    using deallocate_contains [OF e(1) that Cons.prems(6,4)] Cons.prems(7) co
    by (auto simp: caught_def count_decision_def coherent_def split: if_splits)
  show ?case
  proof (rule Cons.IH [of ?m])
    show "caught ?m \<or> (\<exists>ev \<in> set evs. ev_kind ev = DEALLOCATE)" using up new Cons.prems(8) by auto
    show "measure_events cfg n evs ?m = Inr m'" using Cons.prems(9) e(3) by simp
  qed (use Cons.prems e(2) b co in \<open>auto simp: ok_events_def count_decision_def\<close>)
qed (auto simp: caught_def)

section \<open>Properties of a run\<close>

text \<open>A stream and a compressor to state examples on.\<close>

lemma zero_bits: "fst (getrandbits k (at_pos (\<lambda>_. 0) p)) = 0"
proof (induction k arbitrary: p rule: less_induct)
  case (less k)
  have "fst (getrandbits (k - 32) (at_pos (\<lambda>_. 0) (Suc p))) = 0" if "\<not> k < 32" using that by (intro less) simp
  then show ?case by (subst getrandbits.simps) (auto simp: Let_def split: prod.splits)
qed

lemma zero_draws_end: "draws_end (\<lambda>_. 0)"
proof -
  have "reject_loop n k (at_pos (\<lambda>_. 0) p) \<noteq> None" if "0 < n" for n k p
    using that zero_bits [of k p] by (subst reject_loop.simps) (auto split: prod.splits)
  then show ?thesis by (simp add: draws_end_def)
qed

lemma stored_block: "(0x78 # x :: bytes) \<noteq> []"
  by simp

lemma result_of_sel [simp]:
  "peak_score (result_of w m) = m_peak m" "alerted (result_of w m) = m_alerted m" "contained (result_of w m) = m_contained m"
  "wr_name (result_of w m) = wl_name w" "wr_kind (result_of w m) = wl_kind w" "wr_operations (result_of w m) = m_scored m"
  by (simp_all add: result_of_def)

lemma benign_kind: "w \<in> set (benign_workloads deflate) \<Longrightarrow> wl_kind w = ''benign''"
  by (auto simp: benign_workloads_def make_workload_def)





section \<open>Reports\<close>

lemma foldl_max: "foldl max x xs \<in> insert x (set xs) \<and> (\<forall>y \<in> insert x (set xs). y \<le> foldl max x xs)" for x :: real
proof (induction xs arbitrary: x)
  case (Cons a xs)
  show ?case using Cons [of "max x a"] by (auto simp: max_def split: if_splits)
qed simp

lemma foldl_min: "foldl min x xs \<in> insert x (set xs) \<and> (\<forall>y \<in> insert x (set xs). foldl min x xs \<le> y)" for x :: real
proof (induction xs arbitrary: x)
  case (Cons a xs)
  show ?case using Cons [of "min x a"] by (auto simp: min_def split: if_splits)
qed simp

lemma list_max_spec: "xs \<noteq> [] \<Longrightarrow> \<exists>m. list_max xs = Inr m \<and> m \<in> set xs \<and> (\<forall>x \<in> set xs. x \<le> m)"
  using foldl_max by (cases xs) auto

lemma list_min_spec: "xs \<noteq> [] \<Longrightarrow> \<exists>m. list_min xs = Inr m \<and> m \<in> set xs \<and> (\<forall>x \<in> set xs. m \<le> x)"
  using foldl_min by (cases xs) auto

text \<open>
  The separation figure of a report means what its description says: it is always defined, and when
  both kinds of workloads are present it is positive exactly if some threshold lies above every benign
  peak and is reached by every attack peak, so a figure of zero or less says that no single threshold
  can separate the two sets.
\<close>

theorem separation_is_threshold:
  assumes "benign_results rp \<noteq> []" "ransomware_results rp \<noteq> []"
  shows "\<exists>s. separation rp = Inr s \<and>
    (0 < s \<longleftrightarrow> (\<exists>t. (\<forall>r \<in> set (benign_results rp). peak_score r < t) \<and> (\<forall>r \<in> set (ransomware_results rp). t \<le> peak_score r)))"
proof -
  obtain lo where lo: "list_min (map peak_score (ransomware_results rp)) = Inr lo" "lo \<in> peak_score ` set (ransomware_results rp)"
    "\<And>r. r \<in> set (ransomware_results rp) \<Longrightarrow> lo \<le> peak_score r"
    using list_min_spec [of "map peak_score (ransomware_results rp)"] assms(2) by auto
  obtain hi where hi: "list_max (map peak_score (benign_results rp)) = Inr hi" "hi \<in> peak_score ` set (benign_results rp)"
    "\<And>r. r \<in> set (benign_results rp) \<Longrightarrow> peak_score r \<le> hi"
    using list_max_spec [of "map peak_score (benign_results rp)"] assms(1) by auto
  have "separation rp = Inr (lo - hi)" using assms lo(1) hi(1) by (simp add: separation_def)
  moreover have "0 < lo - hi \<longleftrightarrow>
      (\<exists>t. (\<forall>r \<in> set (benign_results rp). peak_score r < t) \<and> (\<forall>r \<in> set (ransomware_results rp). t \<le> peak_score r))"
    using lo(2,3) hi(2,3) by (fastforce intro: exI [of _ lo])
  ultimately show ?thesis by blast
qed

definition sample_report :: benchmark_report where
  "sample_report = \<lparr>results =
     [\<lparr>wr_name = ''a'', wr_kind = ''benign'', wr_description = [], peak_score = 7 / 10, mean_score = 1 / 2, alerted = False,
       contained = False, wr_operations = 120, peak_features = None\<rparr>,
      \<lparr>wr_name = ''b'', wr_kind = ''ransomware'', wr_description = [], peak_score = 9 / 10, mean_score = 1 / 2, alerted = True,
       contained = True, wr_operations = 240, peak_features = None\<rparr>], rp_config = default_policy\<rparr>"

theorem separation_is_threshold_witness:
  "\<exists>s. separation sample_report = Inr s \<and> 0 < s"
proof -
  have "benign_results sample_report \<noteq> []" "ransomware_results sample_report \<noteq> []"
    by (simp_all add: sample_report_def benign_results_def ransomware_results_def)
  from separation_is_threshold [OF this] obtain s where s: "separation sample_report = Inr s"
    "0 < s \<longleftrightarrow> (\<exists>t. (\<forall>r \<in> set (benign_results sample_report). peak_score r < t) \<and> (\<forall>r \<in> set (ransomware_results sample_report). t \<le> peak_score r))"
    by blast
  have "0 < s" unfolding s(2) by (intro exI [of _ "8 / 10"]) (simp add: sample_report_def benign_results_def ransomware_results_def)
  then show ?thesis using s(1) by blast
qed


section \<open>Several seeds\<close>

definition expected :: "workload \<Rightarrow> workload_result \<Rightarrow> bool" where
  "expected w r \<longleftrightarrow> wr_name r = wl_name w \<and> wr_kind r = wl_kind w \<and>
     (wl_kind w = ''benign'' \<longrightarrow> peak_score r \<le> 71 / 100 \<and> \<not> contained r) \<and>
     (wl_name w = ''encrypt_and_wipe'' \<longrightarrow> contained r \<and> peak_score r = 1)"

lemma attack_facts:
  assumes "w \<in> set ransomware_workloads"
  shows "wl_kind w = ''ransomware''" "wl_name w \<notin> wl_name ` set (benign_workloads deflate)"
    "wl_name w = ''encrypt_and_wipe'' \<Longrightarrow> wl_generate w = encrypt_and_wipe"
  using assms by (auto simp: ransomware_workloads_def benign_workloads_def make_workload_def)

lemma workload_expected:
  assumes "\<And>s. draws_end (source s)" "\<And>x. deflate x \<noteq> []" "1 \<le> nb" "16 \<le> n" "w \<in> set (all_workloads deflate)"
  shows "\<exists>r. run_workload source w default_policy nb n seed = Some (Inr r) \<and> expected w r"
proof (cases "w \<in> set (benign_workloads deflate)")
  case True
  then obtain m where "run_workload source w default_policy nb n seed = Some (Inr (result_of w m))" "below_alert m"
    using benign_run [where source = source and deflate = deflate and seed = seed, OF assms(1-4)] by blast
  moreover have "wl_name w \<noteq> ''encrypt_and_wipe''" using True by (auto simp: benign_workloads_def make_workload_def)
  ultimately show ?thesis by (intro exI [of _ "result_of w m"]) (simp add: expected_def below_alert_def)
next
  case False
  then have at: "w \<in> set ransomware_workloads" using assms(5) by (simp add: all_workloads_def)
  have nb: "0 < nb" "0 \<le> n" using assms(3,4) by simp_all
  let ?E = "\<lambda>evs. ok_events n evs \<and> (wl_name w = ''encrypt_and_wipe'' \<longrightarrow> (\<exists>ev \<in> set evs. ev_kind ev = DEALLOCATE))"
  have "emits (source seed) (wl_generate w nb n) ?E"
  proof (cases "wl_name w = ''encrypt_and_wipe''")
    case True
    then show ?thesis using wipe_deallocates [OF nb(2,1)] attack_facts(3) [OF at] by simp
  next
    case False
    then show ?thesis using attacks_ok [OF assms(1) nb(2,1) at] by simp
  qed
  then obtain evs q where ev: "wl_generate w nb n (at_pos (source seed) 0) = Some (evs, None, at_pos (source seed) q)" "?E evs"
    by (rule emitsE)
  have "\<exists>m. run_workload source w default_policy nb n seed = Some (Inr (result_of w m)) \<and> (wl_name w = ''encrypt_and_wipe'' \<longrightarrow> caught m)"
  proof (rule run_workload_rule [where source = source and seed = seed, OF assms(1) nb default_policy_valid ev(1)])
    fix an and images :: "(int \<times> bytes) list"
    assume a: "images_ok n (map_of images)" "bounded_analyzer nb an"
    obtain m where m: "measure_events default_policy n evs (new_measuring an images) = Inr m"
      using coherent_run [OF _ nb(2) a default_policy_valid] ev(2) by blast
    have "caught m" if "wl_name w = ''encrypt_and_wipe''"
      using ev(2) that a
      by (intro wipe_run [OF _ nb(2) _ _ default_policy_valid _ _ _ m, of nb]) (simp_all add: default_policy_def coherent_def)
    then show "\<exists>m. measure_events default_policy n evs (new_measuring an images) = Inr m \<and> (wl_name w = ''encrypt_and_wipe'' \<longrightarrow> caught m)"
      using m by blast
  qed
  then obtain m where "run_workload source w default_policy nb n seed = Some (Inr (result_of w m))" "wl_name w = ''encrypt_and_wipe'' \<longrightarrow> caught m"
    by blast
  then show ?thesis
    using attack_facts(1) [OF at] by (intro exI [of _ "result_of w m"]) (simp add: expected_def caught_def)
qed

lemma run_each_returns:
  assumes "\<And>w. w \<in> set ws \<Longrightarrow> \<exists>r. run_workload source w cfg nb n seed = Some (Inr r) \<and> R w r"
  shows "\<exists>rs. run_each source cfg nb n seed ws = Some (Inr rs) \<and> list_all2 R ws rs"
  using assms
proof (induction ws)
  case (Cons w ws)
  obtain r where r: "run_workload source w cfg nb n seed = Some (Inr r)" "R w r" using Cons.prems by auto
  obtain rs where "run_each source cfg nb n seed ws = Some (Inr rs)" "list_all2 R ws rs" using Cons by auto
  then show ?case using r by (intro exI [of _ "r # rs"]) simp
qed simp

definition good_report :: "(bytes \<Rightarrow> bytes) \<Rightarrow> benchmark_report \<Rightarrow> bool" where
  "good_report deflate rp \<longleftrightarrow> rp_config rp = default_policy \<and> list_all2 expected (all_workloads deflate) (results rp)"

lemma run_seeds_returns:
  assumes "\<And>s. draws_end (source s)" "\<And>x. deflate x \<noteq> []" "1 \<le> nb" "16 \<le> n"
  shows "\<exists>rps. run_seeds source None (all_workloads deflate) nb n seeds = Some (Inr rps) \<and> length rps = length seeds \<and>
    (\<forall>rp \<in> set rps. good_report deflate rp)"
proof (induction seeds)
  case (Cons s seeds)
  obtain rs where rs: "run_each source default_policy nb n s (all_workloads deflate) = Some (Inr rs)" "list_all2 expected (all_workloads deflate) rs"
    using run_each_returns [of "all_workloads deflate" source default_policy nb n s expected]
      workload_expected [where source = source and deflate = deflate and seed = s, OF assms] by blast
  have "run_benchmark source None (all_workloads deflate) nb n s = Some (Inr \<lparr>results = rs, rp_config = default_policy\<rparr>)"
    using rs(1) by (simp add: run_benchmark_def)
  moreover have "good_report deflate \<lparr>results = rs, rp_config = default_policy\<rparr>" using rs(2) by (simp add: good_report_def)
  moreover obtain rps where "run_seeds source None (all_workloads deflate) nb n seeds = Some (Inr rps)" "length rps = length seeds"
    "\<forall>rp \<in> set rps. good_report deflate rp" using Cons by blast
  ultimately show ?case by (intro exI [of _ "\<lparr>results = rs, rp_config = default_policy\<rparr> # rps"]) simp
qed simp

lemma good_result:
  assumes "good_report deflate rp" "r \<in> set (results rp)"
  obtains w where "w \<in> set (all_workloads deflate)" "expected w r"
  using assms unfolding good_report_def by (metis in_set_conv_nth list_all2_conv_all_nth)

lemma good_workload:
  assumes "good_report deflate rp" "w \<in> set (all_workloads deflate)"
  obtains r where "r \<in> set (results rp)" "expected w r"
  using assms unfolding good_report_def by (metis in_set_conv_nth list_all2_conv_all_nth)

lemma good_benign:
  assumes "good_report deflate rp" "r \<in> set (results rp)" "wr_name r \<in> wl_name ` set (benign_workloads deflate)"
  shows "wr_kind r = ''benign''" "peak_score r \<le> 71 / 100" "\<not> contained r"
proof -
  obtain w where w: "w \<in> set (all_workloads deflate)" "expected w r" using assms(1,2) by (rule good_result)
  then have "w \<in> set (benign_workloads deflate)"
    using attack_facts(2) assms(3) by (auto simp: all_workloads_def expected_def)
  then have "wl_kind w = ''benign''" by (rule benign_kind)
  then show "wr_kind r = ''benign''" "peak_score r \<le> 71 / 100" "\<not> contained r" using w(2) by (simp_all add: expected_def)
qed

lemma good_benign_names:
  assumes "good_report deflate rp"
  shows "set (map wr_name (benign_results rp)) = wl_name ` set (benign_workloads deflate)"
proof (rule set_eqI, rule iffI)
  fix name assume "name \<in> set (map wr_name (benign_results rp))"
  then obtain r where r: "r \<in> set (results rp)" "wr_kind r = ''benign''" "name = wr_name r" by (auto simp: benign_results_def)
  obtain w where "w \<in> set (all_workloads deflate)" "expected w r" using assms r(1) by (rule good_result)
  then show "name \<in> wl_name ` set (benign_workloads deflate)"
    using r attack_facts(1) by (force simp: all_workloads_def expected_def)
next
  fix name assume "name \<in> wl_name ` set (benign_workloads deflate)"
  then obtain w where w: "w \<in> set (benign_workloads deflate)" "name = wl_name w" by blast
  then obtain r where r: "r \<in> set (results rp)" "expected w r"
    using assms good_workload [of deflate rp w] by (auto simp: all_workloads_def)
  then show "name \<in> set (map wr_name (benign_results rp))"
    using w benign_kind [OF w(1)] by (auto simp: benign_results_def expected_def intro!: rev_image_eqI [of r])
qed

lemma good_both_kinds:
  assumes "good_report deflate rp"
  shows "\<exists>b \<in> set (results rp). wr_name b \<in> wl_name ` set (benign_workloads deflate)"
    "\<exists>a \<in> set (results rp). wr_name a \<notin> wl_name ` set (benign_workloads deflate)"
proof -
  obtain w where "w \<in> set (benign_workloads deflate)" by (metis benign_workloads_def list.set_intros(1))
  moreover then obtain b where "b \<in> set (results rp)" "wr_name b = wl_name w"
    using good_workload [OF assms, of w] by (auto simp: all_workloads_def expected_def)
  ultimately show "\<exists>b \<in> set (results rp). wr_name b \<in> wl_name ` set (benign_workloads deflate)" by force
  obtain v where v: "v \<in> set ransomware_workloads" by (metis ransomware_workloads_def list.set_intros(1))
  then obtain a where "a \<in> set (results rp)" "wr_name a = wl_name v"
    using good_workload [OF assms, of v] by (auto simp: all_workloads_def expected_def)
  then show "\<exists>a \<in> set (results rp). wr_name a \<notin> wl_name ` set (benign_workloads deflate)"
    using attack_facts(2) [OF v] by metis
qed

lemma good_rates:
  assumes "good_report deflate rp"
  shows "false_positive_rate rp = 0" "1 / 5 \<le> true_positive_rate rp"
proof -
  have n: "wr_name r \<in> wl_name ` set (benign_workloads deflate)" if "r \<in> set (benign_results rp)" for r
    using that good_benign_names [OF assms] by auto
  have "false_positives rp = []"
    using n good_benign(3) [OF assms] by (auto simp: false_positives_def filter_empty_conv benign_results_def)
  then show "false_positive_rate rp = 0" by (simp add: false_positive_rate_def)
  have l: "length (ransomware_results rp) = 5" "\<exists>r \<in> set (ransomware_results rp). contained r"
    using assms unfolding good_report_def ransomware_results_def all_workloads_def benign_workloads_def ransomware_workloads_def make_workload_def expected_def
    by (auto simp: list_all2_Cons1)
  have "length (false_negatives rp) < length (ransomware_results rp)"
    unfolding false_negatives_def using l(2) by (auto intro: length_filter_less)
  then show "1 / 5 \<le> true_positive_rate rp"
    using l(1) by (auto simp: true_positive_rate_def)
qed


text \<open>The scores by workload: every list is non-empty and holds peaks of results of that name.\<close>

definition groups_peaks :: "workload_result list \<Rightarrow> real list dict \<Rightarrow> bool" where
  "groups_peaks rs d \<longleftrightarrow> fst ` set d = wr_name ` set rs \<and>
     (\<forall>(name, l) \<in> set d. l \<noteq> [] \<and> (\<forall>x \<in> set l. \<exists>r \<in> set rs. wr_name r = name \<and> peak_score r = x))"

lemma update_entries: "set (AList.update k v d) \<subseteq> insert (k, v) (set d)"
  by (induction d) auto

lemma add_peak_entries:
  "(name, l) \<in> set (add_peak d r) \<Longrightarrow>
   (name, l) \<in> set d \<or> name = wr_name r \<and> l = (case map_of d (wr_name r) of None \<Rightarrow> [] | Some l \<Rightarrow> l) @ [peak_score r]"
  using update_entries unfolding add_peak_def by fast

lemma foldl_add_peak: "groups_peaks rs (foldl add_peak [] rs)"
proof (induction rs rule: rev_induct)
  case (snoc r rs)
  let ?d = "foldl add_peak [] rs"
  let ?o = "case map_of ?d (wr_name r) of None \<Rightarrow> [] | Some l \<Rightarrow> l"
  have ih: "fst ` set ?d = wr_name ` set rs"
    "\<And>name l. (name, l) \<in> set ?d \<Longrightarrow> l \<noteq> [] \<and> (\<forall>x \<in> set l. \<exists>r \<in> set rs. wr_name r = name \<and> peak_score r = x)"
    using snoc by (auto simp: groups_peaks_def)
  have old: "\<exists>r' \<in> set rs. wr_name r' = wr_name r \<and> peak_score r' = x"
    if "x \<in> set (case map_of ?d (wr_name r) of None \<Rightarrow> [] | Some l \<Rightarrow> l)" for x
  proof (cases "map_of ?d (wr_name r)")
    case (Some l)
    then show ?thesis using that ih(2) [OF map_of_SomeD [OF Some]] by simp
  qed (use that in simp)
  have "fst ` set (add_peak ?d r) = wr_name ` set (rs @ [r])"
    using ih(1) by (simp add: add_peak_def AList.dom_update)
  moreover have "l \<noteq> [] \<and> (\<forall>x \<in> set l. \<exists>r' \<in> set (rs @ [r]). wr_name r' = name \<and> peak_score r' = x)"
    if "(name, l) \<in> set (add_peak ?d r)" for name l
  proof -
    have "(name, l) \<in> set ?d \<or> name = wr_name r \<and> l = (case map_of ?d (wr_name r) of None \<Rightarrow> [] | Some l \<Rightarrow> l) @ [peak_score r]"
      using that by (rule add_peak_entries)
    then show ?thesis
    proof
      assume "(name, l) \<in> set ?d"
      then show ?thesis using ih(2) by force
    next
      assume n: "name = wr_name r \<and> l = ?o @ [peak_score r]"
      then have "set l = insert (peak_score r) (set ?o)" "l \<noteq> []" by (simp_all only: set_append list.set) simp_all
      then show ?thesis using old n by (metis UnCI insert_iff list.set_intros(1) set_append)
    qed
  qed
  ultimately show ?case by (auto simp: groups_peaks_def)
qed (simp add: groups_peaks_def)

lemma each_res_spec:
  assumes "\<And>x. x \<in> set xs \<Longrightarrow> \<exists>y. f x = Inr y \<and> P x y"
  shows "\<exists>ys. each_res f xs = Inr ys \<and> list_all2 P xs ys"
  using assms
proof (induction xs)
  case (Cons x xs)
  obtain y where "f x = Inr y" "P x y" using Cons.prems by auto
  moreover obtain ys where "each_res f xs = Inr ys" "list_all2 P xs ys" using Cons by auto
  ultimately show ?case by (intro exI [of _ "y # ys"]) simp
qed simp

text \<open>The extreme of the extremes of non-empty groups is a value of a group.\<close>

lemma extreme_of_extremes:
  assumes "ls \<noteq> []" "\<And>l. l \<in> set ls \<Longrightarrow> l \<noteq> []"
    and "\<And>xs. xs \<noteq> [] \<Longrightarrow> \<exists>m. ext xs = Inr m \<and> m \<in> set xs"
  shows "\<exists>m l. bind_res (each_res ext ls) ext = Inr m \<and> l \<in> set ls \<and> m \<in> set l"
proof -
  obtain ys where ys: "each_res ext ls = Inr ys" "list_all2 (\<lambda>l y. y \<in> set l) ls ys"
    using each_res_spec [of ls ext "\<lambda>l y. y \<in> set l"] assms(2,3) by blast
  then have "ys \<noteq> []" using assms(1) by auto
  then obtain m where "ext ys = Inr m" "m \<in> set ys" using assms(3) by blast
  moreover obtain l where "l \<in> set ls" "m \<in> set l"
    using ys(2) \<open>m \<in> set ys\<close> by (metis in_set_conv_nth list_all2_conv_all_nth)
  ultimately show ?thesis using ys(1) by auto
qed

lemma group_extreme:
  assumes "groups_peaks rs d" "r \<in> set rs" "P (wr_name r)"
    and "\<And>xs. xs \<noteq> [] \<Longrightarrow> \<exists>m. ext xs = Inr m \<and> m \<in> set xs"
  shows "\<exists>r'. bind_res (each_res ext (map snd (filter (\<lambda>(name, _). P name) d))) ext = Inr (peak_score r') \<and> r' \<in> set rs \<and> P (wr_name r')"
proof -
  let ?ls = "map snd (filter (\<lambda>(name, _). P name) d)"
  have "wr_name r \<in> fst ` set d" using assms(1,2) by (simp add: groups_peaks_def)
  then have "?ls \<noteq> []" using assms(3) by (auto simp: filter_empty_conv)
  moreover have "l \<noteq> []" if "l \<in> set ?ls" for l using that assms(1) by (auto simp: groups_peaks_def)
  ultimately obtain m l where m: "bind_res (each_res ext ?ls) ext = Inr m" "l \<in> set ?ls" "m \<in> set l"
    using extreme_of_extremes [of ?ls ext] assms(4) by blast
  then obtain name where "(name, l) \<in> set d" "P name" by auto
  then obtain r' where "r' \<in> set rs" "wr_name r' = name" "peak_score r' = m" using assms(1) m(3) by (force simp: groups_peaks_def)
  then show ?thesis using m(1) \<open>P name\<close> by blast
qed

lemma summarise_good:
  assumes "rps \<noteq> []" and good: "\<And>rp. rp \<in> set rps \<Longrightarrow> good_report deflate rp"
  shows "\<exists>r. summarise seeds rps = Inr r \<and> ms_seeds r = length seeds \<and> max_false_positive_rate r = 0 \<and>
    loudest_benign r \<le> 71 / 100 \<and> 11 / 100 \<le> containment_margin r \<and> 1 / 5 \<le> min_true_positive_rate r"
proof -
  obtain rp rest where r0: "rps = rp # rest" using assms(1) by (cases rps) auto
  let ?rs = "concat (map results rps)" and ?B = "wl_name ` set (benign_workloads deflate)"
  have g: "groups_peaks ?rs (peaks_by_workload rps)" unfolding peaks_by_workload_def by (rule foldl_add_peak)
  have names: "set (map wr_name (benign_results rp)) = ?B" using good [of rp] r0 good_benign_names by simp
  obtain b a where b: "b \<in> set ?rs" "wr_name b \<in> ?B" and a: "a \<in> set ?rs" "wr_name a \<notin> ?B"
    using good_both_kinds [of deflate rp] good r0 by auto
  have ex: "\<exists>m. list_max xs = Inr m \<and> m \<in> set xs" "\<exists>m. list_min xs = Inr m \<and> m \<in> set xs" if "xs \<noteq> []" for xs
    using list_max_spec [OF that] list_min_spec [OF that] by blast+
  have "\<exists>r'. bind_res (each_res list_max (map snd (filter (\<lambda>(name, _). name \<in> ?B) (peaks_by_workload rps)))) list_max = Inr (peak_score r') \<and>
      r' \<in> set ?rs \<and> wr_name r' \<in> ?B"
    by (rule group_extreme [where P = "\<lambda>n. n \<in> ?B", OF g b]) (rule ex(1))
  then obtain lb where lb: "bind_res (each_res list_max (map snd (filter (\<lambda>(name, _). name \<in> ?B) (peaks_by_workload rps)))) list_max = Inr (peak_score lb)"
    "lb \<in> set ?rs" "wr_name lb \<in> ?B" by (elim exE conjE) (rule that)
  have "\<exists>r'. bind_res (each_res list_min (map snd (filter (\<lambda>(name, _). name \<notin> ?B) (peaks_by_workload rps)))) list_min = Inr (peak_score r') \<and>
      r' \<in> set ?rs \<and> wr_name r' \<notin> ?B"
    by (rule group_extreme [where P = "\<lambda>n. n \<notin> ?B", OF g a]) (rule ex(2))
  then obtain qa :: workload_result where qa: "bind_res (each_res list_min (map snd (filter (\<lambda>(name, _). name \<notin> ?B) (peaks_by_workload rps)))) list_min = Inr (peak_score qa)"
    by (elim exE conjE) (rule that)
  have low: "peak_score lb \<le> 71 / 100" using lb(2,3) good good_benign(2) by fastforce
  obtain f where f: "list_max (map false_positive_rate rps) = Inr f" "f = 0"
    using list_max_spec [of "map false_positive_rate rps"] good_rates(1) [OF good] r0
    by (metis (no_types, lifting) imageE list.map_disc_iff list.set_map list.simps(3))
  obtain t where t: "list_min (map true_positive_rate rps) = Inr t" "1 / 5 \<le> t"
    using list_min_spec [of "map true_positive_rate rps"] good good_rates(2) r0 by fastforce
  have c: "containment_threshold (rp_config rp) = 82 / 100"
    using good [of rp] r0 by (simp add: good_report_def default_policy_def)
  show ?thesis
    using lb(1) qa f t low c unfolding summarise_def r0 names [symmetric] by (simp add: r0 Let_def)
qed


text \<open>
  The headline of the measurement holds for every choice of seeds, not only for those that were
  run. With the shipped policy the report over any non-empty list of seeds exists; its false-positive
  rate is 0, its loudest benign workload stays at or below 0.71, which leaves at least 0.11 to the
  containment threshold, and at least one attack in five is caught in every run (the one that discards blocks).
\<close>

theorem multi_seed_no_false_positive:
  assumes "\<And>s. draws_end (source s)" "\<And>x. deflate x \<noteq> []" "1 \<le> nblocks" "16 \<le> bsize" "seeds \<noteq> []"
  shows "\<exists>r. run_multi_seed source deflate None seeds nblocks bsize = Some (Inr r) \<and> ms_seeds r = length seeds \<and>
    max_false_positive_rate r = 0 \<and> loudest_benign r \<le> 71 / 100 \<and> 11 / 100 \<le> containment_margin r \<and>
    1 / 5 \<le> min_true_positive_rate r"
proof -
  obtain rps where rps: "run_seeds source None (all_workloads deflate) nblocks bsize seeds = Some (Inr rps)" "length rps = length seeds"
    and good: "\<And>rp. rp \<in> set rps \<Longrightarrow> good_report deflate rp"
    using run_seeds_returns [where source = source and deflate = deflate and seeds = seeds, OF assms(1-4)] by blast
  moreover have "rps \<noteq> []" using rps(2) assms(5) by auto
  ultimately show ?thesis using summarise_good [of rps deflate seeds] by (simp add: run_multi_seed_def)
qed

theorem multi_seed_no_false_positive_witness:
  "\<exists>r. run_multi_seed (\<lambda>_ _. 0) (\<lambda>x. 0x78 # x) None [1, 2, 3, 4, 5, 6, 7, 8, 9, 10, 11, 12] 512 4096 = Some (Inr r) \<and>
    max_false_positive_rate r = 0 \<and> 11 / 100 \<le> containment_margin r"
  using multi_seed_no_false_positive [where source = "\<lambda>_ _. 0" and deflate = "\<lambda>x. 0x78 # x", OF zero_draws_end stored_block, of 512 4096 "[1, 2, 3, 4, 5, 6, 7, 8, 9, 10, 11, 12]"]
  by auto

end
