(* ===== verification/Tracegen.thy ===== *)
theory Tracegen
  imports Workloads_Spec Json_Facts
begin

text \<open>
  Synthetic traces (\<^verbatim>\<open>aegis_shield/core/tracegen.py\<close>): lists of read and write requests as JSON dictionaries,
  one per line of a trace file. The random numbers are those of \<open>Workloads\<close>.
\<close>

definition trace_patterns :: "string list" where
  "trace_patterns = [''sequential_text'', ''high_entropy_append'', ''broad_overwrite'', ''low_and_slow'']"

definition read_request :: "int \<Rightarrow> json dict" where
  "read_request lba = [(''kind'', JStr ''read''), (''lba'', JInt lba), (''blocks'', JInt 1)]"

definition write_request :: "int \<Rightarrow> bytes \<Rightarrow> json dict" where
  "write_request lba payload =
     [(''kind'', JStr ''write''), (''lba'', JInt lba), (''blocks'', JInt 1), (''payload_b64'', JStr (b64encode payload))]"

text \<open>The format \<open>{:08d}\<close>, for a number that is not negative.\<close>

definition pad8 :: "int \<Rightarrow> string" where
  "pad8 v = (let s = show_nat (nat v) in replicate (8 - length s) (CHR ''0'') @ s)"

definition record_text :: "int \<Rightarrow> int \<Rightarrow> bytes" where
  "record_text i bsize =
     slice_to (text_bytes (concat (replicate (nat (bsize div 16 + 1)) (''record-'' @ pad8 i @ ''|'')))) bsize"

definition filler :: "int \<Rightarrow> int \<Rightarrow> bytes" where
  "filler i bsize = replicate (nat bsize) (word_of_int (i mod 251))"

text \<open>One round of the loop: the requests it appends.\<close>

definition trace_round :: "string \<Rightarrow> int \<Rightarrow> int \<Rightarrow> int \<Rightarrow> int \<Rightarrow> json dict list draw" where
  "trace_round pattern nblocks bsize ops i =
     (if pattern = ''sequential_text''
      then bind_draw (py_mod i nblocks) (\<lambda>lba. return_draw [write_request lba (record_text i bsize)])
      else if pattern = ''high_entropy_append''
      then bind_draw (py_mod i nblocks) (\<lambda>lba.
           bind_draw (randbytes bsize) (\<lambda>payload. return_draw [write_request lba payload]))
      else if pattern = ''broad_overwrite''
      then bind_draw (py_mod (i * 7919) nblocks) (\<lambda>lba.
           bind_draw (randbytes bsize) (\<lambda>payload. return_draw [read_request lba, write_request lba payload]))
      else bind_draw (py_mod (i * max 1 (nblocks div max 1 ops)) nblocks) (\<lambda>lba.
           bind_draw (if i mod 4 = 0 then randbytes bsize else return_draw (filler i bsize)) (\<lambda>payload.
             return_draw [write_request lba payload])))"

definition synthetic_trace :: "source \<Rightarrow> string \<Rightarrow> int \<Rightarrow> int \<Rightarrow> int \<Rightarrow> int \<Rightarrow> json dict list res option" where
  "synthetic_trace source pattern nblocks bsize ops seed =
     (if pattern \<notin> set trace_patterns then Some (Inl (ValueError ''unknown synthetic pattern''))
      else map_option (\<lambda>(r, _). bind_res r (\<lambda>rounds. Inr (concat rounds)))
             (draw_each (trace_round pattern nblocks bsize ops) (up_to ops) (random_Random source seed)))"

definition write_trace :: "json dict list \<Rightarrow> string" where
  "write_trace events = concat (map (\<lambda>ev. canonical (JObj ev) @ [nl]) events)"

section \<open>What a trace holds\<close>

text \<open>The requests of one round: a write of one full block inside the namespace, perhaps after a read of that block.\<close>

definition good_round :: "int \<Rightarrow> int \<Rightarrow> json dict list \<Rightarrow> bool" where
  "good_round nb n evs \<longleftrightarrow>
     (\<exists>lba payload. 0 \<le> lba \<and> lba < nb \<and> length payload = nat n \<and>
        (evs = [write_request lba payload] \<or> evs = [read_request lba, write_request lba payload]))"

lemma length_record_text: "0 \<le> n \<Longrightarrow> length (record_text i n) = nat n"
proof -
  assume n: "0 \<le> n"
  have p: "8 \<le> length (pad8 i)" by (simp add: pad8_def Let_def)
  have l: "length (text_bytes t) = length t" for t by (simp add: text_bytes_def)
  have "nat (n div 16 + 1) * 16 \<le> length (concat (replicate (nat (n div 16 + 1)) (''record-'' @ pad8 i @ ''|'')))"
    using p by (simp add: length_concat sum_list_replicate)
  moreover have "n \<le> int (nat (n div 16 + 1) * 16)" using n by simp
  ultimately show ?thesis
    unfolding record_text_def using n by (intro length_slice_to) (simp_all only: l)
qed

lemma yields_filler: "0 \<le> n \<Longrightarrow> yields src (if b then randbytes n else return_draw (filler i n)) (\<lambda>p. length p = nat n)"
  using yields_randbytes [of n src] by (auto simp: filler_def intro: yields_return)

lemma yields_if: "yields src a P \<Longrightarrow> yields src b P \<Longrightarrow> yields src (if c then a else b) P"
  by simp

lemma good_rounds:
  assumes "0 \<le> lba \<and> lba < nb" "length payload = nat n"
  shows "good_round nb n [write_request lba payload]" "good_round nb n [read_request lba, write_request lba payload]"
  using assms unfolding good_round_def by blast+

lemma yields_trace_round:
  assumes "0 < nb" "0 \<le> n"
  shows "yields src (trace_round pattern nb n ops i) (good_round nb n)"
proof -
  note lba = yields_bind [OF yields_mod [OF assms(1)]]
  note bytes = yields_bind [OF yields_randbytes [OF assms(2)]]
  have "yields src (bind_draw (py_mod i nb) (\<lambda>lba. return_draw [write_request lba (record_text i n)])) (good_round nb n)"
    by (rule lba, rule yields_return, rule good_rounds(1)) (simp_all add: length_record_text assms(2))
  moreover have "yields src (bind_draw (py_mod i nb) (\<lambda>lba. bind_draw (randbytes n) (\<lambda>payload. return_draw [write_request lba payload])))
      (good_round nb n)"
    by (rule lba, rule bytes, rule yields_return, rule good_rounds(1))
  moreover have "yields src (bind_draw (py_mod (i * 7919) nb) (\<lambda>lba. bind_draw (randbytes n) (\<lambda>payload. return_draw [read_request lba, write_request lba payload])))
      (good_round nb n)"
    by (rule lba, rule bytes, rule yields_return, rule good_rounds(2))
  moreover have "yields src (bind_draw (py_mod (i * max 1 (nb div max 1 ops)) nb) (\<lambda>lba.
      bind_draw (if i mod 4 = 0 then randbytes n else return_draw (filler i n)) (\<lambda>payload. return_draw [write_request lba payload])))
      (good_round nb n)"
    by (rule lba, rule yields_bind [OF yields_filler [OF assms(2)]], rule yields_return, rule good_rounds(1))
  ultimately show ?thesis unfolding trace_round_def by (intro yields_if)
qed

lemma synthetic_trace_good:
  assumes "pattern \<in> set trace_patterns" "0 < nb" "0 \<le> n"
  obtains rounds where "synthetic_trace source pattern nb n ops seed = Some (Inr (concat rounds))" "length rounds = nat ops"
    "\<forall>evs \<in> set rounds. good_round nb n evs"
proof -
  obtain rounds q where "draw_each (trace_round pattern nb n ops) (up_to ops) (at_pos (source seed) 0) = Some (Inr rounds, at_pos (source seed) q)"
    "length rounds = length (up_to ops) \<and> (\<forall>evs \<in> set rounds. good_round nb n evs)"
    using yields_each [OF yields_trace_round [OF assms(2,3)]] by (rule yieldsE)
  then show thesis using assms(1) by (intro that [of rounds]) (simp_all add: synthetic_trace_def random_Random_def up_to_def)
qed

end
