(* ===== verification/Cli.thy ===== *)
theory Cli
  imports Daemon Tracegen Benchmark
begin

text \<open>
  The command line (\<^verbatim>\<open>aegis_shield/cli/main.py\<close>) and the policy file (\<^verbatim>\<open>aegis_shield/core/config.py\<close>).
  A command gives the lines it prints, the lines it prints to the error stream, and how it ends: with
  a value, by \<open>sys.exit\<close>, or by an exception that it does not catch. \<open>click\<close> parses the arguments; the
  texts are those of the source with plain hyphens for the long dashes.

  Parameters: \<open>safe_load\<close> is \<open>yaml.safe_load\<close>, \<open>ed_sign\<close> is signing with the given private key (as in
  \<open>Tokens\<close>), \<open>nonce\<close> is the value of \<open>secrets.token_hex(16)\<close>, \<open>now\<close> is \<open>int(time.time())\<close>, \<open>frepr\<close> is the text of a float.
\<close>

datatype cli_end = System_Exit int | Uncaught exc

type_synonym 'a cli = "string list \<times> string list \<times> (cli_end + 'a)"

section \<open>Policy files\<close>

datatype yaml = YNull | YBool bool | YInt int | YFloat real | YStr string | YSeq "yaml list" | YMap "(string \<times> yaml) list"

fun falsy :: "yaml \<Rightarrow> bool" where
  "falsy YNull = True"
| "falsy (YBool b) = (\<not> b)"
| "falsy (YInt i) = (i = 0)"
| "falsy (YFloat r) = (r = 0)"
| "falsy (YStr s) = (s = [])"
| "falsy (YSeq l) = (l = [])"
| "falsy (YMap m) = (m = [])"

definition policy_fields :: "string list" where
  "policy_fields = [''minimum_operations'', ''alert_threshold'', ''containment_threshold'', ''containment_enabled'', ''weights'']"

text \<open>
  \<open>set(policy) - allowed\<close>: whether there is an unknown field. The elements of a list must be hashable.
\<close>

fun unknown_fields :: "yaml \<Rightarrow> bool res" where
  "unknown_fields (YMap m) = Inr (list_ex (\<lambda>(k, _). k \<notin> set policy_fields) m)"
| "unknown_fields (YStr s) = Inr (s \<noteq> [])"
| "unknown_fields (YSeq l) =
     (if list_ex (\<lambda>v. case v of YSeq _ \<Rightarrow> True | YMap _ \<Rightarrow> True | _ \<Rightarrow> False) l then Inl (TypeError ''unhashable type'')
      else Inr (\<not> list_all (\<lambda>v. case v of YStr k \<Rightarrow> k \<in> set policy_fields | _ \<Rightarrow> False) l))"
| "unknown_fields _ = Inl (TypeError ''object is not iterable'')"

fun number_of :: "yaml \<Rightarrow> real res" where
  "number_of (YInt i) = Inr (of_int i)"
| "number_of (YFloat r) = Inr r"
| "number_of _ = Inl (TypeError ''not a number'')"

fun weights_of :: "(string \<times> yaml) list \<Rightarrow> (string \<times> real) list res" where
  "weights_of [] = Inr []"
| "weights_of ((k, v) # m) = bind_res (number_of v) (\<lambda>r. bind_res (weights_of m) (\<lambda>ws. Inr ((k, r) # ws)))"

text \<open>
  \<open>PolicyConfig(**policy)\<close> for values of the declared types. A value of another type, which the
  dataclass would keep until \<open>Policy\<close> compares it, is refused here.
\<close>

fun set_field :: "string \<times> yaml \<Rightarrow> policy_config \<Rightarrow> policy_config res" where
  "set_field (k, v) c =
     (if k = ''minimum_operations'' then (case v of YInt i \<Rightarrow> Inr (c\<lparr>minimum_operations := i\<rparr>) | _ \<Rightarrow> Inl (TypeError k))
      else if k = ''alert_threshold'' then bind_res (number_of v) (\<lambda>r. Inr (c\<lparr>alert_threshold := r\<rparr>))
      else if k = ''containment_threshold'' then bind_res (number_of v) (\<lambda>r. Inr (c\<lparr>containment_threshold := r\<rparr>))
      else if k = ''containment_enabled'' then (case v of YBool b \<Rightarrow> Inr (c\<lparr>containment_enabled := b\<rparr>) | _ \<Rightarrow> Inl (TypeError k))
      else if k = ''weights'' then (case v of YMap m \<Rightarrow> bind_res (weights_of m) (\<lambda>ws. Inr (c\<lparr>weights := ws\<rparr>)) | _ \<Rightarrow> Inl (TypeError k))
      else Inl (TypeError k))"

fun set_fields :: "(string \<times> yaml) list \<Rightarrow> policy_config \<Rightarrow> policy_config res" where
  "set_fields [] c = Inr c"
| "set_fields (kv # m) c = bind_res (set_field kv c) (set_fields m)"

definition load_policy :: "(string \<Rightarrow> yaml res) \<Rightarrow> string \<Rightarrow> policy_config res" where
  "load_policy safe_load content =
     bind_res (safe_load content) (\<lambda>v.
       case (if falsy v then YMap [] else v) of
         YMap doc \<Rightarrow>
           (let policy = (case map_of doc ''policy'' of None \<Rightarrow> YMap [] | Some p \<Rightarrow> p) in
            bind_res (unknown_fields policy) (\<lambda>unknown.
              if unknown then Inl (ValueError ''unknown policy fields'')
              else (case policy of
                      YMap m \<Rightarrow> set_fields m default_policy
                    | _ \<Rightarrow> Inl (TypeError ''argument after ** must be a mapping''))))
       | _ \<Rightarrow> Inl (AttributeError ''get''))"

text \<open>\<open>load_policy(policy_config) if policy_config else PolicyConfig()\<close>.\<close>

definition chosen_policy :: "(string \<Rightarrow> yaml res) \<Rightarrow> string option \<Rightarrow> policy_config res" where
  "chosen_policy safe_load policy_file =
     (case policy_file of None \<Rightarrow> Inr default_policy | Some t \<Rightarrow> load_policy safe_load t)"

section \<open>provision\<close>

definition cli_provision :: "string \<Rightarrow> bool \<Rightarrow> string \<Rightarrow> int \<Rightarrow> int \<Rightarrow> string option \<Rightarrow> journal cli" where
  "cli_provision dir dir_exists uuid nblocks bsize dev =
     (if dir_exists then ([], [''[error] '' @ dir @ '' already exists. Remove it first.''], Inl (System_Exit 1))
      else (case provision False uuid nblocks bsize dev of
              Inl x \<Rightarrow> ([], [], Inl (Uncaught x))
            | Inr j \<Rightarrow>
                ([''Provisioned namespace: '' @ dir, ''  device_id  : '' @ device_id j, ''  blocks     : '' @ show_int (blocks j),
                  ''  block_size : '' @ show_int (block_size j)], [], Inr j)))"

section \<open>start\<close>

record daemon_settings =
  ds_host :: string
  ds_port :: int
  ds_blocks :: int
  ds_policy :: policy_config
  ds_nbd_host :: "string option"
  ds_nbd_port :: int
  ds_nbd_export :: string

definition loopback :: "string list" where
  "loopback = [''127.0.0.1'', ''::1'', ''localhost'']"

definition remote_nbd :: "string option \<Rightarrow> bool" where
  "remote_nbd nbd_host = (case nbd_host of None \<Rightarrow> False | Some h \<Rightarrow> h \<notin> set loopback)"

definition nbd_refusal :: "string \<Rightarrow> string list" where
  "nbd_refusal h =
     [''[error] Refusing to bind the unauthenticated NBD export to '' @ py_repr h @ ''.'',
      ''        NBD has no authentication and no TLS: anyone who can reach the'',
      ''        port gets full read/write access to the protected namespace.'',
      ''        Use --nbd-host 127.0.0.1, or pass --nbd-allow-remote if the'',
      ''        port is genuinely restricted by other means.'']"

definition containment_warning :: string where
  "containment_warning =
     ''[warning] Containment is DISABLED in this policy. The daemon will detect and alert but will not freeze the namespace.''"

text \<open>The command up to the daemon it runs; \<open>s\<close> holds the options, its policy is that of the file.\<close>

definition cli_start ::
  "(string \<Rightarrow> yaml res) \<Rightarrow> string option \<Rightarrow> bool \<Rightarrow> string \<Rightarrow> daemon_settings \<Rightarrow> daemon_settings cli" where
  "cli_start safe_load policy_file allow_remote dir s =
     (case chosen_policy safe_load policy_file of
        Inl x \<Rightarrow> ([], [], Inl (Uncaught x))
      | Inr cfg \<Rightarrow>
          (let h = (case ds_nbd_host s of None \<Rightarrow> [] | Some h \<Rightarrow> h) in
           if remote_nbd (ds_nbd_host s) \<and> \<not> allow_remote then ([], nbd_refusal h, Inl (System_Exit 1))
           else ([''Starting Aegis Shield on '' @ ds_host s @ '':'' @ show_int (ds_port s) @ '' - namespace '' @ dir] @
                 (if ds_nbd_host s = None then []
                  else [''NBD write-gate: '' @ h @ '':'' @ show_int (ds_nbd_port s) @ '' export='' @ py_repr (ds_nbd_export s)]),
                 (if remote_nbd (ds_nbd_host s)
                  then [''[warning] NBD is bound to '' @ py_repr h @ '' with no authentication or TLS.''] else []) @
                 (if containment_enabled cfg then [] else [containment_warning]),
                 Inr (s\<lparr>ds_policy := cfg\<rparr>))))"

section \<open>status\<close>

text \<open>
  The fields of the state file, read without checks; \<open>str()\<close> of a list or dictionary is outside the model.
\<close>

definition persisted_fields :: "string option \<Rightarrow> (string \<times> int \<times> json \<times> json) res" where
  "persisted_fields state_file =
     (case state_file of
        None \<Rightarrow> Inr (''not_started'', 0, JNull, JNull)
      | Some raw \<Rightarrow>
          (case json_loads raw of
             None \<Rightarrow> Inl (ValueError ''JSONDecodeError'')
           | Some (JObj d) \<Rightarrow>
               (let item = (\<lambda>k dflt. case map_of d k of None \<Rightarrow> dflt | Some v \<Rightarrow> v) in
                bind_res (case py_str (item ''state'' (JStr ''unknown'')) of None \<Rightarrow> Inl (TypeError ''state'') | Some s \<Rightarrow> Inr s) (\<lambda>s.
                bind_res (py_int (item ''state_version'' (JInt 0))) (\<lambda>v.
                  Inr (s, v, item ''containment_sequence'' JNull, item ''recovery_sequence'' JNull))))
           | Some _ \<Rightarrow> Inl (AttributeError ''get'')))"

definition status_dict :: "journal \<Rightarrow> string \<times> int \<times> json \<times> json \<Rightarrow> json dict" where
  "status_dict j f =
     (case f of (s, v, c, r) \<Rightarrow>
        [(''device_id'', JStr (device_id j)), (''state'', JStr s), (''state_version'', JInt v),
         (''last_sequence'', JInt (last_sequence j)), (''containment_sequence'', c), (''recovery_sequence'', r),
         (''writes_allowed'', JBool (s = state_value NORMAL \<or> s = state_value ELEVATED))])"

text \<open>\<open>json.dumps(value, indent=2)\<close>.\<close>

definition dumps_pretty :: "json \<Rightarrow> string" where
  "dumps_pretty v = render (Some 2) 0 v"

text \<open>The command prints the state of a namespace; the value is the files as it leaves them.\<close>

definition cli_status :: "ns \<Rightarrow> (string \<times> ns option) list \<Rightarrow> string option \<Rightarrow> ns cli" where
  "cli_status fs snaps state_file =
     (case open_journal fs snaps of
        Inl x \<Rightarrow> ([], [], Inl (Uncaught x))
      | Inr j \<Rightarrow>
          (case persisted_fields state_file of
             Inl x \<Rightarrow> ([], [], Inl (Uncaught x))
           | Inr f \<Rightarrow> ([dumps_pretty (JObj (status_dict j f))], [], Inr (j_files j))))"

section \<open>issue-token\<close>

definition issued_authorization ::
  "journal \<Rightarrow> int \<Rightarrow> int option \<Rightarrow> int \<Rightarrow> string \<Rightarrow> int \<Rightarrow> string \<Rightarrow> recovery_authorization" where
  "issued_authorization j state_version target_sequence ttl action now nonce =
     \<lparr>ra_action = action, ra_device_id = device_id j, ra_expires_unix = now + ttl, ra_issued_unix = now, ra_nonce = nonce,
      ra_state_version = state_version,
      ra_target_sequence =
        (if action = ''enter_maintenance'' then None
         else case target_sequence of Some t \<Rightarrow> Some t | None \<Rightarrow> Some (last_sequence j))\<rparr>"

definition cli_issue_token ::
  "(bytes \<Rightarrow> bytes) \<Rightarrow> ns \<Rightarrow> (string \<times> ns option) list \<Rightarrow> int \<Rightarrow> int option \<Rightarrow> int \<Rightarrow> string \<Rightarrow> int \<Rightarrow> string \<Rightarrow> string cli" where
  "cli_issue_token ed_sign fs snaps state_version target_sequence ttl action now nonce =
     (if 900 < ttl then ([], [''[error] TTL cannot exceed 900 seconds.''], Inl (System_Exit 1))
      else (case open_journal fs snaps of
              Inl x \<Rightarrow> ([], [], Inl (Uncaught x))
            | Inr j \<Rightarrow>
                (let token = sign_authorization ed_sign (issued_authorization j state_version target_sequence ttl action now nonce)
                 in ([token], [], Inr token))))"

section \<open>generate-trace\<close>

definition cli_generate_trace :: "source \<Rightarrow> string \<Rightarrow> string \<Rightarrow> int \<Rightarrow> int \<Rightarrow> int \<Rightarrow> int \<Rightarrow> string cli option" where
  "cli_generate_trace source output pattern nblocks bsize ops seed =
     map_option (\<lambda>r. case r of
         Inl x \<Rightarrow> ([], [], Inl (Uncaught x))
       | Inr trace \<Rightarrow>
           ([''Wrote '' @ show_nat (length trace) @ '' operations to '' @ output], [], Inr (write_trace trace)))
       (synthetic_trace source pattern nblocks bsize ops seed)"

section \<open>replay\<close>

text \<open>A file opened as text: every way to end a line reads as a line break.\<close>

fun universal_newlines :: "string \<Rightarrow> string" where
  "universal_newlines [] = []"
| "universal_newlines (c # s) =
     (if c = CHR 0x0D
      then nl # (case s of [] \<Rightarrow> [] | d # t \<Rightarrow> if d = nl then universal_newlines t else universal_newlines s)
      else c # universal_newlines s)"

fun parse_trace :: "string list \<Rightarrow> json list res" where
  "parse_trace [] = Inr []"
| "parse_trace (l # ls) =
     (let line = str_strip l in
      if line = [] then parse_trace ls
      else (case json_loads line of
              None \<Rightarrow> Inl (ValueError ''JSONDecodeError'')
            | Some v \<Rightarrow> bind_res (parse_trace ls) (\<lambda>vs. Inr (v # vs))))"

text \<open>
  \<open>op[key]\<close> of a parsed line, and an integer field of it; an address or a count of another type is
  outside the model and raises here.
\<close>

definition op_item :: "json \<Rightarrow> string \<Rightarrow> json res" where
  "op_item op key = (case op of JObj d \<Rightarrow> dict_item d key | _ \<Rightarrow> Inl (TypeError ''indices must be integers''))"

definition op_int :: "json \<Rightarrow> string \<Rightarrow> int res" where
  "op_int op key = bind_res (op_item op key) (\<lambda>v. case v of JInt i \<Rightarrow> Inr i | _ \<Rightarrow> Inl (TypeError key))"

definition op_payload :: "json \<Rightarrow> bytes res" where
  "op_payload op =
     bind_res (op_item op ''payload_b64'') (\<lambda>v.
       case v of
         JStr s \<Rightarrow>
           if \<not> is_ascii s then Inl (ValueError ''string argument should contain only ASCII characters'')
           else (case a2b_base64 0 0 0 s of None \<Rightarrow> Inl (ValueError ''Incorrect padding'') | Some b \<Rightarrow> Inr b)
       | _ \<Rightarrow> Inl (TypeError ''argument should be a bytes-like object or ASCII string''))"

definition op_blocks :: "json \<Rightarrow> int res" where
  "op_blocks op =
     (case op of
        JObj d \<Rightarrow> (case map_of d ''blocks'' of None \<Rightarrow> Inr 1 | Some (JInt i) \<Rightarrow> Inr i | Some _ \<Rightarrow> Inl (TypeError ''blocks''))
      | _ \<Rightarrow> Inl (AttributeError ''get''))"

definition blocked_line :: "int \<Rightarrow> string \<Rightarrow> string" where
  "blocked_line lba m = ''  BLOCKED lba='' @ show_int lba @ '': '' @ m"

text \<open>One request: the decision of a write that was accepted, the message of one that was blocked.\<close>

definition replay_op :: "(real \<Rightarrow> string) \<Rightarrow> json \<Rightarrow> (engine, decision list \<times> string list) oper" where
  "replay_op frepr op e =
     (case op_item op ''kind'' of
        Inl x \<Rightarrow> (Inl x, e)
      | Inr k \<Rightarrow>
          if k = JStr ''write'' then
            (case bind_res (op_payload op) (\<lambda>p. bind_res (op_int op ''lba'') (\<lambda>lba. Inr (lba, p))) of
               Inl x \<Rightarrow> (Inl x, e)
             | Inr (lba, p) \<Rightarrow>
                 (case engine_write frepr lba p e of
                    (Inr d, e1) \<Rightarrow> (Inr ([d], []), e1)
                  | (Inl x, e1) \<Rightarrow>
                      if is_permission_error x then (Inr ([], [blocked_line lba (exc_str x)]), e1) else (Inl x, e1)))
          else if k = JStr ''read'' then
            (case bind_res (op_int op ''lba'') (\<lambda>lba. bind_res (op_blocks op) (\<lambda>n. Inr (lba, n))) of
               Inl x \<Rightarrow> (Inl x, e)
             | Inr (lba, n) \<Rightarrow>
                 (case engine_read lba n e of (Inr _, e1) \<Rightarrow> (Inr ([], []), e1) | (Inl x, e1) \<Rightarrow> (Inl x, e1)))
          else (Inr ([], []), e))"

fun replay_ops :: "(real \<Rightarrow> string) \<Rightarrow> json list \<Rightarrow> (engine, decision list \<times> string list) oper" where
  "replay_ops frepr [] e = (Inr ([], []), e)"
| "replay_ops frepr (op # ops) e =
     bind_op (replay_op frepr op) (\<lambda>(ds, msgs).
       bind_op (replay_ops frepr ops) (\<lambda>(ds1, msgs1). return_op (ds @ ds1, msgs @ msgs1))) e"

definition replay_summary :: "decision list \<Rightarrow> engine \<Rightarrow> string list" where
  "replay_summary ds e =
     [''Replayed '' @ show_nat (length ds) @ '' writes - alerts: '' @ show_nat (length (filter alert ds)) @
        '', containments: '' @ show_nat (length (filter contain ds)),
      ''Final state: '' @ state_value (e_state e)]"

text \<open>
  The whole command; as in the daemon, \<open>e\<close> carries the audit files, the clock and the state file. The
  result is what it prints, or the exception.
\<close>

definition cli_replay ::
  "(real \<Rightarrow> string) \<Rightarrow> (string \<Rightarrow> yaml res) \<Rightarrow> ns \<Rightarrow> (string \<times> ns option) list \<Rightarrow> string \<Rightarrow> string option \<Rightarrow>
   (engine, string list \<times> string list) oper" where
  "cli_replay frepr safe_load fs snaps trace policy_file e =
     (case open_journal fs snaps of
        Inl x \<Rightarrow> (Inl x, e)
      | Inr j \<Rightarrow>
          (case bind_res (chosen_policy safe_load policy_file) (\<lambda>cfg. new_policy (Some cfg)) of
             Inl x \<Rightarrow> (Inl x, e\<lparr>e_journal := j\<rparr>)
           | Inr p \<Rightarrow>
               bind_op boot (\<lambda>_ e1.
                 case parse_trace (lines_of (universal_newlines trace)) of
                   Inl x \<Rightarrow> (Inl x, e1)
                 | Inr ops \<Rightarrow>
                     bind_op (replay_ops frepr ops) (\<lambda>(ds, msgs) e2. (Inr (replay_summary ds e2, msgs), e2)) e1)
                 (e\<lparr>e_journal := j, e_policy := p\<rparr>)))"

section \<open>benchmark\<close>

definition multi_lines :: "multi_seed_report \<Rightarrow> string list" where
  "multi_lines m =
     [[],
      ''across '' @ show_nat (ms_seeds m) @ '' seeds:'',
      ''  loudest benign     : '' @ fixed 3 (loudest_benign m),
      ''  quietest attack    : '' @ fixed 3 (quietest_attack m),
      ''  containment margin : '' @ fixed_signed 3 (containment_margin m),
      ''  worst-case FPR     : '' @ percent (max_false_positive_rate m),
      ''  worst-case TPR     : '' @ percent (min_true_positive_rate m),
      [],
      ''Synthetic corpus only. Not validated against real ransomware.'']"

definition margin_warning :: "multi_seed_report \<Rightarrow> string" where
  "margin_warning m =
     ''[warning] Only '' @ fixed_signed 3 (containment_margin m) @
     '' of headroom between the loudest benign workload and the containment threshold. A legitimate high-entropy workload could freeze the device.''"

definition cli_benchmark ::
  "source \<Rightarrow> (bytes \<Rightarrow> bytes) \<Rightarrow> (string \<Rightarrow> yaml res) \<Rightarrow> string option \<Rightarrow> int \<Rightarrow> int \<Rightarrow> unit cli option" where
  "cli_benchmark source deflate safe_load policy_file seeds nblocks =
     (case chosen_policy safe_load policy_file of
        Inl x \<Rightarrow> Some ([], [], Inl (Uncaught x))
      | Inr config \<Rightarrow>
          (case map_option (\<lambda>r. bind_res r format_report) (run_benchmark source (Some config) (all_workloads deflate) nblocks 4096 1) of
             None \<Rightarrow> None
           | Some (Inl x) \<Rightarrow> Some ([], [], Inl (Uncaught x))
           | Some (Inr report) \<Rightarrow>
               map_option (\<lambda>r. case r of
                   Inl x \<Rightarrow> ([report], [], Inl (Uncaught x))
                 | Inr m \<Rightarrow>
                     if containment_margin m < 5 / 100 then (report # multi_lines m @ [[]], [margin_warning m], Inr ())
                     else (report # multi_lines m, [], Inr ()))
                 (run_multi_seed source deflate (Some config) [1..seeds] nblocks 4096)))"


end
