(* ===== verification/Cli_Spec.thy ===== *)
theory Cli_Spec
  imports Cli
begin

text \<open>
  The command line against the running daemon: a token that \<^verbatim>\<open>issue-token\<close> prints is accepted at the
  socket, and \<^verbatim>\<open>status\<close> prints what the engine itself reports.
\<close>

section \<open>Commands as a client sends them\<close>

lemma str_strip_id:
  assumes "s \<noteq> []" "\<not> is_str_space (hd s)" "\<not> is_str_space (last s)"
  shows "str_strip s = s" "str_strip (s @ [nl]) = s"
proof -
  obtain c t where s: "s = c # t" using assms(1) by (cases s) auto
  have "dropWhile is_str_space s = s" "dropWhile is_str_space (s @ [nl]) = s @ [nl]" using assms(2) by (simp_all add: s)
  moreover have "dropWhile is_str_space (rev s) = rev s"
    using assms(1,3) by (cases s rule: rev_cases) simp_all
  moreover have "is_str_space nl" by (simp add: is_str_space_def is_space_def)
  ultimately show "str_strip s = s" "str_strip (s @ [nl]) = s" by (simp_all add: str_strip_def)
qed

lemma url_alphabet_nonspace: "list_all (\<lambda>c. \<not> is_str_space c) (map url_char b64_alphabet)"
  by code_simp

lemma b64url_nonspace:
  assumes "c \<in> set (b64url_encode bs)"
  shows "\<not> is_str_space c"
proof -
  have "set (rstrip_pad s) \<subseteq> set s" for s unfolding rstrip_pad_def set_rev using set_dropWhileD by fastforce
  then obtain d where d: "c = url_char d" "d \<in> set (b64encode bs)" using assms unfolding b64url_encode_def by fastforce
  then have "d = CHR ''='' \<or> d \<in> set b64_alphabet" using b64encode_chars [of bs] by auto
  moreover have "\<not> is_str_space (url_char (CHR ''=''))" by (simp add: url_char_def is_str_space_def is_space_def)
  ultimately show ?thesis using url_alphabet_nonspace d(1) by (auto simp: list_all_iff)
qed

lemma token_ends:
  fixes ed_sign a
  defines "token \<equiv> sign_authorization ed_sign a"
  shows "token \<noteq> []" "\<not> is_str_space (hd token)" "\<not> is_str_space (last token)"
proof -
  define enc where "enc = b64url_encode (text_bytes (canonical (JObj (authorization_dict a))))"
  define sig where "sig = b64url_encode (ed_sign (text_bytes enc))"
  have t: "token = ''aegis1.'' @ enc @ ''.'' @ sig" by (simp add: token_def sign_authorization_def enc_def sig_def Let_def)
  have "last token = (if sig = [] then CHR ''.'' else last sig)" by (simp add: t)
  moreover have "\<not> is_str_space (last sig)" if "sig \<noteq> []" using that b64url_nonspace unfolding sig_def by (metis last_in_set)
  ultimately show "token \<noteq> []" "\<not> is_str_space (hd token)" "\<not> is_str_space (last token)"
    by (simp_all add: t is_str_space_def is_space_def)
qed

lemma token_command:
  fixes ed_sign a
  defines "token \<equiv> sign_authorization ed_sign a"
  shows "str_strip (''maintenance '' @ token @ [nl]) = ''maintenance '' @ token" "str_strip (''authorize '' @ token @ [nl]) = ''authorize '' @ token"
    "str_strip token = token"
proof -
  note t = token_ends [of ed_sign a, folded token_def]
  have "str_strip ((''maintenance '' @ token) @ [nl]) = ''maintenance '' @ token" "str_strip ((''authorize '' @ token) @ [nl]) = ''authorize '' @ token"
    using t by (intro str_strip_id(2); simp add: is_str_space_def is_space_def)+
  then show "str_strip (''maintenance '' @ token @ [nl]) = ''maintenance '' @ token" "str_strip (''authorize '' @ token @ [nl]) = ''authorize '' @ token"
    "str_strip token = token" using t by (simp_all add: str_strip_id(1))
qed

lemma handle_token_command:
  fixes ed_sign a
  defines "token \<equiv> sign_authorization ed_sign a"
  shows "handle_socket_command lv key (''maintenance '' @ token) e = socket_enter_maintenance lv key token e"
    "handle_socket_command lv key (''authorize '' @ token) e = socket_authorize lv key token e"
  using token_command(3) [of ed_sign a, folded token_def] by (simp_all add: handle_socket_command_def starts_with_def)

section \<open>Tokens\<close>

lemma authorize_accepts:
  assumes "e_state e = CONTAINED" "parse_token ed token = Inr a"
    and "admissible a (device_id (e_journal e)) ''enter_recovery_read_only'' (e_version e) (verify_time now e)"
    and "ra_nonce a \<notin> set (keys (e_nonces e))" "ra_target_sequence a = Some t" "0 \<le> t" "t \<le> last_sequence (e_journal e)"
  obtains e1 where "authorize_recovery ed token True now e = (Inr (), e1)" "e_state e1 = RECOVERY_READ_ONLY" "e_version e1 = e_version e + 1"
    "e_recovery e1 = JInt t" "e_journal e1 = e_journal e"
proof -
  obtain e0 where v: "engine_verify ed token ''enter_recovery_read_only'' now e = (Inr a, e0)"
    using assms(2,3) token_verify_iff [of ed token "device_id (e_journal e)" "''enter_recovery_read_only''" "e_version e" "verify_time now e" a]
    by (simp add: engine_verify_def)
  note f = engine_verify_frame [of ed token "''enter_recovery_read_only''" now e, unfolded v snd_conv]
  let ?e = "save_state (e0\<lparr>e_nonces := AList.update (ra_nonce a) (ra_expires_unix a) (e_nonces e0), e_recovery := JInt t\<rparr>)"
  let ?r = "''signed authorization plus physical presence''"
  have al: "RECOVERY_READ_ONLY \<in> set (allowed (e_state ?e))" using assms(1) f(2) by simp
  have "authorize_recovery ed token True now e = transition RECOVERY_READ_ONLY ?r ?e"
    using assms(1,4-7) f by (simp add: authorize_recovery_def bind_op_def v)
  also have "\<dots> = (Inr (), snd (transition RECOVERY_READ_ONLY ?r ?e))" by (rule transition_ok [OF al])
  finally show thesis
    by (rule that) (use al f in \<open>simp_all add: transition_state\<close>)
qed

lemma issue_token_prints:
  assumes "reachable j" "ttl \<le> 900"
  shows "cli_issue_token ed_sign (j_files j) snaps v tgt ttl action issued nonce =
    ([sign_authorization ed_sign (issued_authorization j v tgt ttl action issued nonce)], [],
     Inr (sign_authorization ed_sign (issued_authorization j v tgt ttl action issued nonce)))"
proof -
  have "last_sequence (j\<lparr>j_snapshots := snaps, recovered_tail := None\<rparr>) = last_sequence j" by (simp add: last_sequence_def)
  then have "issued_authorization (j\<lparr>j_snapshots := snaps, recovered_tail := None\<rparr>) = issued_authorization j" by (simp add: issued_authorization_def fun_eq_iff split: option.split)
  then show ?thesis using reopen [OF reachable_rel [OF assms(1)], of snaps] assms(2) by (simp add: cli_issue_token_def Let_def)
qed

lemma serve_maintenance:
  assumes "load_verifier pem = Inr ed" "enter_maintenance ed (sign_authorization ed_sign a) True None e = (Inr (), e1)"
  shows "serve_client load_verifier (Some pem) (Some (''maintenance '' @ sign_authorization ed_sign a @ [nl])) e =
    (Some (dumps_plain (JObj [(''maintenance'', JBool True), (''state'', JStr (state_value (e_state e1)))]) @ [nl]), e1)"
  unfolding serve_client_def option.case token_command handle_token_command
  by (simp add: socket_enter_maintenance_def try_reply_def with_verifier_def bind_op_def assms)

lemma serve_authorize:
  assumes "load_verifier pem = Inr ed" "authorize_recovery ed (sign_authorization ed_sign a) True None e = (Inr (), e1)"
  shows "serve_client load_verifier (Some pem) (Some (''authorize '' @ sign_authorization ed_sign a @ [nl])) e =
    (Some (dumps_plain (JObj [(''authorized'', JBool True), (''state'', JStr (state_value (e_state e1)))]) @ [nl]), e1)"
  unfolding serve_client_def option.case token_command handle_token_command
  by (simp add: socket_authorize_def try_reply_def with_verifier_def bind_op_def assms)

lemma serve_exit:
  assumes "exit_maintenance False e = (Inr None, e2)"
  shows "serve_client load_verifier key (Some (''exit-maintenance'' @ [nl])) e =
    (Some (dumps_plain (JObj [(''state'', JStr (state_value (e_state e2)))]) @ [nl]), e2)"
proof -
  have "str_strip (''exit-maintenance'' @ [nl]) = ''exit-maintenance''" by (rule str_strip_id) (simp_all add: is_str_space_def is_space_def)
  moreover have "\<not> contains_text ''compact'' ''exit-maintenance''" by code_simp
  ultimately show ?thesis
    by (simp add: serve_client_def handle_socket_command_def starts_with_def socket_exit_maintenance_def try_reply_def bind_op_def assms)
qed

text \<open>
  What \<open>issue-token\<close> prints is redeemed at the socket. On the namespace of an engine whose
  journal a run can reach, with the key pair of the daemon, the present state version, a lifetime of
  at most 900 seconds, a new nonce and clocks that agree within the window, the command prints one
  token. In NORMAL, CONTAINED, RECOVERY_READ_ONLY and FAULT a maintenance token sent as
  \<open>maintenance <token>\<close> is answered with the state MAINTENANCE, and \<open>exit-maintenance\<close> after it with
  NORMAL: both anchors are cleared, the version is two higher, and no block has changed. In CONTAINED
  a recovery token without a target sent as \<open>authorize <token>\<close> gives RECOVERY_READ_ONLY anchored at
  the last sequence number.
\<close>

theorem issued_token_redeems:
  assumes "\<And>m. ed_verify (ed_sign m) m" "load_verifier pem = Inr ed_verify"
    and "reachable (e_journal e)" "e_state e \<in> {NORMAL, CONTAINED, RECOVERY_READ_ONLY, FAULT}" "ttl \<le> 900"
    and "issued \<le> verify_time None e + 60" "verify_time None e \<le> issued + ttl" "nonce \<notin> set (keys (e_nonces e))"
  shows "(\<exists>token e1 e2.
      cli_issue_token ed_sign (j_files (e_journal e)) snaps (e_version e) tgt ttl ''enter_maintenance'' issued nonce = ([token], [], Inr token) \<and>
      serve_client load_verifier (Some pem) (Some (''maintenance '' @ token @ [nl])) e =
        (Some (dumps_plain (JObj [(''maintenance'', JBool True), (''state'', JStr (state_value MAINTENANCE))]) @ [nl]), e1) \<and>
      serve_client load_verifier (Some pem) (Some (''exit-maintenance'' @ [nl])) e1 =
        (Some (dumps_plain (JObj [(''state'', JStr (state_value NORMAL))]) @ [nl]), e2) \<and>
      e_state e2 = NORMAL \<and> e_version e2 = e_version e + 2 \<and> e_containment e2 = JNull \<and> e_recovery e2 = JNull \<and>
      e_journal e2 = e_journal e) \<and>
    (e_state e = CONTAINED \<longrightarrow> (\<exists>token e1.
      cli_issue_token ed_sign (j_files (e_journal e)) snaps (e_version e) None ttl ''enter_recovery_read_only'' issued nonce = ([token], [], Inr token) \<and>
      serve_client load_verifier (Some pem) (Some (''authorize '' @ token @ [nl])) e =
        (Some (dumps_plain (JObj [(''authorized'', JBool True), (''state'', JStr (state_value RECOVERY_READ_ONLY))]) @ [nl]), e1) \<and>
      e_state e1 = RECOVERY_READ_ONLY \<and> e_recovery e1 = JInt (last_sequence (e_journal e)) \<and> e_journal e1 = e_journal e))"
    (is "?maintain \<and> (_ \<longrightarrow> ?recover)")
proof
  let ?a = "issued_authorization (e_journal e) (e_version e) tgt ttl ''enter_maintenance'' issued nonce"
  have p: "parse_token ed_verify (sign_authorization ed_sign a) = Inr a" for a using assms(1) by (rule parse_signed)
  have st: "e_state e \<in> set maintenance_entry_states" using assms(4) by (auto simp: maintenance_entry_states_def)
  have ad: "admissible ?a (device_id (e_journal e)) ''enter_maintenance'' (e_version e) (verify_time None e)" "ra_nonce ?a \<notin> set (keys (e_nonces e))"
    using assms by (auto simp: admissible_def issued_authorization_def)
  obtain e1 where e1: "enter_maintenance ed_verify (sign_authorization ed_sign ?a) True None e = (Inr (), e1)" "e_state e1 = MAINTENANCE"
    "e_version e1 = e_version e + 1" "e_journal e1 = e_journal e" using st p ad by (rule maintain_accepts)
  obtain e2 where e2: "exit_maintenance False e1 = (Inr None, e2)" "e_state e2 = NORMAL" "e_version e2 = e_version e1 + 1"
    "e_containment e2 = JNull" "e_recovery e2 = JNull" "e_journal e2 = e_journal e1" using e1(2) by (rule exit_returns)
  show ?maintain
    using issue_token_prints [OF assms(3,5)] serve_maintenance [of load_verifier, OF assms(2) e1(1)] serve_exit [OF e2(1)] e1 e2
    by (intro exI [of _ "sign_authorization ed_sign ?a"] exI [of _ e1] exI [of _ e2]) simp
next
  let ?a = "issued_authorization (e_journal e) (e_version e) None ttl ''enter_recovery_read_only'' issued nonce"
  show "e_state e = CONTAINED \<longrightarrow> ?recover"
  proof
    assume c: "e_state e = CONTAINED"
    have p: "parse_token ed_verify (sign_authorization ed_sign ?a) = Inr ?a" using assms(1) by (rule parse_signed)
    have ad: "admissible ?a (device_id (e_journal e)) ''enter_recovery_read_only'' (e_version e) (verify_time None e)"
      "ra_nonce ?a \<notin> set (keys (e_nonces e))" "ra_target_sequence ?a = Some (last_sequence (e_journal e))" "0 \<le> last_sequence (e_journal e)"
      using assms reachable_last [OF assms(3)] by (auto simp: admissible_def issued_authorization_def)
    obtain e1 where e1: "authorize_recovery ed_verify (sign_authorization ed_sign ?a) True None e = (Inr (), e1)" "e_state e1 = RECOVERY_READ_ONLY"
      "e_recovery e1 = JInt (last_sequence (e_journal e))" "e_journal e1 = e_journal e" using c p ad order_refl by (rule authorize_accepts)
    show ?recover
      using issue_token_prints [OF assms(3,5)] serve_authorize [of load_verifier, OF assms(2) e1(1)] e1
      by (intro exI [of _ "sign_authorization ed_sign ?a"] exI [of _ e1]) simp
  qed
qed

theorem issued_token_redeems_witness:
  "\<exists>token e1. cli_issue_token (\<lambda>m. m) (j_files sample1) [] 4 None 900 ''enter_recovery_read_only'' (verify_time None contained_engine) ''n7'' =
      ([token], [], Inr token) \<and>
    serve_client (\<lambda>_. Inr sample_ed) (Some []) (Some (''authorize '' @ token @ [nl])) contained_engine =
      (Some (dumps_plain (JObj [(''authorized'', JBool True), (''state'', JStr (state_value RECOVERY_READ_ONLY))]) @ [nl]), e1) \<and>
    e_state e1 = RECOVERY_READ_ONLY"
  using issued_token_redeems [of sample_ed "\<lambda>m. m" "\<lambda>_. Inr sample_ed" "[]" contained_engine 900 "verify_time None contained_engine" "''n7''" "[]" None]
    sample1_facts(1) by (auto simp: contained_engine_facts)


section \<open>Status\<close>

lemma state_value_writable: "(state_value s = ''normal'' \<or> state_value s = ''elevated'') = writes_allowed s"
  by (cases s) (simp_all add: writes_allowed_def)

lemma persisted_fields_payload:
  assumes "engine_inv e"
  shows "persisted_fields (Some (state_payload_text (state_payload e))) = Inr (state_value (e_state e), e_version e, e_containment e, e_recovery e)"
proof -
  let ?d = "sorted_dict (state_payload e)"
  have "json_loads (state_payload_text (state_payload e)) = Some (JObj ?d)"
    unfolding state_payload_text_def sort_keys_JObj [symmetric] using wf_payload [OF assms] by (rule loads_indent2) (simp add: is_ws_def)
  moreover have "map_of ?d ''state'' = Some (JStr (state_value (e_state e)))" "map_of ?d ''state_version'' = Some (JInt (e_version e))"
    using map_of_sorted_dict [OF distinct_payload [of e]] by (simp_all add: state_payload_def)
  moreover have "sort_keys (e_containment e) = e_containment e" "sort_keys (e_recovery e) = e_recovery e"
    using assms scalar_simps(2) by (simp_all add: engine_inv_def)
  ultimately show ?thesis by (simp add: persisted_fields_def payload_items Let_def)
qed

lemma sound_fields:
  assumes "sound e"
  shows "persisted_fields (e_state_file e) = Inr (state_value (e_state e), e_version e, e_containment e, e_recovery e)"
proof -
  obtain e0 where "engine_inv e0" "agrees e0 e" "e_state_file e = Some (state_payload_text (state_payload e0))"
    using assms by (auto simp: sound_def synced_def)
  then show ?thesis using persisted_fields_payload [of e0] by (simp add: agrees_def)
qed

lemma status_prints:
  assumes "sound e" "open_journal fs snaps = Inr j" "device_id j = device_id (e_journal e)" "next_sequence j = next_sequence (e_journal e)"
  shows "cli_status fs snaps (e_state_file e) = ([dumps_pretty (JObj (engine_status e))], [], Inr (j_files j))"
  using assms by (simp add: cli_status_def sound_fields status_dict_def engine_status_def state_value_writable last_sequence_def)

text \<open>
  C7. The offline \<open>status\<close> command and the engine agree: for an engine that a run can reach, the command
  on its files prints the status that the engine itself reports, every field included, and leaves the
  files as they are. When a power cut has left a part of a record at the end of the log it prints the
  same, but it is not read-only: opening the journal cuts the log back and stores the part in a side
  file.
\<close>

theorem status_reports_engine:
  assumes "engine_reachable frepr ed e" "good_repr frepr"
  shows "cli_status (j_files (e_journal e)) snaps (e_state_file e) =
      ([dumps_pretty (JObj (engine_status e))], [], Inr (j_files (e_journal e))) \<and>
    (0 < k \<and> Suc k < length (next_line (e_journal e) w) \<longrightarrow>
     cli_status ((j_files (e_journal e))\<lparr>f_log := f_log (j_files (e_journal e)) @ take k (next_line (e_journal e) w)\<rparr>) snaps (e_state_file e) =
      ([dumps_pretty (JObj (engine_status e))], [],
       Inr ((j_files (e_journal e))\<lparr>f_sidecars :=
         AList.update (''journal.jsonl.torn-'' @ show_nat (log_size (e_journal e))) (take k (next_line (e_journal e) w))
           (f_sidecars (j_files (e_journal e)))\<rparr>)))"
proof (intro conjI impI)
  have s: "sound e" and r: "journal_rel (e_journal e) (hist (e_journal e))"
    using life [OF assms] reachable_rel by blast+
  show "cli_status (j_files (e_journal e)) snaps (e_state_file e) =
      ([dumps_pretty (JObj (engine_status e))], [], Inr (j_files (e_journal e)))"
    using status_prints [OF s reopen [OF r]] by simp
  assume k: "0 < k \<and> Suc k < length (next_line (e_journal e) w)"
  then have "0 < k" "Suc k < length (next_line (e_journal e) w)" by blast+
  then show "cli_status ((j_files (e_journal e))\<lparr>f_log := f_log (j_files (e_journal e)) @ take k (next_line (e_journal e) w)\<rparr>) snaps (e_state_file e) =
      ([dumps_pretty (JObj (engine_status e))], [],
       Inr ((j_files (e_journal e))\<lparr>f_sidecars :=
         AList.update (''journal.jsonl.torn-'' @ show_nat (log_size (e_journal e))) (take k (next_line (e_journal e) w))
           (f_sidecars (j_files (e_journal e)))\<rparr>))"
    using status_prints [OF s open_torn [OF r _ _ refl]] by (simp add: set_aside_def)
qed

theorem status_reports_engine_witness:
  "cli_status (j_files (e_journal struck_engine)) [] (e_state_file struck_engine) =
     ([dumps_pretty (JObj (engine_status struck_engine))], [], Inr (j_files (e_journal struck_engine))) \<and>
   (''state'', JStr ''contained'') \<in> set (engine_status struck_engine)"
  using status_reports_engine [OF struck_engine_reachable sample_repr, of "[]" 0]
  by (simp add: engine_status_def struck_engine_facts)

section \<open>Starting the daemon\<close>

text \<open>
  A daemon that is started has the policy of the file, or the defaults without one; its NBD export is
  bound to another than a loopback address only if that was allowed, and then with a warning, as is a
  policy that does not contain.
\<close>

theorem start_guards:
  assumes "cli_start safe_load policy_file allow_remote dir s = (out, err, Inr s')"
  shows "chosen_policy safe_load policy_file = Inr (ds_policy s')" "s'\<lparr>ds_policy := ds_policy s\<rparr> = s"
    "remote_nbd (ds_nbd_host s') \<Longrightarrow> allow_remote \<and> err \<noteq> []"
    "\<not> containment_enabled (ds_policy s') \<Longrightarrow> containment_warning \<in> set err"
  using assms by (auto simp: cli_start_def Let_def split: sum.splits if_splits)

text \<open>A policy file sets only the fields it names; every other field has its default.\<close>

definition sets_only :: "string set \<Rightarrow> policy_config \<Rightarrow> policy_config \<Rightarrow> bool" where
  "sets_only K c c' \<longleftrightarrow> K \<subseteq> set policy_fields \<and>
     (''minimum_operations'' \<notin> K \<longrightarrow> minimum_operations c' = minimum_operations c) \<and>
     (''alert_threshold'' \<notin> K \<longrightarrow> alert_threshold c' = alert_threshold c) \<and>
     (''containment_threshold'' \<notin> K \<longrightarrow> containment_threshold c' = containment_threshold c) \<and>
     (''containment_enabled'' \<notin> K \<longrightarrow> containment_enabled c' = containment_enabled c) \<and>
     (''weights'' \<notin> K \<longrightarrow> weights c' = weights c)"

lemma sets_only_trans: "sets_only K c c' \<Longrightarrow> sets_only K' c' c'' \<Longrightarrow> sets_only (K \<union> K') c c''"
  by (simp add: sets_only_def)

lemma set_field_only:
  assumes "set_field (k, v) c = Inr c'"
  shows "sets_only {k} c c'"
proof -
  consider "k = ''minimum_operations''" | "k = ''alert_threshold''" | "k = ''containment_threshold''" | "k = ''containment_enabled''"
    | "k = ''weights''" using assms by (auto split: if_splits)
  then show ?thesis
    using assms by (cases; auto simp: sets_only_def policy_fields_def bind_res_def split: yaml.splits sum.splits)
qed

lemma set_fields_only: "set_fields m c = Inr c' \<Longrightarrow> sets_only (set (keys m)) c c'"
proof (induction m arbitrary: c)
  case (Cons kv m)
  obtain k v where kv: "kv = (k, v)" by fastforce
  obtain c1 where "set_field (k, v) c = Inr c1" "set_fields m c1 = Inr c'"
    using Cons.prems unfolding kv by (cases "set_field (k, v) c") (auto simp: bind_res_def simp del: set_field.simps)
  then show ?case using sets_only_trans [OF set_field_only Cons.IH] by (simp add: kv)
qed (simp add: sets_only_def)

theorem load_policy_defaults:
  assumes "safe_load t = Inr (YMap doc)" "load_policy safe_load t = Inr c"
  shows "case map_of doc ''policy'' of None \<Rightarrow> c = default_policy | Some p \<Rightarrow> \<exists>m. p = YMap m \<and> sets_only (set (keys m)) default_policy c"
proof (cases "map_of doc ''policy''")
  case None
  then show ?thesis using assms by (cases "doc = []") (simp_all add: load_policy_def bind_res_def)
next
  case (Some p)
  then obtain m where m: "p = YMap m" "set_fields m default_policy = Inr c"
    using assms by (cases p) (auto simp: load_policy_def bind_res_def Let_def split: if_splits)
  then show ?thesis using Some set_fields_only [OF m(2)] by simp
qed


end
