(* ===== verification/Replay_Spec.thy ===== *)
theory Replay_Spec
  imports Cli_Spec Benchmark_Spec
begin

text \<open>
  Traces from the generator to the engine: the file that \<^verbatim>\<open>generate-trace\<close> writes is read back as the requests
  that were generated, and \<^verbatim>\<open>replay\<close> performs them in order until the policy contains the device.
\<close>

section \<open>Traces\<close>



fun writes_in :: "(int \<times> bytes option) list \<Rightarrow> jwrite list" where
  "writes_in [] = []"
| "writes_in ((lba, None) # rs) = writes_in rs"
| "writes_in ((lba, Some payload) # rs) = (lba, payload) # writes_in rs"



lemma writes_in_append [simp]: "writes_in (rs @ rs') = writes_in rs @ writes_in rs'"
  by (induction rs rule: writes_in.induct) simp_all



subsection \<open>What was written is what is read\<close>









subsection \<open>Replaying\<close>














end
