(* ===== verification/Keys.thy ===== *)
theory Keys
  imports Cli_Spec
begin

text \<open>
  Keys in files (\<^verbatim>\<open>generate_keypair\<close>, the key loading of \<^verbatim>\<open>sign_authorization\<close> and \<^verbatim>\<open>TokenVerifier.__init__\<close> of
  \<^verbatim>\<open>core/tokens.py\<close>; \<^verbatim>\<open>keygen\<close> and the key argument of \<^verbatim>\<open>issue-token\<close> in \<^verbatim>\<open>cli/main.py\<close>). The package
  \<^verbatim>\<open>cryptography\<close> is a parameter: a record of its functions. What the program relies on is the hypotheses of
  C37: a key written as PEM loads as the same key, and a key verifies its own signatures.
\<close>

section \<open>The key functions\<close>

datatype 'k pem_key = Ed25519_Key 'k | Other_Key

record ('sk, 'pk) crypto =
  private_bytes :: "'sk \<Rightarrow> bytes"
  public_key :: "'sk \<Rightarrow> 'pk"
  public_bytes :: "'pk \<Rightarrow> bytes"
  load_pem_private_key :: "bytes \<Rightarrow> 'sk pem_key res"
  load_pem_public_key :: "bytes \<Rightarrow> 'pk pem_key res"
  key_sign :: "'sk \<Rightarrow> bytes \<Rightarrow> bytes"
  key_verify :: "'pk \<Rightarrow> bytes \<Rightarrow> bytes \<Rightarrow> bool"


definition load_signer :: "('sk, 'pk) crypto \<Rightarrow> bytes \<Rightarrow> (bytes \<Rightarrow> bytes) res" where
  "load_signer c pem =
     bind_res (load_pem_private_key c pem) (\<lambda>k. case k of
       Ed25519_Key sk \<Rightarrow> Inr (key_sign c sk)
     | Other_Key \<Rightarrow> Inl (TypeError ''expected an Ed25519 private key''))"

definition sign_authorization_pem :: "('sk, 'pk) crypto \<Rightarrow> recovery_authorization \<Rightarrow> bytes \<Rightarrow> string res" where
  "sign_authorization_pem c a private_pem = bind_res (load_signer c private_pem) (\<lambda>sign. Inr (sign_authorization sign a))"

definition new_verifier :: "('sk, 'pk) crypto \<Rightarrow> bytes \<Rightarrow> (bytes \<Rightarrow> bytes \<Rightarrow> bool) res" where
  "new_verifier c public_pem =
     bind_res (load_pem_public_key c public_pem) (\<lambda>k. case k of
       Ed25519_Key pk \<Rightarrow> Inr (key_verify c pk)
     | Other_Key \<Rightarrow> Inl (TypeError ''expected an Ed25519 public key''))"

section \<open>The commands\<close>


text \<open>The namespace is there; a missing key file is refused by the argument's type before the command runs.\<close>

definition cli_issue_token_file ::
  "('sk, 'pk) crypto \<Rightarrow> (string \<Rightarrow> bytes option) \<Rightarrow> string \<Rightarrow> ns \<Rightarrow> (string \<times> ns option) list \<Rightarrow>
     int \<Rightarrow> int option \<Rightarrow> int \<Rightarrow> string \<Rightarrow> int \<Rightarrow> string \<Rightarrow> string cli" where
  "cli_issue_token_file c files private_key fs snaps state_version target_sequence ttl action now nonce =
     (case files private_key of
        None \<Rightarrow> ([], [''path does not exist''], Inl (System_Exit 2))
      | Some pem \<Rightarrow>
          if 900 < ttl then ([], [''[error] TTL cannot exceed 900 seconds.''], Inl (System_Exit 1))
          else (case open_journal fs snaps of
              Inl x \<Rightarrow> ([], [], Inl (Uncaught x))
            | Inr j \<Rightarrow>
                (case sign_authorization_pem c (issued_authorization j state_version target_sequence ttl action now nonce) pem of
                   Inl x \<Rightarrow> ([], [], Inl (Uncaught x))
                 | Inr token \<Rightarrow> ([token], [], Inr token))))"


text \<open>A file with a key of another kind: no token is issued, and a daemon with such a public key answers no token and changes nothing.\<close>

lemma other_key_refused:
  assumes "files private_key = Some pem" "load_pem_private_key c pem = Inr Other_Key" "ttl \<le> 900" "open_journal fs snaps = Inr j"
  shows "cli_issue_token_file c files private_key fs snaps sv tgt ttl action now nonce =
    ([], [], Inl (Uncaught (TypeError ''expected an Ed25519 private key'')))"
  using assms by (simp add: cli_issue_token_file_def sign_authorization_pem_def load_signer_def)

lemma other_public_key_silent:
  assumes "load_pem_public_key c pem = Inr Other_Key"
  shows "socket_authorize (new_verifier c) (Some pem) token e = (Inl (TypeError ''expected an Ed25519 public key''), e)"
    "socket_enter_maintenance (new_verifier c) (Some pem) token e = (Inl (TypeError ''expected an Ed25519 public key''), e)"
  using assms
  by (simp_all add: socket_authorize_def socket_enter_maintenance_def try_reply_def with_verifier_def new_verifier_def token_errors_def)

section \<open>From the key pair to the redeemed token\<close>




end
