(* ===== verification/Cli_Options.thy ===== *)
theory Cli_Options
  imports Keys
begin

text \<open>
  The options of the commands as \<^verbatim>\<open>cli/main.py\<close> declares them: names, defaults and choices. The package
  \<^verbatim>\<open>click\<close>, which reads the command line and the environment, is a parameter: \<open>given\<close> maps an option to the value
  that it found there, or to \<open>None\<close>; then the declared default is taken.
\<close>

datatype option_value = Text_Value string | Int_Value int | Flag_Value bool

type_synonym given = "string \<Rightarrow> option_value option"

definition text_option :: "given \<Rightarrow> string \<Rightarrow> string \<Rightarrow> string" where
  "text_option given name dflt = (case given name of Some (Text_Value t) \<Rightarrow> t | _ \<Rightarrow> dflt)"

definition optional_text :: "given \<Rightarrow> string \<Rightarrow> string option" where
  "optional_text given name = (case given name of Some (Text_Value t) \<Rightarrow> Some t | _ \<Rightarrow> None)"

definition int_option :: "given \<Rightarrow> string \<Rightarrow> int \<Rightarrow> int" where
  "int_option given name dflt = (case given name of Some (Int_Value i) \<Rightarrow> i | _ \<Rightarrow> dflt)"

definition optional_int :: "given \<Rightarrow> string \<Rightarrow> int option" where
  "optional_int given name = (case given name of Some (Int_Value i) \<Rightarrow> Some i | _ \<Rightarrow> None)"

definition flag_option :: "given \<Rightarrow> string \<Rightarrow> bool" where
  "flag_option given name = (given name = Some (Flag_Value True))"

text \<open>A required option that is missing, or a choice outside the list, is a usage error: \<open>None\<close>.\<close>

definition choice_option :: "given \<Rightarrow> string \<Rightarrow> string list \<Rightarrow> string option \<Rightarrow> string option" where
  "choice_option given name choices dflt =
     (case given name of Some (Text_Value t) \<Rightarrow> if t \<in> set choices then Some t else None | _ \<Rightarrow> dflt)"

section \<open>provision\<close>

definition provision_options :: "given \<Rightarrow> (int \<times> int \<times> string option) option" where
  "provision_options given =
     map_option (\<lambda>nblocks. (nblocks, int_option given ''--block-size'' 4096, optional_text given ''--device-id'')) (optional_int given ''--blocks'')"

section \<open>start\<close>

definition start_options :: "given \<Rightarrow> daemon_settings" where
  "start_options given =
     \<lparr>ds_host = text_option given ''--host'' ''0.0.0.0'', ds_port = int_option given ''--port'' 8443,
      ds_blocks = int_option given ''--blocks'' 65536, ds_policy = default_policy,
      ds_nbd_host = optional_text given ''--nbd-host'', ds_nbd_port = int_option given ''--nbd-port'' 10809,
      ds_nbd_export = text_option given ''--nbd-export'' ''aegis''\<rparr>"

definition start_command :: "(string \<Rightarrow> yaml res) \<Rightarrow> (string \<Rightarrow> string option) \<Rightarrow> given \<Rightarrow> string \<Rightarrow> daemon_settings cli" where
  "start_command safe_load read_file given dir =
     cli_start safe_load (case optional_text given ''--policy-config'' of None \<Rightarrow> None | Some path \<Rightarrow> read_file path)
       (flag_option given ''--nbd-allow-remote'') dir (start_options given)"

text \<open>
  The export without authentication is served beyond the host only by an explicit choice: a start that
  succeeds has no NBD host, a loopback one, or was given both the host and the permission.
\<close>

theorem remote_nbd_explicit:
  assumes "start_command safe_load read_file given dir = (out, err, Inr s)"
  shows "ds_nbd_host s = None \<or> (\<exists>h. ds_nbd_host s = Some h \<and> h \<in> set loopback) \<or>
    (\<exists>h. given ''--nbd-host'' = Some (Text_Value h) \<and> ds_nbd_host s = Some h \<and> given ''--nbd-allow-remote'' = Some (Flag_Value True) \<and>
       ''[warning] NBD is bound to '' @ py_repr h @ '' with no authentication or TLS.'' \<in> set err)"
proof -
  have h: "optional_text given ''--nbd-host'' = Some x \<Longrightarrow> given ''--nbd-host'' = Some (Text_Value x)" for x
    by (auto simp: optional_text_def split: option.splits option_value.splits)
  show ?thesis
    using assms h by (auto simp: start_command_def cli_start_def start_options_def remote_nbd_def flag_option_def Let_def
        split: sum.splits if_splits option.splits)
qed

text \<open>Without options nothing is refused, and no NBD export is served.\<close>

lemma default_start: "start_command safe_load read_file Map.empty dir =
    ([''Starting Aegis Shield on '' @ ''0.0.0.0'' @ '':'' @ show_int 8443 @ '' - namespace '' @ dir], [], Inr (start_options Map.empty))"
  by (simp add: start_command_def cli_start_def start_options_def optional_text_def text_option_def int_option_def flag_option_def remote_nbd_def
      chosen_policy_def default_policy_def Let_def)

section \<open>issue-token\<close>

definition issue_token_options :: "given \<Rightarrow> (int \<times> int option \<times> int \<times> string) option" where
  "issue_token_options given =
     (case (optional_int given ''--state-version'',
            choice_option given ''--action'' [''enter_recovery_read_only'', ''enter_maintenance''] (Some ''enter_recovery_read_only'')) of
        (Some sv, Some action) \<Rightarrow> Some (sv, optional_int given ''--target-sequence'', int_option given ''--ttl-seconds'' 600, action)
      | _ \<Rightarrow> None)"

text \<open>The actions that can be asked for are those a challenge can be issued for, and the default lifetime is within the limit.\<close>

lemma issue_token_options_sound:
  assumes "issue_token_options given = Some (sv, tgt, ttl, action)"
  shows "action = ''enter_recovery_read_only'' \<or> action = ''enter_maintenance''" "given ''--ttl-seconds'' = None \<Longrightarrow> ttl = 600"
  using assms by (auto simp: issue_token_options_def choice_option_def int_option_def split: option.splits option_value.splits if_splits)

section \<open>generate-trace, replay, benchmark\<close>

definition generate_trace_options :: "given \<Rightarrow> (string \<times> int \<times> int \<times> int \<times> int) option" where
  "generate_trace_options given =
     map_option (\<lambda>pattern. (pattern, int_option given ''--blocks'' 256, int_option given ''--block-size'' 4096,
         int_option given ''--operations'' 64, int_option given ''--seed'' 1))
       (choice_option given ''--pattern'' [''sequential_text'', ''high_entropy_append'', ''broad_overwrite'', ''low_and_slow''] None)"

definition replay_options :: "given \<Rightarrow> string option" where
  "replay_options given = optional_text given ''--policy-config''"

definition benchmark_options :: "given \<Rightarrow> string option \<times> int \<times> int" where
  "benchmark_options given = (optional_text given ''--policy-config'', int_option given ''--seeds'' 12, int_option given ''--blocks'' 512)"

end
