(* ===== verification/Durable_Store.thy ===== *)
theory Durable_Store
  imports Prelude "HOL-Library.Sublist"
begin

text \<open>
  Files between the page cache and the disk. The program calls the operating system to create, write,
  truncate, rename and \<open>fsync\<close> files and directories (\<^verbatim>\<open>_atomic_write\<close> and \<^verbatim>\<open>_fsync_directory\<close> of
  \<^verbatim>\<open>core/journal.py\<close>, \<^verbatim>\<open>_atomic_write_json\<close> of \<^verbatim>\<open>core/engine.py\<close>). This theory models these calls with what POSIX
  promises of them: what a power cut leaves is known only as far as it was synchronised. The locale
  \<open>ordered_store\<close> is the contract on which the journal's files rest.
\<close>

section \<open>Files, directories and calls\<close>

text \<open>
  A directory, named by its path below the namespace, has a history of contents, the present one last;
  the disk holds one of them. Renaming inside a directory is one step of its history. A file has the
  bytes that a reader sees and the bytes that were last synchronised.
\<close>

datatype node = Plain nat | Folder

record store =
  dir_states :: "string list \<Rightarrow> (string \<Rightarrow> node option) list"
  seen_bytes :: "nat \<Rightarrow> bytes"
  disk_bytes :: "nat \<Rightarrow> bytes"
  next_inode :: nat

datatype sys_call =
    Create "string list" string
  | Append_To "string list" string bytes
  | Cut "string list" string nat
  | Sync "string list" string
  | Rename "string list" string string
  | Sync_Dir "string list"
  | Mkdir "string list" string

definition present :: "store \<Rightarrow> string list \<Rightarrow> string \<Rightarrow> node option" where
  "present s d = last (dir_states s d)"

definition put_dir :: "string list \<Rightarrow> (string \<Rightarrow> node option) \<Rightarrow> store \<Rightarrow> store" where
  "put_dir d m s = s\<lparr>dir_states := (dir_states s)(d := dir_states s d @ [m])\<rparr>"

text \<open>\<open>open(path, "wb")\<close> empties a file that is there and makes a new one otherwise; the other calls are on files that are there.\<close>

definition on_file :: "(nat \<Rightarrow> store \<Rightarrow> store) \<Rightarrow> string list \<Rightarrow> string \<Rightarrow> store \<Rightarrow> store" where
  "on_file f d n s = (case present s d n of Some (Plain i) \<Rightarrow> f i s | _ \<Rightarrow> s)"

fun sys :: "sys_call \<Rightarrow> store \<Rightarrow> store" where
  "sys (Create d n) s =
     (case present s d n of
        Some (Plain i) \<Rightarrow> s\<lparr>seen_bytes := (seen_bytes s)(i := [])\<rparr>
      | _ \<Rightarrow> put_dir d ((present s d)(n \<mapsto> Plain (next_inode s)))
               (s\<lparr>seen_bytes := (seen_bytes s)(next_inode s := []), disk_bytes := (disk_bytes s)(next_inode s := []), next_inode := Suc (next_inode s)\<rparr>))"
| "sys (Append_To d n b) s = on_file (\<lambda>i s. s\<lparr>seen_bytes := (seen_bytes s)(i := seen_bytes s i @ b)\<rparr>) d n s"
| "sys (Cut d n k) s = on_file (\<lambda>i s. s\<lparr>seen_bytes := (seen_bytes s)(i := take k (seen_bytes s i))\<rparr>) d n s"
| "sys (Sync d n) s = on_file (\<lambda>i s. s\<lparr>disk_bytes := (disk_bytes s)(i := seen_bytes s i)\<rparr>) d n s"
| "sys (Rename d n n') s = on_file (\<lambda>i s. put_dir d ((present s d)(n' \<mapsto> Plain i, n := None)) s) d n s"
| "sys (Sync_Dir d) s = s\<lparr>dir_states := (dir_states s)(d := [present s d])\<rparr>"
| "sys (Mkdir d n) s =
     (if present s d n = None
      then (put_dir d ((present s d)(n \<mapsto> Folder)) s)\<lparr>dir_states := (dir_states (put_dir d ((present s d)(n \<mapsto> Folder)) s))(d @ [n] := [Map.empty])\<rparr>
      else s)"

definition sys_all :: "sys_call list \<Rightarrow> store \<Rightarrow> store" where
  "sys_all cs s = foldl (\<lambda>s c. sys c s) s cs"

lemma sys_all_simps [simp]: "sys_all [] s = s" "sys_all (c # cs) s = sys_all cs (sys c s)"
  "sys_all (cs @ cs') s = sys_all cs' (sys_all cs s)"
  by (simp_all add: sys_all_def)

section \<open>Power cuts\<close>

text \<open>
  The bytes of a file after a power cut: those seen last, or, if they were not synchronised, a part of
  what was added to the synchronised ones or cut from them; of a file that was changed otherwise nothing
  is known.
\<close>

definition torn :: "bytes \<Rightarrow> bytes \<Rightarrow> bytes \<Rightarrow> bool" where
  "torn old new b \<longleftrightarrow> b = new \<or> old \<noteq> new \<and> (prefix old new \<longrightarrow> prefix old b \<and> prefix b new) \<and>
     (prefix new old \<longrightarrow> prefix new b \<and> prefix b old)"

definition there :: "(string list \<Rightarrow> string \<Rightarrow> node option) \<Rightarrow> string list \<Rightarrow> bool" where
  "there pick d \<longleftrightarrow> (\<forall>k < length d. pick (take k d) (d ! k) = Some Folder)"

definition found :: "(string list \<Rightarrow> string \<Rightarrow> node option) \<Rightarrow> (nat \<Rightarrow> bytes) \<Rightarrow> string list \<Rightarrow> string \<Rightarrow> bytes option" where
  "found pick content d n =
     (if there pick d then (case pick d n of Some (Plain i) \<Rightarrow> Some (content i) | _ \<Rightarrow> None) else None)"

definition crashed :: "store \<Rightarrow> (string list \<Rightarrow> string \<Rightarrow> bytes option) \<Rightarrow> bool" where
  "crashed s v \<longleftrightarrow>
     (\<exists>pick content. (\<forall>d. pick d \<in> set (dir_states s d)) \<and> (\<forall>i. torn (disk_bytes s i) (seen_bytes s i) (content i)) \<and> v = found pick content)"

section \<open>Writing a file as a whole\<close>

text \<open>\<open>path.with_suffix(path.suffix + ".new")\<close>, in the directory of the file.\<close>

definition temporary :: "string \<Rightarrow> string" where
  "temporary n = n @ ''.new''"

definition fsync_directory :: "string list \<Rightarrow> sys_call list" where
  "fsync_directory d = [Sync_Dir d]"

definition replace_file :: "string list \<Rightarrow> string \<Rightarrow> bytes list \<Rightarrow> sys_call list" where
  "replace_file d n chunks =
     Create d (temporary n) # map (Append_To d (temporary n)) chunks @
     [Sync d (temporary n), Rename d (temporary n) n] @ fsync_directory d"

definition atomic_write :: "string list \<Rightarrow> string \<Rightarrow> bytes \<Rightarrow> sys_call list" where
  "atomic_write d n payload = replace_file d n [payload]"

section \<open>The contract of an ordered store\<close>

text \<open>
  Changes of a store, each a list of calls. \<open>settled s u\<close>: whatever a power cut does, the files are \<open>u\<close>. A power
  cut inside a change leaves something \<open>between\<close>; a change that has ended is settled. Then a power cut inside
  a sequence of changes leaves the effects of the first of them and something between of the next.
\<close>

locale ordered_store =
  fixes perform :: "'c list \<Rightarrow> 's \<Rightarrow> 's" and outcome :: "'s \<Rightarrow> 'u \<Rightarrow> bool" and settled :: "'s \<Rightarrow> 'u \<Rightarrow> bool"
    and calls :: "'o \<Rightarrow> 'c list" and fits :: "'o \<Rightarrow> 'u \<Rightarrow> bool" and between :: "'o \<Rightarrow> 'u \<Rightarrow> 'u \<Rightarrow> bool" and effect :: "'o \<Rightarrow> 'u \<Rightarrow> 'u"
  assumes perform_append: "perform (cs @ cs') s = perform cs' (perform cs s)"
    and perform_Nil: "perform [] s = s"
    and settled_only: "settled s u \<Longrightarrow> outcome s u' \<Longrightarrow> u' = u"
    and cut_short: "settled s u \<Longrightarrow> fits x u \<Longrightarrow> outcome (perform (take k (calls x)) s) u' \<Longrightarrow> between x u u'"
    and completed: "settled s u \<Longrightarrow> fits x u \<Longrightarrow> settled (perform (calls x) s) (effect x u)"
begin

fun fit_all :: "'o list \<Rightarrow> 'u \<Rightarrow> bool" where
  "fit_all [] u = True"
| "fit_all (x # xs) u = (fits x u \<and> fit_all xs (effect x u))"

lemma all_completed: "settled s u \<Longrightarrow> fit_all xs u \<Longrightarrow> settled (perform (concat (map calls xs)) s) (fold effect xs u)"
  by (induction xs arbitrary: s u) (simp_all add: perform_append perform_Nil completed)

lemma sequence_cut:
  assumes "settled s u" "fit_all xs u" "outcome (perform (take k (concat (map calls xs))) s) u'"
  shows "u' = fold effect xs u \<or> (\<exists>before x after. xs = before @ x # after \<and> between x (fold effect before u) u')"
  using assms
proof (induction xs arbitrary: s u k)
  case Nil
  then show ?case using settled_only by (simp add: perform_Nil)
next
  case (Cons x xs)
  show ?case
  proof (cases "k \<le> length (calls x)")
    case True
    then have "between x u u'" using Cons.prems cut_short by simp
    then show ?thesis by (intro disjI2 exI [of _ "[]"] exI [of _ x] exI [of _ xs]) simp
  next
    case False
    let ?s = "perform (calls x) s"
    have "outcome (perform (take (k - length (calls x)) (concat (map calls xs))) ?s) u'"
      using Cons.prems(3) False by (simp add: perform_append)
    then have "u' = fold effect xs (effect x u) \<or>
        (\<exists>before x' after. xs = before @ x' # after \<and> between x' (fold effect before (effect x u)) u')"
      using Cons.prems completed by (intro Cons.IH [of ?s "effect x u" "k - length (calls x)"]) simp_all
    then show ?thesis
    proof (elim disjE exE conjE)
      fix before x' after
      assume "xs = before @ x' # after" "between x' (fold effect before (effect x u)) u'"
      then show ?thesis by (intro disjI2 exI [of _ "x # before"] exI [of _ x'] exI [of _ after]) simp
    qed simp
  qed
qed

end

section \<open>Files of the namespace directory\<close>

definition plain :: "(string \<Rightarrow> node option) \<Rightarrow> string \<Rightarrow> nat option" where
  "plain m x = (case m x of Some (Plain i) \<Rightarrow> Some i | _ \<Rightarrow> None)"

lemma plain_simps [simp]: "plain (m(x \<mapsto> Plain i)) = (plain m)(x \<mapsto> i)" "plain (m(x := None)) = (plain m)(x := None)"
  "m x = None \<Longrightarrow> plain (m(x \<mapsto> Folder)) = plain m"
  by (auto simp: plain_def fun_eq_iff)

lemma plain_Some: "plain m x = Some i \<longleftrightarrow> m x = Some (Plain i)"
  by (auto simp: plain_def split: option.splits node.splits)

text \<open>The files with a name in \<open>K\<close> after a power cut.\<close>

definition after_cut :: "string set \<Rightarrow> store \<Rightarrow> (string \<Rightarrow> bytes option) \<Rightarrow> bool" where
  "after_cut K s u \<longleftrightarrow> (\<exists>v. crashed s v \<and> u = (\<lambda>x. if x \<in> K then v [] x else None))"

lemma after_cutE:
  assumes "after_cut K s u"
  obtains m content where "m \<in> set (dir_states s [])" "\<And>i. torn (disk_bytes s i) (seen_bytes s i) (content i)"
    "u = (\<lambda>x. if x \<in> K then map_option content (plain m x) else None)"
proof -
  obtain pick content where p: "\<And>d. pick d \<in> set (dir_states s d)" "\<And>i. torn (disk_bytes s i) (seen_bytes s i) (content i)"
    "u = (\<lambda>x. if x \<in> K then found pick content [] x else None)"
    using assms by (auto simp: after_cut_def crashed_def)
  then show thesis
    by (intro that [of "pick []" content])
      (auto simp: found_def there_def plain_def fun_eq_iff split: option.splits node.splits)
qed

lemma after_cut_exists: "(\<And>d. dir_states s d \<noteq> []) \<Longrightarrow> \<exists>u. after_cut K s u"
  unfolding after_cut_def crashed_def
  by (intro exI [of _ "\<lambda>x. if x \<in> K then found (\<lambda>d. last (dir_states s d)) (seen_bytes s) [] x else None"]
      exI [of _ "found (\<lambda>d. last (dir_states s d)) (seen_bytes s)"] conjI exI [of _ "\<lambda>d. last (dir_states s d)"] exI [of _ "seen_bytes s"]) (simp_all add: torn_def)

text \<open>
  The names in \<open>K\<close>, and those of their temporary files, are the same in every state the directory may
  have on disk, no two of them are one file, and what is in the files named in \<open>K\<close> is on disk.
\<close>

definition tracked :: "string set \<Rightarrow> string set" where
  "tracked K = K \<union> temporary ` K"

definition apart :: "string set \<Rightarrow> store \<Rightarrow> (string \<Rightarrow> nat option) \<Rightarrow> bool" where
  "apart K s e \<longleftrightarrow> (\<forall>d. dir_states s d \<noteq> []) \<and>
     (\<forall>x \<in> tracked K. \<forall>y \<in> tracked K. x \<noteq> y \<longrightarrow> e x = e y \<longrightarrow> e x = None) \<and> (\<forall>x \<in> tracked K. \<forall>i. e x = Some i \<longrightarrow> i < next_inode s) \<and>
     (\<forall>d. d \<noteq> [] \<longrightarrow> (\<forall>m \<in> set (dir_states s d). \<forall>n i. m n = Some (Plain i) \<longrightarrow> i < next_inode s \<and> (\<forall>x \<in> tracked K. e x \<noteq> Some i)))"

definition entries :: "string set \<Rightarrow> store \<Rightarrow> (string \<Rightarrow> nat option) \<Rightarrow> bool" where
  "entries K s e \<longleftrightarrow> apart K s e \<and> (\<forall>m \<in> set (dir_states s []). \<forall>x \<in> tracked K. plain m x = e x)"

definition settled :: "string set \<Rightarrow> store \<Rightarrow> (string \<Rightarrow> bytes option) \<Rightarrow> bool" where
  "settled K s u \<longleftrightarrow>
     (\<exists>e. entries K s e \<and> (\<forall>x \<in> K. \<forall>i. e x = Some i \<longrightarrow> disk_bytes s i = seen_bytes s i) \<and>
        u = (\<lambda>x. if x \<in> K then map_option (seen_bytes s) (e x) else None))"

lemma torn_same [simp]: "torn b b c \<longleftrightarrow> c = b"
  by (simp add: torn_def)

lemma settled_after_cut:
  assumes "settled K s u" "after_cut K s u'"
  shows "u' = u"
proof -
  obtain e where e: "entries K s e" "\<And>x i. x \<in> K \<Longrightarrow> e x = Some i \<Longrightarrow> disk_bytes s i = seen_bytes s i"
    "u = (\<lambda>x. if x \<in> K then map_option (seen_bytes s) (e x) else None)"
    using assms(1) by (auto simp: settled_def)
  obtain m content where m: "m \<in> set (dir_states s [])" "\<And>i. torn (disk_bytes s i) (seen_bytes s i) (content i)"
    "u' = (\<lambda>x. if x \<in> K then map_option content (plain m x) else None)" using assms(2) by (rule after_cutE) blast
  have "map_option content (plain m x) = map_option (seen_bytes s) (e x)" if "x \<in> K" for x
  proof -
    have "plain m x = e x" using e(1) m(1) that by (simp add: entries_def tracked_def)
    moreover have "content i = seen_bytes s i" if "e x = Some i" for i using m(2) [of i] e(2) [OF \<open>x \<in> K\<close> that] by simp
    ultimately show ?thesis by (cases "e x") simp_all
  qed
  then show ?thesis by (simp add: e(3) m(3) fun_eq_iff)
qed


section \<open>Changes of the namespace directory\<close>

text \<open>
  A file written as a whole, a file extended and synchronised (\<open>append\<close>), a file cut and synchronised
  (\<open>_discard_torn_tail\<close>), and calls that act in other directories (\<open>snapshot\<close>).
\<close>

datatype change = Replace string "bytes list" | Extend string bytes | Shorten string nat | Aside "sys_call list"

fun elsewhere :: "sys_call \<Rightarrow> bool" where
  "elsewhere (Create d n) = (d \<noteq> [])"
| "elsewhere (Append_To d n b) = (d \<noteq> [])"
| "elsewhere (Cut d n k) = (d \<noteq> [])"
| "elsewhere (Sync d n) = (d \<noteq> [])"
| "elsewhere (Rename d n n') = (d \<noteq> [])"
| "elsewhere (Sync_Dir d) = True"
| "elsewhere (Mkdir d n) = True"

fun calls_of :: "change \<Rightarrow> sys_call list" where
  "calls_of (Replace n chunks) = replace_file [] n chunks"
| "calls_of (Extend n b) = [Append_To [] n b, Sync [] n]"
| "calls_of (Shorten n k) = [Cut [] n k, Sync [] n] @ fsync_directory []"
| "calls_of (Aside cs) = cs"

fun fits :: "string set \<Rightarrow> change \<Rightarrow> (string \<Rightarrow> bytes option) \<Rightarrow> bool" where
  "fits K (Replace n chunks) u = (n \<in> K \<and> K \<inter> temporary ` K = {})"
| "fits K (Extend n b) u = (n \<in> K \<and> u n \<noteq> None)"
| "fits K (Shorten n k) u = (n \<in> K \<and> u n \<noteq> None)"
| "fits K (Aside cs) u = list_all elsewhere cs"

fun effect :: "change \<Rightarrow> (string \<Rightarrow> bytes option) \<Rightarrow> (string \<Rightarrow> bytes option)" where
  "effect (Replace n chunks) u = u(n \<mapsto> concat chunks)"
| "effect (Extend n b) u = u(n := map_option (\<lambda>old. old @ b) (u n))"
| "effect (Shorten n k) u = u(n := map_option (take k) (u n))"
| "effect (Aside cs) u = u"

fun between :: "change \<Rightarrow> (string \<Rightarrow> bytes option) \<Rightarrow> (string \<Rightarrow> bytes option) \<Rightarrow> bool" where
  "between (Replace n chunks) u u' = (u' = u \<or> u' = u(n \<mapsto> concat chunks))"
| "between (Extend n b) u u' = (\<exists>k. u' = u(n := map_option (\<lambda>old. old @ take k b) (u n)))"
| "between (Shorten n k) u u' = (\<exists>j \<ge> k. u' = u(n := map_option (take j) (u n)))"
| "between (Aside cs) u u' = (u' = u)"

subsection \<open>Calls on one file\<close>

lemma present_in: "dir_states s d \<noteq> [] \<Longrightarrow> present s d \<in> set (dir_states s d)"
  by (simp add: present_def)

lemma entries_present:
  assumes "entries K s e" "x \<in> tracked K"
  shows "plain (present s []) x = e x"
  using assms present_in [of s "[]"] by (simp add: entries_def apart_def)

lemma apart_distinct:
  assumes "apart K s e" "x \<in> tracked K" "y \<in> tracked K" "e y = Some i" "x \<noteq> y"
  shows "e x \<noteq> Some i"
proof -
  have "e x = e y \<Longrightarrow> e x = None" using assms(1-3,5) unfolding apart_def by simp
  then show ?thesis using assms(4) by auto
qed

lemma entries_distinct:
  assumes "entries K s e" "x \<in> tracked K" "y \<in> tracked K" "e y = Some i" "x \<noteq> y"
  shows "e x \<noteq> Some i"
proof -
  have "apart K s e" using assms(1) unfolding entries_def ..
  then show ?thesis using assms(2-) by (rule apart_distinct)
qed

lemma on_file_entry:
  assumes "entries K s e" "x \<in> tracked K" "e x = Some i"
  shows "on_file f [] x s = f i s"
  using entries_present [OF assms(1,2)] assms(3) by (simp add: on_file_def plain_Some)

lemma entries_sub:
  assumes "entries K s e" "\<And>d. set (dir_states s' d) \<subseteq> set (dir_states s d)" "\<And>d. dir_states s' d \<noteq> []" "next_inode s' = next_inode s"
  shows "entries K s' e"
  using assms unfolding entries_def apart_def assms(4) by (meson subsetD)

lemma settledE:
  assumes "settled K s u"
  obtains e where "entries K s e" "\<And>x i. x \<in> K \<Longrightarrow> e x = Some i \<Longrightarrow> disk_bytes s i = seen_bytes s i"
    "u = (\<lambda>x. if x \<in> K then map_option (seen_bytes s) (e x) else None)"
  using assms unfolding settled_def by blast

text \<open>Changing the bytes of the file \<open>i\<close> behind the name \<open>n\<close>.\<close>

lemma file_changed:
  assumes e: "entries K s e" "\<And>x i. x \<in> K \<Longrightarrow> e x = Some i \<Longrightarrow> disk_bytes s i = seen_bytes s i"
    "u = (\<lambda>x. if x \<in> K then map_option (seen_bytes s) (e x) else None)"
    and n: "n \<in> K" "e n = Some i"
    and s': "dir_states s' = dir_states s" "seen_bytes s' = (seen_bytes s)(i := b)" "disk_bytes s' = (disk_bytes s)(i := old)" "next_inode s' = next_inode s"
    and u': "after_cut K s' u'"
  shows "\<exists>c. torn old b c \<and> u' = u(n \<mapsto> c)"
proof -
  obtain m content where m: "m \<in> set (dir_states s' [])" "\<And>i. torn (disk_bytes s' i) (seen_bytes s' i) (content i)"
    "u' = (\<lambda>x. if x \<in> K then map_option content (plain m x) else None)" using u' by (rule after_cutE) blast
  have same: "plain m x = e x" if "x \<in> K" for x using e(1) m(1) that s'(1) by (simp add: entries_def tracked_def)
  have other: "e x \<noteq> Some i" if "x \<in> K" "x \<noteq> n" for x using entries_distinct [OF e(1) _ _ n(2)] n(1) that by (auto simp: tracked_def)
  have "content j = seen_bytes s j" if "e x = Some j" "x \<in> K" "x \<noteq> n" for x j
    using m(2) [of j] e(2) [OF that(2,1)] other [OF that(2,3)] that(1) by (simp add: s')
  then have "u' x = (u(n \<mapsto> content i)) x" for x
    using same [of x] n e(3) m(3) by (cases "x = n"; cases "e x") auto
  then have "u' = u(n \<mapsto> content i)" by blast
  moreover have "torn old b (content i)" using m(2) [of i] by (simp add: s')
  ultimately show ?thesis by blast
qed

lemma file_settled:
  assumes e: "entries K s e" "\<And>x i. x \<in> K \<Longrightarrow> e x = Some i \<Longrightarrow> disk_bytes s i = seen_bytes s i"
    "u = (\<lambda>x. if x \<in> K then map_option (seen_bytes s) (e x) else None)"
    and n: "n \<in> K" "e n = Some i"
    and s': "\<And>d. dir_states s' d = dir_states s d \<or> d = [] \<and> dir_states s' d = [present s d]" "seen_bytes s' = (seen_bytes s)(i := b)"
    "disk_bytes s' = (disk_bytes s)(i := b)" "next_inode s' = next_inode s"
  shows "settled K s' (u(n \<mapsto> b))"
proof -
  have ne: "dir_states s d \<noteq> []" for d using e(1) by (simp add: entries_def apart_def)
  then have sub: "set (dir_states s' d) \<subseteq> set (dir_states s d)" "dir_states s' d \<noteq> []" for d
    using s'(1) [of d] present_in by auto
  have other: "e x \<noteq> Some i" if "x \<in> K" "x \<noteq> n" for x using entries_distinct [OF e(1) _ _ n(2)] n(1) that by (auto simp: tracked_def)
  have "entries K s' e" using sub s'(4) by (intro entries_sub [OF e(1)])
  moreover have "disk_bytes s' j = seen_bytes s' j" if "x \<in> K" "e x = Some j" for x j using e(2) [OF that] by (simp add: s')
  moreover have "u(n \<mapsto> b) = (\<lambda>x. if x \<in> K then map_option (seen_bytes s') (e x) else None)"
  proof
    fix x
    show "(u(n \<mapsto> b)) x = (if x \<in> K then map_option (seen_bytes s') (e x) else None)"
      using n other [of x] by (cases "x = n"; cases "e x") (auto simp: e(3) s')
  qed
  ultimately show ?thesis unfolding settled_def by blast
qed


lemma torn_extend:
  assumes "torn old (old @ b) c"
  shows "\<exists>k. c = old @ take k b"
proof (cases "c = old @ b")
  case True
  then show ?thesis by (intro exI [of _ "length b"]) simp
next
  case False
  then have "prefix old c" "prefix c (old @ b)" using assms by (simp_all add: torn_def)
  then obtain d e where "c = old @ d" "old @ b = c @ e" by (elim prefixE)
  then show ?thesis by (intro exI [of _ "length d"]) simp
qed

lemma torn_shorten:
  assumes "torn old (take k old) c"
  shows "\<exists>j \<ge> k. c = take j old"
proof (cases "c = take k old")
  case False
  then have "prefix (take k old) c" "prefix c old" using assms by (simp_all add: torn_def take_is_prefix)
  then obtain d e where c: "c = take k old @ d" and e: "old = c @ e" by (elim prefixE)
  have "c = take (length c) old" by (subst e) simp
  moreover have "k \<le> length c"
  proof (rule ccontr)
    assume "\<not> k \<le> length c"
    moreover have "length c = min k (length old) + length d" using c by simp
    ultimately have "length old \<le> length c" by linarith
    then show False using e False \<open>\<not> k \<le> length c\<close> by simp
  qed
  ultimately show ?thesis by blast
qed auto

text \<open>A call that changes the bytes of a file by \<open>f\<close>, and synchronising it.\<close>

definition alters :: "sys_call \<Rightarrow> string \<Rightarrow> (bytes \<Rightarrow> bytes) \<Rightarrow> bool" where
  "alters c n f \<longleftrightarrow> sys c = on_file (\<lambda>i s. s\<lparr>seen_bytes := (seen_bytes s)(i := f (seen_bytes s i))\<rparr>) [] n"

lemma alters_simps: "alters (Append_To [] n b) n (\<lambda>old. old @ b)" "alters (Cut [] n k) n (take k)"
  by (simp_all add: alters_def fun_eq_iff)

lemma alter_calls:
  assumes s: "settled K s u" and n: "n \<in> K" "u n = Some old" and c: "alters c n f"
  shows alter_cut: "after_cut K (sys c s) u' \<Longrightarrow> \<exists>b. torn old (f old) b \<and> u' = u(n \<mapsto> b)"
    and alter_synced: "settled K (sys (Sync [] n) (sys c s)) (u(n \<mapsto> f old))"
proof -
  obtain e where e: "entries K s e" "\<And>x i. x \<in> K \<Longrightarrow> e x = Some i \<Longrightarrow> disk_bytes s i = seen_bytes s i"
    "u = (\<lambda>x. if x \<in> K then map_option (seen_bytes s) (e x) else None)" using s by (rule settledE) blast
  obtain i where i: "e n = Some i" "old = seen_bytes s i" using n e(3) by auto
  have nt: "n \<in> tracked K" using n(1) by (simp add: tracked_def)
  have s1: "sys c s = s\<lparr>seen_bytes := (seen_bytes s)(i := f old)\<rparr>"
    using c on_file_entry [OF e(1) nt i(1)] i(2) by (simp add: alters_def)
  have "entries K (sys c s) e" using e(1) by (simp only: s1 entries_def apart_def) simp
  from on_file_entry [OF this nt i(1)]
  have s2: "sys (Sync [] n) (sys c s) = s\<lparr>seen_bytes := (seen_bytes s)(i := f old), disk_bytes := (disk_bytes s)(i := f old)\<rparr>"
    by (simp add: s1)
  show "settled K (sys (Sync [] n) (sys c s)) (u(n \<mapsto> f old))"
    unfolding s2 by (rule file_settled [OF e n(1) i(1)]) simp_all
  assume "after_cut K (sys c s) u'"
  moreover have "disk_bytes s = (disk_bytes s)(i := old)" using e(2) [OF n(1) i(1)] i(2) by (simp add: fun_upd_idem)
  ultimately show "\<exists>b. torn old (f old) b \<and> u' = u(n \<mapsto> b)"
    by (intro file_changed [OF e n(1) i(1), where s' = "sys c s"]) (simp_all add: s1)
qed

lemma settled_sync_dir:
  assumes "settled K s u"
  shows "settled K (sys (Sync_Dir d) s) u"
proof -
  obtain e where e: "entries K s e" "\<And>x i. x \<in> K \<Longrightarrow> e x = Some i \<Longrightarrow> disk_bytes s i = seen_bytes s i"
    "u = (\<lambda>x. if x \<in> K then map_option (seen_bytes s) (e x) else None)" using assms by (rule settledE) blast
  have "dir_states s x \<noteq> []" for x using e(1) by (simp add: entries_def apart_def)
  then have "entries K (sys (Sync_Dir d) s) e" using present_in [of s] by (intro entries_sub [OF e(1)]) simp_all
  then show ?thesis using e(2) unfolding settled_def by (intro exI [of _ e]) (simp add: e(3) cong: if_cong)
qed

lemma take_cases: obtains "k = 0" | "k = Suc 0" | j where "k = Suc (Suc j)"
  by (metis not0_implies_Suc)

lemma extend_completed:
  assumes "settled K s u" "n \<in> K" "u n = Some old"
  shows "settled K (sys_all (calls_of (Extend n b)) s) (u(n \<mapsto> old @ b))"
  using alter_synced [OF assms alters_simps(1), of b] by (simp del: sys.simps)

lemma extend_cut:
  assumes s: "settled K s u" and n: "n \<in> K" "u n = Some old"
    and a: "after_cut K (sys_all (take k (calls_of (Extend n b))) s) u'"
  shows "between (Extend n b) u u'"
proof (cases rule: take_cases [of k])
  case 1
  then have "u' = u" using a settled_after_cut [OF s] by simp
  then show ?thesis using n by (auto intro!: exI [of _ 0])
next
  case 2
  then have "after_cut K (sys (Append_To [] n b) s) u'" using a by simp
  then obtain c where "torn old (old @ b) c" "u' = u(n \<mapsto> c)" using alter_cut [OF s n alters_simps(1)] by blast
  then show ?thesis using torn_extend n by fastforce
next
  case 3
  then have "u' = u(n \<mapsto> old @ b)" using a settled_after_cut [OF extend_completed [OF s n]] by simp
  then show ?thesis using n by (auto intro!: exI [of _ "length b"])
qed

lemma shorten_completed:
  assumes "settled K s u" "n \<in> K" "u n = Some old"
  shows "settled K (sys_all [Cut [] n k, Sync [] n] s) (u(n \<mapsto> take k old))"
    "settled K (sys_all (calls_of (Shorten n k)) s) (u(n \<mapsto> take k old))"
  using alter_synced [OF assms alters_simps(2), of k] settled_sync_dir
  by (simp_all add: fsync_directory_def del: sys.simps)

lemma shorten_cut:
  assumes s: "settled K s u" and n: "n \<in> K" "u n = Some old"
    and a: "after_cut K (sys_all (take j (calls_of (Shorten n k))) s) u'"
  shows "between (Shorten n k) u u'"
proof (cases rule: take_cases [of j])
  case 1
  then have "u' = u" using a settled_after_cut [OF s] by simp
  then show ?thesis using n by (auto intro!: exI [of _ "length old + k"])
next
  case 2
  then have "after_cut K (sys (Cut [] n k) s) u'" using a by simp
  then obtain c where "torn old (take k old) c" "u' = u(n \<mapsto> c)" using alter_cut [OF s n alters_simps(2)] by blast
  then show ?thesis using torn_shorten n by fastforce
next
  case (3 i)
  then have "u' = u(n \<mapsto> take k old)"
    using a settled_after_cut [OF shorten_completed(1) [OF s n, of k]] settled_after_cut [OF shorten_completed(2) [OF s n, of k]]
    by (cases i) (simp_all add: fsync_directory_def)
  then show ?thesis using n by (auto intro!: exI [of _ k])
qed

subsection \<open>Writing a file as a whole\<close>

text \<open>
  \<open>holds\<close>: the files of \<open>K\<close> have the contents \<open>u\<close>, on disk as well. \<open>staged\<close>: the temporary file of \<open>n\<close> is
  the file \<open>i\<close>, apart from all others, and the other names are settled.
\<close>

definition holds :: "string set \<Rightarrow> store \<Rightarrow> (string \<Rightarrow> nat option) \<Rightarrow> (string \<Rightarrow> bytes option) \<Rightarrow> bool" where
  "holds K s e u \<longleftrightarrow> (\<forall>x \<in> K. \<forall>i. e x = Some i \<longrightarrow> disk_bytes s i = seen_bytes s i) \<and>
     u = (\<lambda>x. if x \<in> K then map_option (seen_bytes s) (e x) else None)"

definition staged :: "string set \<Rightarrow> string \<Rightarrow> nat \<Rightarrow> store \<Rightarrow> (string \<Rightarrow> nat option) \<Rightarrow> bool" where
  "staged K n i s e \<longleftrightarrow> apart K s (e(temporary n \<mapsto> i)) \<and>
     (\<forall>m \<in> set (dir_states s []). \<forall>x \<in> tracked K - {temporary n}. plain m x = e x) \<and> plain (present s []) (temporary n) = Some i"

lemma settled_holds: "settled K s u \<longleftrightarrow> (\<exists>e. entries K s e \<and> holds K s e u)"
  by (simp add: settled_def holds_def conj_assoc)

lemma temporary_tracked [simp]: "n \<in> K \<Longrightarrow> n \<in> tracked K" "n \<in> K \<Longrightarrow> temporary n \<in> tracked K"
  by (simp_all add: tracked_def)

lemma staged_other:
  assumes "staged K n i s e" "n \<in> K" "x \<in> tracked K" "x \<noteq> temporary n"
  shows "e x \<noteq> Some i"
  using apart_distinct [of K s "e(temporary n \<mapsto> i)" x "temporary n" i] assms by (simp add: staged_def)

lemma staged_cut:
  assumes "staged K n i s e" "holds K s e u" "temporary n \<notin> K" "after_cut K s u'"
  shows "u' = u"
proof -
  obtain m content where m: "m \<in> set (dir_states s [])" "\<And>i. torn (disk_bytes s i) (seen_bytes s i) (content i)"
    "u' = (\<lambda>x. if x \<in> K then map_option content (plain m x) else None)" using assms(4) by (rule after_cutE) blast
  have "map_option content (plain m x) = map_option (seen_bytes s) (e x)" if "x \<in> K" for x
  proof -
    have "plain m x = e x" using assms(1,3) m(1) that by (auto simp: staged_def tracked_def)
    moreover have "content i = seen_bytes s i" if "e x = Some i" for i
      using m(2) [of i] assms(2) \<open>x \<in> K\<close> that by (simp add: holds_def)
    ultimately show ?thesis by (cases "e x") simp_all
  qed
  then show ?thesis using assms(2) by (simp add: holds_def m(3) fun_eq_iff)
qed

lemma holds_other:
  assumes "holds K s e u" "\<And>x. x \<in> K \<Longrightarrow> e x \<noteq> Some i"
    "seen_bytes s' = (seen_bytes s)(i := b)" "disk_bytes s' = (disk_bytes s)(i := c)"
  shows "holds K s' e u"
  unfolding holds_def
proof (intro conjI ballI allI impI ext)
  show "disk_bytes s' j = seen_bytes s' j" if "x \<in> K" "e x = Some j" for x j
    using assms that by (auto simp: holds_def)
  show "u x = (if x \<in> K then map_option (seen_bytes s') (e x) else None)" for x
    using assms by (cases "e x") (auto simp: holds_def)
qed

lemma apart_fresh:
  assumes a: "apart K s e" and below: "\<And>x. x \<in> tracked K \<Longrightarrow> e x \<noteq> Some (next_inode s)"
    and s': "\<And>d. d \<noteq> [] \<Longrightarrow> dir_states s' d = dir_states s d" "dir_states s' [] \<noteq> []" "next_inode s' = Suc (next_inode s)"
  shows "apart K s' (e(t \<mapsto> next_inode s))"
  unfolding apart_def
proof (intro conjI allI ballI impI)
  let ?e = "e(t \<mapsto> next_inode s)"
  show "dir_states s' d \<noteq> []" for d using a s' by (cases "d = []") (simp_all add: apart_def)
  show "?e x = None" if "x \<in> tracked K" "y \<in> tracked K" "x \<noteq> y" "?e x = ?e y" for x y
    using that below [of x] below [of y] apart_distinct [OF a that(1,2)] by (cases "e y") (auto split: if_splits)
  show "i < next_inode s'" if "x \<in> tracked K" "?e x = Some i" for x i
    using that a by (auto simp: apart_def s'(3) less_Suc_eq split: if_splits)
  fix d m x i
  assume d: "d \<noteq> []" "m \<in> set (dir_states s' d)" "m x = Some (Plain i)"
  then have i: "i < next_inode s" "\<And>x. x \<in> tracked K \<Longrightarrow> e x \<noteq> Some i" using a unfolding apart_def s'(1) [OF d(1)] by blast+
  show "i < next_inode s'" using i(1) by (simp add: s'(3))
  show "?e y \<noteq> Some i" if "y \<in> tracked K" for y using i that by (auto split: if_splits)
qed

lemma create_staged:
  assumes e: "entries K s e" "holds K s e u" and n: "n \<in> K" "temporary n \<notin> K"
  obtains i where "staged K n i (sys (Create [] (temporary n)) s) e" "holds K (sys (Create [] (temporary n)) s) e u"
    "seen_bytes (sys (Create [] (temporary n)) s) i = []"
proof (cases "e (temporary n)")
  case (Some i)
  let ?s = "s\<lparr>seen_bytes := (seen_bytes s)(i := [])\<rparr>"
  have p: "plain (present s []) (temporary n) = Some i" using entries_present [OF e(1)] n(1) Some by simp
  then have s: "sys (Create [] (temporary n)) s = ?s" by (simp add: plain_Some)
  have "present ?s = present s" by (simp add: present_def fun_eq_iff)
  then have "staged K n i ?s e" using e(1) p Some by (simp add: staged_def entries_def apart_def fun_upd_idem)
  moreover have "holds K ?s e u"
    using n entries_distinct [OF e(1) _ _ Some] by (intro holds_other [OF e(2), of i _ _ "disk_bytes s i"]) (auto simp: tracked_def)
  ultimately show thesis using that [of i, unfolded s] by simp
next
  case None
  let ?i = "next_inode s" and ?m = "(present s [])(temporary n \<mapsto> Plain (next_inode s))"
  let ?s = "put_dir [] ?m (s\<lparr>seen_bytes := (seen_bytes s)(?i := []), disk_bytes := (disk_bytes s)(?i := []), next_inode := Suc ?i\<rparr>)"
  have p: "plain (present s []) (temporary n) = None" using entries_present [OF e(1)] n(1) None by simp
  then have s: "sys (Create [] (temporary n)) s = ?s" by (auto simp: plain_def split: option.split node.split)
  have below: "e x \<noteq> Some ?i" if "x \<in> tracked K" for x using e(1) that by (fastforce simp: entries_def apart_def)
  have "apart K ?s (e(temporary n \<mapsto> ?i))"
    using e(1) below by (intro apart_fresh) (simp_all add: entries_def put_dir_def)
  moreover have "plain m x = e x" if "m \<in> set (dir_states ?s [])" "x \<in> tracked K - {temporary n}" for m x
    using e(1) entries_present [OF e(1), of x] that by (auto simp: entries_def put_dir_def)
  ultimately have "staged K n ?i ?s e" by (simp add: staged_def present_def put_dir_def)
  moreover have "holds K ?s e u"
    using below by (intro holds_other [OF e(2), of ?i]) (auto simp: put_dir_def)
  moreover have "seen_bytes ?s ?i = []" by (simp add: put_dir_def)
  ultimately show thesis using that [of ?i, unfolded s] by blast
qed

lemma on_temporary:
  assumes "staged K n i s e"
  shows "on_file f [] (temporary n) s = f i s"
  using assms by (simp add: staged_def on_file_def plain_Some)

lemma staged_bytes:
  assumes "staged K n i s e" "dir_states s' = dir_states s" "next_inode s' = next_inode s"
  shows "staged K n i s' e"
  using assms by (simp add: staged_def apart_def present_def)

lemma staged_calls:
  assumes s: "staged K n i s e" "holds K s e u" and n: "n \<in> K" "temporary n \<notin> K"
    and c: "c \<in> range (Append_To [] (temporary n)) \<union> {Sync [] (temporary n)}"
  shows "staged K n i (sys c s) e" "holds K (sys c s) e u"
proof -
  have other: "e x \<noteq> Some i" if "x \<in> K" for x using staged_other [OF s(1) n(1), of x] n that by (auto simp: tracked_def)
  show "staged K n i (sys c s) e" using c on_temporary [OF s(1)] by (auto intro: staged_bytes [OF s(1)])
  have "\<exists>b b'. seen_bytes (sys c s) = (seen_bytes s)(i := b) \<and> disk_bytes (sys c s) = (disk_bytes s)(i := b')"
    using c on_temporary [OF s(1)]
    by (intro exI [of _ "seen_bytes (sys c s) i"] exI [of _ "disk_bytes (sys c s) i"]) (auto simp: fun_eq_iff)
  then show "holds K (sys c s) e u" using holds_other [OF s(2) other] by blast
qed

lemma staged_all:
  assumes "staged K n i s e" "holds K s e u" "n \<in> K" "temporary n \<notin> K"
    "set cs \<subseteq> range (Append_To [] (temporary n)) \<union> {Sync [] (temporary n)}"
  shows "staged K n i (sys_all cs s) e \<and> holds K (sys_all cs s) e u"
  using assms
proof (induction cs arbitrary: s)
  case (Cons c cs)
  then show ?case using staged_calls [OF Cons.prems(1-4), of c] by (simp del: sys.simps)
qed simp

lemma staged_content:
  assumes "staged K n i s e"
  shows "seen_bytes (sys_all (map (Append_To [] (temporary n)) chunks) s) i = seen_bytes s i @ concat chunks"
  using assms
proof (induction chunks arbitrary: s)
  case (Cons b chunks)
  have s': "sys (Append_To [] (temporary n) b) s = s\<lparr>seen_bytes := (seen_bytes s)(i := seen_bytes s i @ b)\<rparr>"
    using on_temporary [OF Cons.prems] by simp
  have "staged K n i (sys (Append_To [] (temporary n) b) s) e" by (rule staged_bytes [OF Cons.prems]) (simp_all only: s', simp_all)
  then show ?case using Cons.IH by (simp del: sys.simps add: s')
qed simp

lemma renamed_cut:
  assumes s: "staged K n i s e" "holds K s e u" "seen_bytes s i = b" "disk_bytes s i = b" and n: "n \<in> K" "temporary n \<notin> K"
    and a: "after_cut K (sys (Rename [] (temporary n) n) s) u'"
  shows "u' = u \<or> u' = u(n \<mapsto> b)"
proof -
  let ?m = "(present s [])(n \<mapsto> Plain i, temporary n := None)"
  have s': "sys (Rename [] (temporary n) n) s = put_dir [] ?m s" using on_temporary [OF s(1)] by simp
  obtain m content where m: "m \<in> set (dir_states (put_dir [] ?m s) [])" "\<And>i. torn (disk_bytes s i) (seen_bytes s i) (content i)"
    "u' = (\<lambda>x. if x \<in> K then map_option content (plain m x) else None)"
    using a unfolding s' by (rule after_cutE) (auto simp: put_dir_def)
  have old: "u' = u" if "m \<in> set (dir_states s [])"
  proof (rule staged_cut [OF s(1,2) n(2)])
    have "dir_states s d \<noteq> []" for d using s(1) by (simp add: staged_def apart_def)
    then show "after_cut K s u'" using that m(2,3) present_in [of s] unfolding after_cut_def crashed_def
      by (intro exI [of _ "found (\<lambda>d. if d = [] then m else present s d) content"] conjI exI [of _ "\<lambda>d. if d = [] then m else present s d"] exI [of _ content])
        (auto simp: found_def there_def plain_def fun_eq_iff split: option.splits node.splits)
  qed
  have new: "u' x = (u(n \<mapsto> b)) x" if "m = ?m" for x
  proof -
    have "plain (present s []) x = e x" if "x \<in> K" using s(1) n present_in [of s "[]"] that
      by (auto simp: staged_def apart_def tracked_def)
    moreover have "content j = seen_bytes s j" if "x \<in> K" "e x = Some j" for j
      using m(2) [of j] s(2) that by (simp add: holds_def)
    moreover have "content i = b" using m(2) [of i] s(3,4) by simp
    ultimately show ?thesis using n s(2) that m(3) by (cases "e x") (auto simp: holds_def)
  qed
  show ?thesis using m(1) old new by (auto simp: put_dir_def)
qed

lemma renamed_apart:
  assumes s: "staged K n i s e" and n: "n \<in> K"
  shows "apart K s (e(n \<mapsto> i, temporary n := None))"
  unfolding apart_def
proof (intro conjI allI ballI impI)
  let ?t = "temporary n" and ?e = "e(n \<mapsto> i, temporary n := None)"
  have a: "apart K s (e(?t \<mapsto> i))" using s by (simp add: staged_def)
  have other: "e x \<noteq> Some i" if "x \<in> tracked K" "x \<noteq> ?t" for x using staged_other [OF s n that] .
  have origin: "\<exists>y \<in> tracked K. (e(?t \<mapsto> i)) y = Some j" if "x \<in> tracked K" "?e x = Some j" for x j
    using that n by (cases "x = n") (auto split: if_splits intro: bexI [of _ x] bexI [of _ ?t])
  show "dir_states s d \<noteq> []" for d using a by (simp add: apart_def)
  show "?e x = None" if "x \<in> tracked K" "y \<in> tracked K" "x \<noteq> y" "?e x = ?e y" for x y
    using that other [of x] other [of y] apart_distinct [OF a that(1,2)] by (cases "e y") (auto split: if_splits)
  show "j < next_inode s" if "x \<in> tracked K" "?e x = Some j" for x j using origin [OF that] a unfolding apart_def by blast
  fix d m x j
  assume "d \<noteq> []" "m \<in> set (dir_states s d)" "m x = Some (Plain j)"
  then have j: "j < next_inode s" "\<And>x. x \<in> tracked K \<Longrightarrow> (e(?t \<mapsto> i)) x \<noteq> Some j" using a unfolding apart_def by blast+
  show "j < next_inode s" by (rule j(1))
  show "?e y \<noteq> Some j" if "y \<in> tracked K" for y using origin [OF that] j(2) by blast
qed

lemma renamed_settled:
  assumes s: "staged K n i s e" "holds K s e u" "seen_bytes s i = b" "disk_bytes s i = b" and n: "n \<in> K" "temporary n \<notin> K"
  shows "settled K (sys (Sync_Dir []) (sys (Rename [] (temporary n) n) s)) (u(n \<mapsto> b))"
proof -
  let ?m = "(present s [])(n \<mapsto> Plain i, temporary n := None)" and ?e = "e(n \<mapsto> i, temporary n := None)"
  let ?s = "s\<lparr>dir_states := (dir_states s)([] := [?m])\<rparr>"
  have s': "sys (Sync_Dir []) (sys (Rename [] (temporary n) n) s) = ?s"
    using on_temporary [OF s(1)] by (simp add: put_dir_def present_def)
  have nt: "n \<noteq> temporary n" by (simp add: temporary_def)
  have other: "e x \<noteq> Some i" if "x \<in> tracked K" "x \<noteq> temporary n" for x using staged_other [OF s(1) n(1) that] .
  have p: "plain (present s []) x = e x" if "x \<in> tracked K" "x \<noteq> temporary n" for x
    using s(1) present_in [of s "[]"] that by (auto simp: staged_def apart_def)
  have "plain ?m x = ?e x" if "x \<in> tracked K" for x using p [OF that] by auto
  moreover have "apart K ?s ?e" using renamed_apart [OF s(1) n(1)] by (simp add: apart_def)
  ultimately have "entries K ?s ?e" by (simp add: entries_def)
  moreover have "holds K ?s ?e (u(n \<mapsto> b))"
    using s(2-4) n by (auto simp: holds_def fun_eq_iff)
  ultimately show ?thesis unfolding s' settled_holds by blast
qed

lemma replace_calls:
  assumes s: "settled K s u" and n: "n \<in> K" "temporary n \<notin> K"
  shows replace_cut: "after_cut K (sys_all (take k (replace_file [] n chunks)) s) u' \<Longrightarrow> u' = u \<or> u' = u(n \<mapsto> concat chunks)"
    and replace_completed: "settled K (sys_all (replace_file [] n chunks) s) (u(n \<mapsto> concat chunks))"
proof -
  let ?t = "temporary n" and ?l = "length chunks"
  let ?written = "map (Append_To [] ?t) chunks @ [Sync [] ?t]" and ?s1 = "sys (Create [] ?t) s"
  obtain e where e: "entries K s e" "holds K s e u" using s by (auto simp: settled_holds)
  obtain i where i: "staged K n i ?s1 e" "holds K ?s1 e u" "seen_bytes ?s1 i = []" using create_staged [OF e n] .
  have some: "staged K n i (sys_all cs ?s1) e \<and> holds K (sys_all cs ?s1) e u" if "set cs \<subseteq> set ?written" for cs
    using that by (intro staged_all [OF i(1,2) n]) auto
  let ?s2 = "sys_all (map (Append_To [] ?t) chunks) ?s1" and ?s3 = "sys_all ?written ?s1"
  have "staged K n i ?s2 e" by (rule conjunct1 [OF some]) auto
  then have s3: "seen_bytes ?s3 i = concat chunks" "disk_bytes ?s3 i = concat chunks"
    using staged_content [OF i(1), of chunks] on_temporary [of K n i ?s2 e] i(3) by simp_all
  have st3: "staged K n i ?s3 e" "holds K ?s3 e u" using some [of ?written] by simp_all
  have all: "replace_file [] n chunks = Create [] ?t # ?written @ [Rename [] ?t n, Sync_Dir []]"
    by (simp add: replace_file_def fsync_directory_def)
  show fin: "settled K (sys_all (replace_file [] n chunks) s) (u(n \<mapsto> concat chunks))"
    using renamed_settled [OF st3 s3 n] unfolding all by (simp del: sys.simps)
  assume a: "after_cut K (sys_all (take k (replace_file [] n chunks)) s) u'"
  consider "k = 0" | j where "k = Suc j" "j \<le> Suc ?l" | "k = Suc (Suc (Suc ?l))" | "length (replace_file [] n chunks) \<le> k"
    using not_less_eq_eq by (cases k) (simp, simp add: all, linarith)
  then show "u' = u \<or> u' = u(n \<mapsto> concat chunks)"
  proof cases
    case 1
    then show ?thesis using a settled_after_cut [OF s] by simp
  next
    case (2 j)
    then have "take k (replace_file [] n chunks) = Create [] ?t # take j ?written" by (simp add: all take_Cons')
    then have "after_cut K (sys_all (take j ?written) ?s1) u'" using a by (simp only: sys_all_simps)
    then show ?thesis using staged_cut [OF _ _ n(2)] some [OF set_take_subset, of j] by blast
  next
    case 3
    then have "take k (replace_file [] n chunks) = Create [] ?t # ?written @ [Rename [] ?t n]" by (simp add: all)
    then show ?thesis using a renamed_cut [OF st3 s3 n] by (simp del: sys.simps)
  next
    case 4
    then show ?thesis using a settled_after_cut [OF fin] by simp
  qed
qed

subsection \<open>Calls in other directories\<close>

definition outside :: "store \<Rightarrow> nat \<Rightarrow> bool" where
  "outside s i \<longleftrightarrow> (\<exists>d m n. d \<noteq> [] \<and> m \<in> set (dir_states s d) \<and> m n = Some (Plain i))"

lemma outside_other:
  assumes "entries K s e" "outside s i"
  shows "i < next_inode s" "x \<in> tracked K \<Longrightarrow> e x \<noteq> Some i"
  using assms unfolding entries_def apart_def outside_def by blast+

lemma entries_elsewhere:
  assumes e: "entries K s e" and ne: "\<And>d. dir_states s' d \<noteq> []"
    and top: "\<And>m. m \<in> set (dir_states s' []) \<Longrightarrow> \<exists>m' \<in> set (dir_states s []). plain m = plain m'"
    and others: "\<And>i. outside s' i \<Longrightarrow> outside s i \<or> i = next_inode s \<and> i < next_inode s'"
    and mono: "next_inode s \<le> next_inode s'"
  shows "entries K s' e"
proof -
  have below: "i < next_inode s" if "x \<in> tracked K" "e x = Some i" for x i using e that unfolding entries_def apart_def by blast
  have out: "i < next_inode s' \<and> (\<forall>x \<in> tracked K. e x \<noteq> Some i)" if "outside s' i" for i
    using others [OF that] outside_other [OF e, of i] below mono by (auto intro: order_less_le_trans)
  have "plain m x = e x" if "m \<in> set (dir_states s' [])" "x \<in> tracked K" for m x
    using top [OF that(1)] e that(2) unfolding entries_def by force
  moreover have "apart K s' e"
    unfolding apart_def
  proof (intro conjI allI ballI impI)
    show "dir_states s' d \<noteq> []" for d by (rule ne)
    show "e x = None" if "x \<in> tracked K" "y \<in> tracked K" "x \<noteq> y" "e x = e y" for x y
      using e that unfolding entries_def apart_def by blast
    show "i < next_inode s'" if "x \<in> tracked K" "e x = Some i" for x i using below [OF that] mono by simp
    fix d m n i
    assume "d \<noteq> []" "m \<in> set (dir_states s' d)" "m n = Some (Plain i)"
    then have "outside s' i" unfolding outside_def by blast
    from out [OF this] show "i < next_inode s'" "\<And>x. x \<in> tracked K \<Longrightarrow> e x \<noteq> Some i" by blast+
  qed
  ultimately show ?thesis by (simp add: entries_def)
qed

lemma present_outside:
  assumes "entries K s e" "d \<noteq> []" "present s d n = Some (Plain i)"
  shows "outside s i"
proof -
  have "present s d \<in> set (dir_states s d)" using assms(1) by (intro present_in) (simp add: entries_def apart_def)
  then show ?thesis using assms(2,3) unfolding outside_def by (intro exI conjI)
qed

lemma settled_bytes:
  assumes e: "entries K s e" "holds K s e u" and i: "outside s i"
    and s': "dir_states s' = dir_states s" "next_inode s' = next_inode s"
      "\<And>j. j \<noteq> i \<Longrightarrow> seen_bytes s' j = seen_bytes s j \<and> disk_bytes s' j = disk_bytes s j"
  shows "settled K s' u"
proof -
  have "entries K s' e" using e(1) s'(1,2) by (simp add: entries_def apart_def)
  moreover have "holds K s' e u" using outside_other(2) [OF e(1) i] s'(3)
    by (intro holds_other [OF e(2), of i s' "seen_bytes s' i" "disk_bytes s' i"]) (auto simp: fun_eq_iff)
  ultimately show ?thesis using settled_holds by blast
qed

lemma settled_on_file:
  assumes s: "settled K s u" and d: "d \<noteq> []"
    and f: "\<And>i. dir_states (f i s) = dir_states s \<and> next_inode (f i s) = next_inode s"
      "\<And>i j. j \<noteq> i \<Longrightarrow> seen_bytes (f i s) j = seen_bytes s j \<and> disk_bytes (f i s) j = disk_bytes s j"
  shows "settled K (on_file f d n s) u"
proof (cases "\<exists>i. present s d n = Some (Plain i)")
  case True
  then obtain i where i: "present s d n = Some (Plain i)" by blast
  obtain e where e: "entries K s e" "holds K s e u" using s by (auto simp: settled_holds)
  have "outside s i" using present_outside [OF e(1) d i] .
  then have "settled K (f i s) u" using f by (intro settled_bytes [OF e, of i]) simp_all
  then show ?thesis using i by (simp add: on_file_def)
qed (use s in \<open>auto simp: on_file_def split: option.split node.split\<close>)

lemma settled_put_dir:
  assumes s: "settled K s u" and d: "d \<noteq> [] \<or> plain m = plain (present s d)"
    and m: "\<And>n i. d \<noteq> [] \<Longrightarrow> m n = Some (Plain i) \<Longrightarrow> (\<exists>n. present s d n = Some (Plain i)) \<or> i = next_inode s \<and> i < j"
    and j: "next_inode s \<le> j" "new = (\<lambda>x. x) \<or> (\<exists>d'. d' \<noteq> [] \<and> new = (\<lambda>ds. ds(d' := [Map.empty])))"
    and s': "dir_states s' = new (dir_states (put_dir d m s))" "next_inode s' = j"
      "\<And>i. i \<noteq> next_inode s \<Longrightarrow> seen_bytes s' i = seen_bytes s i \<and> disk_bytes s' i = disk_bytes s i"
  shows "settled K s' u"
proof -
  obtain e where e: "entries K s e" "holds K s e u" using s by (auto simp: settled_holds)
  have ne: "dir_states s d \<noteq> []" for d using e(1) by (simp add: entries_def apart_def)
  have "entries K s' e"
  proof (rule entries_elsewhere [OF e(1)])
    show "dir_states s' d' \<noteq> []" for d' using j(2) ne by (auto simp: s' put_dir_def split: if_splits)
    show "\<exists>m'' \<in> set (dir_states s []). plain m' = plain m''" if "m' \<in> set (dir_states s' [])" for m'
      using j(2) that d present_in [OF ne, of "[]"] by (auto simp: s' put_dir_def split: if_splits)
    show "outside s i \<or> i = next_inode s \<and> i < next_inode s'" if "outside s' i" for i
    proof -
      obtain d' m' n where d': "d' \<noteq> []" "m' \<in> set (dir_states s' d')" "m' n = Some (Plain i)"
        using \<open>outside s' i\<close> unfolding outside_def by blast
      then have "m' \<in> set (dir_states s d') \<or> d' = d \<and> m' = m" using j(2) by (auto simp: s' put_dir_def split: if_splits)
      then show ?thesis using d' m [of n i] present_outside [OF e(1)] unfolding outside_def s'(2) by blast
    qed
  qed (use j(1) s' in simp)
  moreover have "holds K s' e u"
  proof -
    have "e x \<noteq> Some (next_inode s)" if "x \<in> K" for x using e(1) that unfolding entries_def apart_def by fastforce
    then have "seen_bytes s' i = seen_bytes s i \<and> disk_bytes s' i = disk_bytes s i" if "x \<in> K" "e x = Some i" for x i
      using that s'(3) [of i] by auto
    then have "map_option (seen_bytes s') (e x) = map_option (seen_bytes s) (e x)" if "x \<in> K" for x using that by (cases "e x") auto
    with \<open>\<And>x i. x \<in> K \<Longrightarrow> e x = Some i \<Longrightarrow> _\<close> show ?thesis using e(2) by (auto simp: holds_def fun_eq_iff)
  qed
  ultimately show ?thesis using settled_holds by blast
qed

lemma settled_elsewhere:
  assumes s: "settled K s u" and c: "elsewhere c"
  shows "settled K (sys c s) u"
proof (cases c)
  case (Append_To d n b)
  then show ?thesis using c by (simp add: settled_on_file [OF s])
next
  case (Cut d n k)
  then show ?thesis using c by (simp add: settled_on_file [OF s])
next
  case (Sync d n)
  then show ?thesis using c by (simp add: settled_on_file [OF s])
next
  case (Sync_Dir d)
  then show ?thesis using settled_sync_dir [OF s] by simp
next
  case (Create d n)
  let ?s = "sys (Create d n) s"
  have d: "d \<noteq> []" using c Create by simp
  show ?thesis
  proof (cases "\<exists>i. present s d n = Some (Plain i)")
    case True
    then have "?s = on_file (\<lambda>i s. s\<lparr>seen_bytes := (seen_bytes s)(i := [])\<rparr>) d n s" by (auto simp: on_file_def)
    then show ?thesis using d Create by (simp add: settled_on_file [OF s] del: sys.simps)
  next
    case False
    let ?m = "(present s d)(n \<mapsto> Plain (next_inode s))"
    have s': "?s = put_dir d ?m (s\<lparr>seen_bytes := (seen_bytes s)(next_inode s := []), disk_bytes := (disk_bytes s)(next_inode s := []),
        next_inode := Suc (next_inode s)\<rparr>)" using False by (auto split: option.split node.split)
    have "settled K ?s u" using d unfolding s'
      by (intro settled_put_dir [OF s, of d ?m "Suc (next_inode s)" "\<lambda>x. x"]) (auto simp: put_dir_def split: if_splits)
    then show ?thesis using Create by simp
  qed
next
  case (Rename d n n')
  then show ?thesis
  proof (cases "\<exists>i. present s d n = Some (Plain i)")
    case True
    then obtain i where i: "present s d n = Some (Plain i)" by blast
    then have "sys c s = put_dir d ((present s d)(n' \<mapsto> Plain i, n := None)) s" using Rename by (simp add: on_file_def)
    then show ?thesis using c Rename i
      by (intro settled_put_dir [OF s, of d "(present s d)(n' \<mapsto> Plain i, n := None)" "next_inode s" "\<lambda>x. x"])
        (auto simp: put_dir_def split: if_splits)
  qed (use s in \<open>auto simp: on_file_def split: option.split node.split\<close>)
next
  case (Mkdir d n)
  then show ?thesis
  proof (cases "present s d n")
    case None
    then show ?thesis using Mkdir
      by (intro settled_put_dir [OF s, of d "(present s d)(n \<mapsto> Folder)" "next_inode s" "\<lambda>ds. ds(d @ [n] := [Map.empty])"])
        (auto simp: put_dir_def split: if_splits)
  qed (use s in simp)
qed

lemma aside_settled: "settled K s u \<Longrightarrow> list_all elsewhere cs \<Longrightarrow> settled K (sys_all cs s) u"
  by (induction cs arbitrary: s) (simp_all add: settled_elsewhere del: sys.simps)

lemma aside_cut: "settled K s u \<Longrightarrow> list_all elsewhere cs \<Longrightarrow> after_cut K (sys_all (take k cs) s) u' \<Longrightarrow> u' = u"
  using settled_after_cut aside_settled by (metis append_take_drop_id list_all_append)

section \<open>The files meet the contract\<close>

lemma change_cut:
  assumes "settled K s u" "fits K x u" "after_cut K (sys_all (take k (calls_of x)) s) u'"
  shows "between x u u'"
proof (cases x)
  case (Replace n chunks)
  then show ?thesis using assms replace_cut [of K s u n k chunks u'] by auto
next
  case (Extend n b)
  then show ?thesis using assms extend_cut [of K s u n _ k b u'] by auto
next
  case (Shorten n j)
  then show ?thesis using assms shorten_cut [of K s u n _ k j u'] by auto
next
  case (Aside cs)
  then show ?thesis using assms aside_cut by simp
qed

lemma change_completed:
  assumes "settled K s u" "fits K x u"
  shows "settled K (sys_all (calls_of x) s) (effect x u)"
proof (cases x)
  case (Replace n chunks)
  then show ?thesis using assms replace_completed [of K s u n chunks] by auto
next
  case (Extend n b)
  then show ?thesis using assms extend_completed [of K s u n _ b] by auto
next
  case (Shorten n j)
  then show ?thesis using assms shorten_completed(2) [of K s u n _ j] by auto
next
  case (Aside cs)
  then show ?thesis using assms aside_settled by simp
qed

interpretation posix: ordered_store sys_all "after_cut K" "settled K" calls_of "fits K" between effect for K
  by unfold_locales (simp, simp, erule (1) settled_after_cut, erule (2) change_cut, erule (1) change_completed)

end
