(* ===== verification/Durable_Journal.thy ===== *)
theory Durable_Journal
  imports Journal_Spec Tokens Durable_Store
begin

text \<open>
  The journal's files on a disk that can lose power at any system call. Each operation that writes is
  given by the calls it makes (\<^verbatim>\<open>append\<close>, \<^verbatim>\<open>_discard_torn_tail\<close>, \<^verbatim>\<open>snapshot\<close>, \<^verbatim>\<open>compact\<close> and \<^verbatim>\<open>flush\<close> of
  \<^verbatim>\<open>core/journal.py\<close>). The contract \<open>ordered_store\<close> says what a power cut leaves of them, and the theory of the
  journal what opening that gives.
\<close>

section \<open>The files of a namespace\<close>

definition METADATA :: string where "METADATA = ''metadata.json''"
definition BASE :: string where "BASE = ''base.img''"
definition LOG :: string where "LOG = ''journal.jsonl''"

definition sidecar_name :: "nat \<Rightarrow> string" where
  "sidecar_name off = LOG @ ''.torn-'' @ show_nat off"

definition ns_names :: "string set" where
  "ns_names = {METADATA, BASE, LOG} \<union> range sidecar_name"

text \<open>The bytes behind the names, for the files \<open>fs\<close>.\<close>

definition view :: "ns \<Rightarrow> string \<Rightarrow> bytes option" where
  "view fs n =
     (if n = METADATA then Some (text_bytes (f_metadata fs))
      else if n = BASE then Some (f_base fs)
      else if n = LOG then Some (text_bytes (f_log fs))
      else if n \<in> range sidecar_name then map_option text_bytes (map_of (f_sidecars fs) n)
      else None)"

abbreviation on_disk :: "store \<Rightarrow> ns \<Rightarrow> bool" where
  "on_disk s fs \<equiv> settled ns_names s (view fs)"

lemma names_differ [simp]: "METADATA \<noteq> BASE" "METADATA \<noteq> LOG" "BASE \<noteq> LOG" "BASE \<noteq> METADATA" "LOG \<noteq> METADATA" "LOG \<noteq> BASE"
  "sidecar_name k \<noteq> METADATA" "sidecar_name k \<noteq> BASE" "sidecar_name k \<noteq> LOG"
  "METADATA \<noteq> sidecar_name k" "BASE \<noteq> sidecar_name k" "LOG \<noteq> sidecar_name k"
  by (auto simp: METADATA_def BASE_def LOG_def sidecar_name_def)

lemma in_ns_names [simp]: "METADATA \<in> ns_names" "BASE \<in> ns_names" "LOG \<in> ns_names" "sidecar_name k \<in> ns_names"
  by (simp_all add: ns_names_def)

lemma temporary_not_used: "temporary n \<notin> ns_names"
proof
  assume a: "temporary n \<in> ns_names"
  have l: "last (temporary n) = CHR ''w''" by (simp add: temporary_def)
  have "last (sidecar_name k) \<noteq> CHR ''w''" for k
  proof -
    have "is_digit (last (show_nat k))" using show_nat_digits [of k] by (simp add: list_all_iff)
    then have "last (show_nat k) \<noteq> CHR ''w''" by (auto simp: is_digit_def)
    then show ?thesis by (simp add: sidecar_name_def)
  qed
  moreover have "last METADATA \<noteq> CHR ''w''" "last BASE \<noteq> CHR ''w''" "last LOG \<noteq> CHR ''w''"
    by (simp_all add: METADATA_def BASE_def LOG_def)
  ultimately show False using a l by (auto simp: ns_names_def)
qed

lemma no_temporary: "ns_names \<inter> temporary ` ns_names = {}"
  using temporary_not_used by blast

section \<open>The calls of the operations\<close>

text \<open>\<open>append\<close>: the line in one unbuffered write, then \<open>fsync\<close>; nothing is written when it raises.\<close>

definition append_calls :: "int \<Rightarrow> bytes \<Rightarrow> journal \<Rightarrow> sys_call list" where
  "append_calls start_block data j =
     (case fst (journal_append start_block data j) of
        Inl _ \<Rightarrow> []
      | Inr _ \<Rightarrow> [Append_To [] LOG (text_bytes (next_line j (start_block, data))), Sync [] LOG])"

text \<open>\<open>_discard_torn_tail\<close>, and opening, which calls it when the last record is incomplete.\<close>

definition discard_calls :: "string list \<Rightarrow> nat \<Rightarrow> ns \<Rightarrow> sys_call list" where
  "discard_calls d off fs =
     atomic_write d (sidecar_name off) (text_bytes (drop off (f_log fs))) @ [Cut d LOG off, Sync d LOG] @ fsync_directory d"

definition open_calls :: "string list \<Rightarrow> ns \<Rightarrow> sys_call list" where
  "open_calls d fs =
     (case open_journal fs [] of
        Inr j \<Rightarrow> (if recovered_tail j = None then [] else discard_calls d (log_size j) fs)
      | Inl _ \<Rightarrow> [])"

text \<open>\<open>flush\<close>.\<close>

definition flush_calls :: "sys_call list" where
  "flush_calls = [Sync [] LOG, Sync [] BASE]"

text \<open>
  \<open>snapshot\<close>: the copies, which are not synchronised; the new directory, which is; then opening the copy.
\<close>

definition copy_calls :: "string list \<Rightarrow> string \<Rightarrow> bytes \<Rightarrow> sys_call list" where
  "copy_calls d n content = [Create d n, Append_To d n content]"

definition snapshot_calls :: "string \<Rightarrow> int option \<Rightarrow> journal \<Rightarrow> sys_call list" where
  "snapshot_calls name at_sequence j =
     (if name = [] \<or> \<not> list_all (\<lambda>c. c \<in> set name_alphabet) name then []
      else if (case at_sequence of None \<Rightarrow> False | Some n \<Rightarrow> \<not> (0 \<le> n \<and> n \<le> last_sequence j)) then []
      else if map_of (j_snapshots j) name \<noteq> None then []
      else (let fs = j_files j; destination = [''snapshots'', name] in
            [Mkdir [] ''snapshots'', Mkdir [''snapshots''] name] @
            copy_calls destination METADATA (text_bytes (f_metadata fs)) @ copy_calls destination BASE (f_base fs) @
            (case (case at_sequence of None \<Rightarrow> Inr (f_log fs) | Some n \<Rightarrow> kept_lines n (lines_of (f_log fs))) of
               Inl _ \<Rightarrow> []
             | Inr log \<Rightarrow>
                 (case at_sequence of
                    None \<Rightarrow> copy_calls destination LOG (text_bytes log)
                  | Some _ \<Rightarrow> atomic_write destination LOG (text_bytes log)) @
                 fsync_directory destination @
                 open_calls destination \<lparr>f_metadata = f_metadata fs, f_base = f_base fs, f_log = log, f_sidecars = []\<rparr>)))"

text \<open>\<open>compact\<close>: the pieces written to the new base, as far as they can be read.\<close>

fun compact_chunks :: "journal \<Rightarrow> nat \<Rightarrow> int \<Rightarrow> bytes list \<times> exc option" where
  "compact_chunks j 0 start = ([], None)"
| "compact_chunks j (Suc n) start =
     (if blocks j \<le> start then ([], None)
      else (case journal_read j start (min compact_chunk_blocks (blocks j - start)) None of
          Inl e \<Rightarrow> ([], Some e)
        | Inr part \<Rightarrow> (case compact_chunks j n (start + compact_chunk_blocks) of (rest, e) \<Rightarrow> (part # rest, e))))"

definition compact_calls :: "string \<Rightarrow> journal \<Rightarrow> sys_call list" where
  "compact_calls name j =
     snapshot_calls name None j @
     (case snapshot name None j of
        (Inl _, _) \<Rightarrow> []
      | (Inr _, j1) \<Rightarrow>
          (case compact_chunks j1 (nat (blocks j1)) 0 of
             (chunks, None) \<Rightarrow> replace_file [] BASE chunks @ atomic_write [] LOG []
           | (chunks, Some _) \<Rightarrow> Create [] (temporary BASE) # map (Append_To [] (temporary BASE)) chunks))"

lemma compact_chunks_materialise:
  "materialise j n start = (case compact_chunks j n start of (chunks, None) \<Rightarrow> Inr (concat chunks) | (_, Some e) \<Rightarrow> Inl e)"
  by (induction j n start rule: compact_chunks.induct) (auto split: sum.split option.split prod.split simp: bind_res_def)

section \<open>What the files say\<close>

text \<open>The three files that opening reads.\<close>

definition same_core :: "ns \<Rightarrow> ns \<Rightarrow> bool" where
  "same_core fs fs' \<longleftrightarrow> f_metadata fs = f_metadata fs' \<and> f_base fs = f_base fs' \<and> f_log fs = f_log fs'"

lemma view_core [simp]: "view fs METADATA = Some (text_bytes (f_metadata fs))" "view fs BASE = Some (f_base fs)"
  "view fs LOG = Some (text_bytes (f_log fs))"
  by (simp_all add: view_def)

lemma view_same:
  assumes "view fs = view fs'"
  shows "same_core fs fs'"
proof -
  have "view fs n = view fs' n" for n using assms by simp
  from this [of METADATA] this [of BASE] this [of LOG] show ?thesis by (simp add: same_core_def text_bytes_inject)
qed

lemma same_core_trans [trans]: "same_core a b \<Longrightarrow> same_core b c \<Longrightarrow> same_core a c"
  by (simp add: same_core_def)

lemma core_eq: "same_core fs fs' \<Longrightarrow> fs = fs'\<lparr>f_sidecars := f_sidecars fs\<rparr>"
  by (simp add: same_core_def)

lemma open_core:
  assumes "same_core fs fs'" "open_journal fs' [] = Inr j'"
  shows "\<exists>j. open_journal fs snaps = Inr j \<and> log_size j = log_size j' \<and> recovered_tail j = recovered_tail j' \<and> same_core (j_files j) (j_files j')"
  using assms by (auto simp: same_core_def open_journal_def bind_res_def replay_def finish_replay_def discard_torn_tail_def Let_def
      split: sum.splits prod.splits if_splits)

text \<open>Starting again and again: the power may fail at any call of the recovery of the start before.\<close>

inductive crash_loop :: "ns \<Rightarrow> ns \<Rightarrow> bool" where
  first_start: "crash_loop fs fs"
| cut_again: "crash_loop fs fs1 \<Longrightarrow> on_disk s fs1 \<Longrightarrow>
    after_cut ns_names (sys_all (take k (open_calls [] fs1)) s) (view fs2) \<Longrightarrow> crash_loop fs fs2"

lemma calm_loop:
  assumes "crash_loop fs fs'" "\<And>fs1. same_core fs1 fs \<Longrightarrow> open_calls [] fs1 = []"
  shows "same_core fs' fs"
  using assms
proof (induction rule: crash_loop.induct)
  case (cut_again fs fs1 s k fs2)
  then have "same_core fs1 fs" by blast
  moreover have "view fs2 = view fs1"
    using settled_after_cut [OF cut_again(2)] cut_again(3) cut_again(5) [OF \<open>same_core fs1 fs\<close>] by simp
  ultimately show ?case using same_core_trans view_same by blast
qed (simp add: same_core_def)

section \<open>Part of a record\<close>

text \<open>The files of \<open>j\<close>, with the first \<open>k\<close> characters of the record of the write \<open>w\<close>.\<close>

definition with_part :: "journal \<Rightarrow> jwrite \<Rightarrow> nat \<Rightarrow> ns" where
  "with_part j w k = (j_files j)\<lparr>f_log := f_log (j_files j) @ take k (next_line j w)\<rparr>"

lemma history_no_newline:
  assumes rel: "journal_rel j ws"
  shows "history (f_log (j_files j) @ butlast (next_line j w)) = ws @ [w]"
proof -
  let ?bs = "block_size j" and ?st = "log_state (block_size j) ws"
  define c where "c = canonical (JObj (full_record ?bs ?st w))"
  have line: "next_line j w = c @ [nl]" using next_line_rel [OF rel] by (simp add: line_of_eq c_def)
  have lines: "lines_of c = [c]"
    using record_no_nl canonical_dict_hd unfolding c_def by (intro lines_of_partial) (blast, metis list.distinct(1))
  have "line_record c = Some (parsed_of ?bs ?st w)"
    using parse_record_line [where r = "[]" and bs = ?bs and st = ?st and w = w] canonical_nonblank [where r = "[]"]
    by (simp add: line_record_def c_def)
  then have "records (ls @ [c]) = records ls @ [parsed_of ?bs ?st w]" for ls by (simp add: List.map_filter_def)
  moreover have "f_log (j_files j) = log_text ?bs ws" using rel by (simp add: journal_rel_def)
  ultimately show ?thesis
    using history_log_lines [of ?bs replay_init ws] lines_of_log [of ?bs replay_init ws c]
    by (simp add: history_def line lines parsed_of_def write_of_def)
qed

lemma open_with_part:
  assumes rel: "journal_rel j ws" and w: "valid_write (blocks j) (block_size j) w"
  shows "\<exists>j'. open_journal (with_part j w k) [] = Inr j' \<and>
    history (f_log (j_files j')) = (if Suc k < length (next_line j w) then ws else ws @ [w]) \<and>
    (recovered_tail j' = None \<longleftrightarrow> k = 0 \<or> length (next_line j w) \<le> Suc k) \<and>
    (recovered_tail j' \<noteq> None \<longrightarrow> log_size j' = length (f_log (j_files j)))"
proof -
  obtain b d where wbd: "w = (b, d)" by (cases w)
  have long: "3 < length (next_line j w)" by (rule next_line_long)
  consider "k = 0" | "0 < k" "Suc k < length (next_line j w)" | "Suc k = length (next_line j w)" | "length (next_line j w) \<le> k"
    by linarith
  then show ?thesis
  proof cases
    case 1
    then show ?thesis using reopen [OF rel, of "[]"] long rel_hist [OF rel] by (simp add: with_part_def)
  next
    case 2
    have "length (f_log (j_files j)) = log_size j" using rel by (simp add: journal_rel_def log_state_offset)
    then show ?thesis
      using open_torn [OF rel 2 refl, of "[]"] rel_hist [OF rel] 2 by (simp add: with_part_def set_aside_def)
  next
    case 3
    then have t: "take k (next_line j w) = butlast (next_line j w)" by (metis butlast_conv_take diff_Suc_1)
    show ?thesis
      using open_missing_newline [OF rel w [unfolded wbd] refl, of "[]"] history_no_newline [OF rel, of w] 3 t
      by (simp add: with_part_def wbd)
  next
    case 4
    have "0 < block_size j" using rel by (simp add: journal_rel_def)
    then have "j_files (snd (journal_append b d j)) = with_part j w k"
      using append_log(1) [of j b d] w 4 by (simp add: with_part_def wbd)
    then show ?thesis
      using reopen [OF append_rel(2) [OF rel w [unfolded wbd]], of "[]"] rel_hist [OF append_rel(2) [OF rel w [unfolded wbd]]] 4 wbd by simp
  qed
qed

lemma part_open:
  assumes rel: "journal_rel j ws" "valid_write (blocks j) (block_size j) w" and fs: "same_core fs (with_part j w k)"
  obtains j' where "open_journal fs snaps = Inr j'" "history (f_log (j_files j')) = (if Suc k < length (next_line j w) then ws else ws @ [w])"
    "open_calls [] fs = (if k = 0 \<or> length (next_line j w) \<le> Suc k then [] else discard_calls [] (length (f_log (j_files j))) fs)"
proof (rule exE [OF open_with_part [OF rel, of k]], elim conjE)
  fix j'
  assume j': "open_journal (with_part j w k) [] = Inr j'"
    "history (f_log (j_files j')) = (if Suc k < length (next_line j w) then ws else ws @ [w])"
    "recovered_tail j' = None \<longleftrightarrow> k = 0 \<or> length (next_line j w) \<le> Suc k"
    "recovered_tail j' \<noteq> None \<longrightarrow> log_size j' = length (f_log (j_files j))"
  obtain j1 where j1: "open_journal fs snaps = Inr j1" "same_core (j_files j1) (j_files j')" using open_core [OF fs j'(1)] by blast
  obtain j2 where j2: "open_journal fs [] = Inr j2" "log_size j2 = log_size j'" "recovered_tail j2 = recovered_tail j'"
    using open_core [OF fs j'(1)] by blast
  have "open_calls [] fs = (if k = 0 \<or> length (next_line j w) \<le> Suc k then [] else discard_calls [] (length (f_log (j_files j))) fs)"
    using j2 j'(3,4) by (simp add: open_calls_def)
  then show thesis using that [OF j1(1)] j1(2) j'(2) by (simp add: same_core_def)
qed

section \<open>Power cuts inside an append and inside its recovery\<close>

lemma two_changes:
  assumes "settled K s u" "fits K x u" "fits K y (effect x u)" "after_cut K (sys_all (take i (calls_of x @ calls_of y)) s) u'"
  shows "between x u u' \<or> between y (effect x u) u' \<or> u' = effect y (effect x u)"
proof -
  have "u' = fold effect [x, y] u \<or> (\<exists>before z after. [x, y] = before @ z # after \<and> between z (fold effect before u) u')"
    using assms by (intro posix.sequence_cut [of K s u "[x, y]" i]) simp_all
  then show ?thesis by (auto simp: Cons_eq_append_conv)
qed

lemma discard_calls_changes:
  "discard_calls [] off fs = calls_of (Replace (sidecar_name off) [text_bytes (drop off (f_log fs))]) @ calls_of (Shorten LOG off)"
  by (simp add: discard_calls_def atomic_write_def)

lemma discard_cut:
  assumes s: "on_disk s fs" and a: "after_cut ns_names (sys_all (take i (discard_calls [] off fs)) s) u"
  shows "\<exists>m \<ge> off. u METADATA = view fs METADATA \<and> u BASE = view fs BASE \<and> u LOG = Some (take m (text_bytes (f_log fs)))"
proof -
  let ?x = "Replace (sidecar_name off) [text_bytes (drop off (f_log fs))]" and ?y = "Shorten LOG off"
  have "between ?x (view fs) u \<or> between ?y (effect ?x (view fs)) u \<or> u = effect ?y (effect ?x (view fs))"
    using a unfolding discard_calls_changes by (intro two_changes [OF s]) (simp_all add: no_temporary)
  then show ?thesis
  proof (elim disjE)
    assume "between ?x (view fs) u"
    then have "u METADATA = view fs METADATA \<and> u BASE = view fs BASE \<and> u LOG = Some (text_bytes (f_log fs))" by auto
    then show ?thesis by (intro exI [of _ "off + length (text_bytes (f_log fs))"]) simp
  qed auto
qed

lemma part_step:
  assumes rel: "journal_rel j ws" "valid_write (blocks j) (block_size j) w" and fs: "same_core fs (with_part j w k)"
    and s: "on_disk s fs" "after_cut ns_names (sys_all (take i (open_calls [] fs)) s) (view fs2)"
  shows "\<exists>k'. same_core fs2 (with_part j w k') \<and> (k' = k \<or> Suc k < length (next_line j w) \<and> k' \<le> k)"
proof (cases "open_calls [] fs = []")
  case True
  then have "view fs2 = view fs" using s settled_after_cut by fastforce
  then show ?thesis using view_same same_core_trans fs by blast
next
  case False
  let ?off = "length (f_log (j_files j))"
  have k: "Suc k < length (next_line j w)" "open_calls [] fs = discard_calls [] ?off fs"
    using part_open [OF rel fs] False by (metis not_less_eq_eq linorder_not_less)+
  obtain m where m: "?off \<le> m" "view fs2 METADATA = view fs METADATA" "view fs2 BASE = view fs BASE"
    "view fs2 LOG = Some (take m (text_bytes (f_log fs)))" using discard_cut [OF s(1)] s(2) k(2) by force
  have "text_bytes (f_log fs2) = text_bytes (take m (f_log fs))" using m(4) by (simp add: text_bytes_def take_map)
  then have "f_log fs2 = take m (f_log fs)" by (simp add: text_bytes_inject)
  also have "\<dots> = f_log (j_files j) @ take (min (m - ?off) k) (next_line j w)"
    using fs m(1) by (simp add: same_core_def with_part_def)
  finally have "same_core fs2 (with_part j w (min (m - ?off) k))"
    using m(2,3) fs by (simp add: same_core_def with_part_def text_bytes_inject)
  then show ?thesis using k(1) by (intro exI [of _ "min (m - ?off) k"]) auto
qed

lemma part_loop:
  assumes "crash_loop fs fs'" "journal_rel j ws" "valid_write (blocks j) (block_size j) w" "same_core fs (with_part j w k)"
  shows "\<exists>k'. same_core fs' (with_part j w k') \<and> (k' = k \<or> Suc k < length (next_line j w) \<and> k' \<le> k)"
  using assms
proof (induction rule: crash_loop.induct)
  case (cut_again fs fs1 s i fs2)
  then obtain k1 where k1: "same_core fs1 (with_part j w k1)" "k1 = k \<or> Suc k < length (next_line j w) \<and> k1 \<le> k" by blast
  obtain k2 where "same_core fs2 (with_part j w k2)" "k2 = k1 \<or> Suc k1 < length (next_line j w) \<and> k2 \<le> k1"
    using part_step [OF cut_again.prems(1,2) k1(1) cut_again(2,3)] by blast
  then show ?case using k1(2) by (intro exI [of _ k2]) auto
qed blast

lemma append_calls_valid:
  assumes "journal_rel j ws" "valid_write (blocks j) (block_size j) (b, d)"
  shows "append_calls b d j = calls_of (Extend LOG (text_bytes (next_line j (b, d))))"
  using append_rel(1) [OF assms] by (simp add: append_calls_def)

lemma append_cut:
  assumes rel: "journal_rel j ws" "valid_write (blocks j) (block_size j) (b, d)" and s: "on_disk s (j_files j)"
    and a: "after_cut ns_names (sys_all (take k (append_calls b d j)) s) u"
  shows "\<exists>i. u = view (with_part j (b, d) i) \<and> (length (append_calls b d j) \<le> k \<longrightarrow> length (next_line j (b, d)) \<le> i)"
proof -
  let ?line = "next_line j (b, d)" and ?u = "view (j_files j)" and ?x = "Extend LOG (text_bytes (next_line j (b, d)))"
  have ext: "?u(LOG := map_option (\<lambda>old. old @ take i (text_bytes ?line)) (?u LOG)) = view (with_part j (b, d) i)" for i
    by (auto simp: view_def with_part_def fun_eq_iff text_bytes_def take_map)
  show ?thesis
  proof (cases "length (append_calls b d j) \<le> k")
    case True
    then have "u = effect ?x ?u"
      using a settled_after_cut posix.completed [OF s, of ?x] unfolding append_calls_valid [OF rel] by auto
    then show ?thesis using ext [of "length ?line"] by (intro exI [of _ "length ?line"]) (simp add: text_bytes_def)
  next
    case False
    have "between ?x ?u u" using a unfolding append_calls_valid [OF rel] by (intro posix.cut_short [OF s]) simp_all
    then show ?thesis using ext False by auto
  qed
qed

end
