(* ===== verification/Power_Cuts.thy ===== *)
theory Power_Cuts
  imports Durable_Journal
begin

text \<open>
  What a power cut can do to the journal: nothing acknowledged is lost, at most the write in flight is
  missing, compaction keeps every byte, and recovery may itself be cut any number of times. The copy that
  \<^verbatim>\<open>compact\<close> retains is the exception: nothing synchronises it.
\<close>

section \<open>The operations write what the model says\<close>

lemma view_update: "view (fs\<lparr>f_base := b, f_log := t\<rparr>) = (view fs)(BASE \<mapsto> b, LOG \<mapsto> text_bytes t)"
  by (auto simp: view_def fun_eq_iff)

lemma sidecar_text: "''journal.jsonl.torn-'' @ show_nat off = sidecar_name off"
  by (simp add: sidecar_name_def LOG_def)

lemma view_discard:
  "view (snd (discard_torn_tail off reason fs)) =
     (view fs)(sidecar_name off \<mapsto> text_bytes (drop off (f_log fs)), LOG \<mapsto> take off (text_bytes (f_log fs)))"
  unfolding discard_torn_tail_def Let_def sidecar_text
  by (auto simp: view_def fun_eq_iff update_conv text_bytes_def take_map)

lemma open_reaches_disk:
  assumes s: "on_disk s fs" and j: "open_journal fs snaps = Inr j"
  shows "on_disk (sys_all (open_calls [] fs) s) (j_files j)"
proof -
  obtain j0 where j0: "open_journal fs [] = Inr j0" "log_size j0 = log_size j" "recovered_tail j0 = recovered_tail j"
    "same_core (j_files j0) (j_files j)"
    using j by (auto simp: open_journal_def bind_res_def replay_def finish_replay_def discard_torn_tail_def Let_def same_core_def
      split: sum.splits prod.splits if_splits)
  have files: "j_files j = (if recovered_tail j = None then fs else snd (discard_torn_tail (log_size j) reason fs))" for reason
    using j by (auto simp: open_journal_def bind_res_def replay_def finish_replay_def discard_torn_tail_def Let_def
      split: sum.splits prod.splits if_splits)
  show ?thesis
  proof (cases "recovered_tail j = None")
    case True
    then show ?thesis using s j0 files by (simp add: open_calls_def)
  next
    case False
    let ?off = "log_size j"
    let ?x = "Replace (sidecar_name ?off) [text_bytes (drop ?off (f_log fs))]" and ?y = "Shorten LOG ?off"
    have "settled ns_names (sys_all (concat (map calls_of [?x, ?y])) s) (fold effect [?x, ?y] (view fs))"
      by (rule posix.all_completed [OF s]) (simp add: no_temporary)
    moreover have "effect ?y (effect ?x (view fs)) = view (j_files j)"
      unfolding files [of "[]"] using False view_discard [of ?off "[]" fs] by auto
    ultimately show ?thesis using False j0 by (auto simp: open_calls_def discard_calls_changes)
  qed
qed

lemma append_reaches_disk:
  assumes rel: "journal_rel j ws" and s: "on_disk s (j_files j)"
  shows "on_disk (sys_all (append_calls b d j) s) (j_files (snd (journal_append b d j)))"
proof (cases "valid_write (blocks j) (block_size j) (b, d)")
  case True
  let ?x = "Extend LOG (text_bytes (next_line j (b, d)))"
  have bs: "0 < block_size j" using rel by (simp add: journal_rel_def)
  have "settled ns_names (sys_all (calls_of ?x) s) (effect ?x (view (j_files j)))" by (rule posix.completed [OF s]) simp
  moreover have "effect ?x (view (j_files j)) = view (j_files (snd (journal_append b d j)))"
    using append_log(1) [OF bs True] by (auto simp: view_def fun_eq_iff text_bytes_def)
  ultimately show ?thesis by (simp only: append_calls_valid [OF rel True])
next
  case False
  have "0 < block_size j" using rel by (simp add: journal_rel_def)
  then have "\<exists>e. journal_append b d j = (Inl (ValueError e), j)" using False by (simp add: journal_append_cases)
  then show ?thesis using s by (auto simp: append_calls_def)
qed

lemma elsewhere_writes:
  "d \<noteq> [] \<Longrightarrow> list_all elsewhere (replace_file d n chunks)" "d \<noteq> [] \<Longrightarrow> list_all elsewhere (open_calls d fs)"
  by (auto simp: replace_file_def fsync_directory_def list_all_iff open_calls_def discard_calls_def atomic_write_def split: sum.split)

lemma elsewhere_snapshot: "list_all elsewhere (snapshot_calls name at_sequence j)"
  by (auto simp: snapshot_calls_def Let_def copy_calls_def fsync_directory_def atomic_write_def elsewhere_writes split: option.split sum.split)

lemma snapshot_reaches_disk:
  "on_disk s (j_files j) \<Longrightarrow> on_disk (sys_all (snapshot_calls name at_sequence j) s) (j_files (snd (snapshot name at_sequence j)))"
  using posix.completed [of ns_names s "view (j_files j)" "Aside (snapshot_calls name at_sequence j)"] elsewhere_snapshot
  by (simp add: snapshot_files)

lemma settled_sync:
  assumes "settled K s u" "n \<in> K"
  shows "settled K (sys (Sync [] n) s) u"
proof -
  obtain e where e: "entries K s e" "\<And>x i. x \<in> K \<Longrightarrow> e x = Some i \<Longrightarrow> disk_bytes s i = seen_bytes s i" using assms(1) by (rule settledE) blast
  have "sys (Sync [] n) s = s"
  proof (cases "e n")
    case None
    then have "plain (present s []) n = None" using entries_present [OF e(1)] assms(2) by simp
    then show ?thesis by (auto simp: on_file_def plain_def split: option.splits node.splits)
  next
    case (Some i)
    then show ?thesis using on_file_entry [OF e(1) _ Some] assms(2) e(2) [OF assms(2) Some] by (simp add: fun_upd_idem)
  qed
  then show ?thesis using assms(1) by simp
qed

lemma flush_reaches_disk: "on_disk s fs \<Longrightarrow> on_disk (sys_all flush_calls s) fs"
  unfolding flush_calls_def by (simp add: settled_sync del: sys.simps)

text \<open>The calls of a compaction that succeeds, as changes of the store.\<close>

lemma compact_changes:
  assumes rel: "journal_rel j ws" and name: "good_name name" "map_of (j_snapshots j) name = None"
  obtains chunks where "concat chunks = jimage j"
    "compact_calls name j = concat (map calls_of [Aside (snapshot_calls name None j), Replace BASE chunks, Replace LOG [[]]])"
    "j_files (snd (journal_compact name j)) = (j_files j)\<lparr>f_base := jimage j, f_log := []\<rparr>"
proof -
  obtain r j1 where sn: "snapshot name None j = (r, j1)" by (cases "snapshot name None j")
  note c = compact_rel [OF rel name]
  obtain x where x: "r = Inr x" using c(1) sn by (cases r) (auto simp: journal_compact_def bind_op_def)
  obtain base where base: "materialise j1 (nat (blocks j1)) 0 = Inr base"
    using c(1) sn x by (cases "materialise j1 (nat (blocks j1)) 0") (auto simp: journal_compact_def bind_op_def)
  then have "base = jimage j" using c(3) sn x jimage_rel [OF rel] by (simp add: journal_compact_def bind_op_def)
  moreover from this have "j_files (snd (journal_compact name j)) = (j_files j)\<lparr>f_base := jimage j, f_log := []\<rparr>"
    using base sn x snapshot_files [of name None j] by (simp add: journal_compact_def bind_op_def)
  moreover obtain chunks e where ch: "compact_chunks j1 (nat (blocks j1)) 0 = (chunks, e)" by (cases "compact_chunks j1 (nat (blocks j1)) 0")
  ultimately have "concat chunks = jimage j" "e = None"
    using base compact_chunks_materialise [of j1 "nat (blocks j1)" 0] by (auto split: option.splits)
  with \<open>j_files _ = _\<close> show thesis using sn x ch by (intro that [of chunks]) (simp_all add: compact_calls_def atomic_write_def)
qed

lemma compact_reaches_disk:
  assumes rel: "journal_rel j ws" and name: "good_name name" "map_of (j_snapshots j) name = None" and s: "on_disk s (j_files j)"
  shows "on_disk (sys_all (compact_calls name j) s) (j_files (snd (journal_compact name j)))"
proof -
  obtain chunks where ch: "concat chunks = jimage j"
    "compact_calls name j = concat (map calls_of [Aside (snapshot_calls name None j), Replace BASE chunks, Replace LOG [[]]])"
    "j_files (snd (journal_compact name j)) = (j_files j)\<lparr>f_base := jimage j, f_log := []\<rparr>"
    using compact_changes [OF rel name] .
  have "settled ns_names (sys_all (compact_calls name j) s)
      (fold effect [Aside (snapshot_calls name None j), Replace BASE chunks, Replace LOG [[]]] (view (j_files j)))"
    unfolding ch(2) by (rule posix.all_completed [OF s]) (simp add: no_temporary elsewhere_snapshot)
  then show ?thesis by (simp add: ch(1,3) view_update text_bytes_def)
qed

section \<open>Compaction\<close>

lemma three_changes:
  assumes "settled K s u" "fits K x u" "fits K y (effect x u)" "fits K z (effect y (effect x u))"
    "after_cut K (sys_all (take i (concat (map calls_of [x, y, z]))) s) u'"
  shows "between x u u' \<or> between y (effect x u) u' \<or> between z (effect y (effect x u)) u' \<or> u' = effect z (effect y (effect x u))"
proof -
  have "u' = fold effect [x, y, z] u \<or> (\<exists>before c after. [x, y, z] = before @ c # after \<and> between c (fold effect before u) u')"
    using assms by (intro posix.sequence_cut [of K s u "[x, y, z]" i]) simp_all
  then show ?thesis by (auto simp: Cons_eq_append_conv)
qed

lemma compact_cut:
  assumes rel: "journal_rel j ws" and name: "good_name name" "map_of (j_snapshots j) name = None" and s: "on_disk s (j_files j)"
    and a: "after_cut ns_names (sys_all (take k (compact_calls name j)) s) u"
  shows "u = view (j_files j) \<or> u = view ((j_files j)\<lparr>f_base := jimage j\<rparr>) \<or> u = view ((j_files j)\<lparr>f_base := jimage j, f_log := []\<rparr>)"
proof -
  obtain chunks where ch: "concat chunks = jimage j"
    "compact_calls name j = concat (map calls_of [Aside (snapshot_calls name None j), Replace BASE chunks, Replace LOG [[]]])"
    using compact_changes [OF rel name] .
  let ?x = "Aside (snapshot_calls name None j)" and ?y = "Replace BASE chunks" and ?z = "Replace LOG [[]]" and ?u = "view (j_files j)"
  have "between ?x ?u u \<or> between ?y (effect ?x ?u) u \<or> between ?z (effect ?y (effect ?x ?u)) u \<or> u = effect ?z (effect ?y (effect ?x ?u))"
    using a unfolding ch(2) by (intro three_changes [OF s]) (simp_all add: no_temporary elsewhere_snapshot)
  moreover have "view ((j_files j)\<lparr>f_base := jimage j\<rparr>) = ?u(BASE \<mapsto> jimage j)" by (auto simp: view_def fun_eq_iff)
  ultimately show ?thesis by (auto simp: ch(1) view_update text_bytes_def)
qed

lemma whole_log_image:
  assumes rel: "journal_rel j ws" and fs: "same_core fs (j_files j)"
  shows "open_calls [] fs = []" "\<exists>j'. open_journal fs snaps = Inr j' \<and> jimage j' = jimage j"
proof -
  let ?j = "j\<lparr>j_files := fs\<rparr>"
  have r: "journal_rel ?j ws" using rel fs by (simp add: journal_rel_def same_core_def)
  show "open_calls [] fs = []" using reopen [OF r, of "[]"] by (simp add: open_calls_def)
  have "jimage (?j\<lparr>j_snapshots := snaps, recovered_tail := None\<rparr>) = jimage j"
    using jimage_rel [OF r] jimage_rel [OF rel] fs by (simp add: jimage_def same_core_def)
  then show "\<exists>j'. open_journal fs snaps = Inr j' \<and> jimage j' = jimage j" using reopen [OF r, of snaps] by auto
qed

text \<open>The new base under the old log.\<close>

lemma new_base_rel:
  assumes rel: "journal_rel j ws"
  shows "journal_rel (j\<lparr>j_files := (j_files j)\<lparr>f_base := jimage j\<rparr>\<rparr>) ws" "jimage (j\<lparr>j_files := (j_files j)\<lparr>f_base := jimage j\<rparr>\<rparr>) = jimage j"
proof -
  let ?j = "j\<lparr>j_files := (j_files j)\<lparr>f_base := jimage j\<rparr>\<rparr>"
  obtain j' where j': "f_base (j_files j') = jimage j" "journal_rel j' ws" "blocks j' = blocks j" "block_size j' = block_size j"
    "disk (block_size j) (f_base (j_files j')) ws = jimage j"
    using compact_crash [OF rel, of "[]"] jimage_rel [OF rel] by auto
  have "int (length (jimage j)) = blocks j * block_size j" using j' by (simp add: journal_rel_def)
  then show r: "journal_rel ?j ws" using rel by (simp add: journal_rel_def)
  show "jimage ?j = jimage j" using jimage_rel [OF r] j' by simp
qed

lemma compact_states:
  assumes rel: "journal_rel j ws" and name: "good_name name" "map_of (j_snapshots j) name = None"
    and fs: "fs \<in> {j_files j, (j_files j)\<lparr>f_base := jimage j\<rparr>, (j_files j)\<lparr>f_base := jimage j, f_log := []\<rparr>}" and fs': "same_core fs' fs"
  shows "open_calls [] fs' = []" "\<exists>j'. open_journal fs' snaps = Inr j' \<and> jimage j' = jimage j"
proof -
  obtain j1 vs where j1: "journal_rel j1 vs" "j_files j1 = fs" "jimage j1 = jimage j"
  proof -
    obtain j2 where "journal_rel j2 ws" "j_files j2 = (j_files j)\<lparr>f_base := jimage j\<rparr>" "jimage j2 = jimage j"
      using new_base_rel [OF rel] by fastforce
    moreover have "j_files (snd (journal_compact name j)) = (j_files j)\<lparr>f_base := jimage j, f_log := []\<rparr>"
      using compact_changes [OF rel name] by blast
    moreover have "jimage (snd (journal_compact name j)) = jimage j"
      using compact_rel [OF rel name] jimage_rel [OF rel] jimage_rel [OF compact_rel(2) [OF rel name]] by simp
    ultimately show thesis using fs that rel compact_rel(2) [OF rel name] by blast
  qed
  then show "open_calls [] fs' = []" "\<exists>j'. open_journal fs' snaps = Inr j' \<and> jimage j' = jimage j"
    using whole_log_image [OF j1(1)] fs' by simp_all
qed

section \<open>Examples\<close>

text \<open>A disk that holds the three files of a namespace and nothing else.\<close>

definition example_dir :: "string \<Rightarrow> node option" where
  "example_dir = [METADATA \<mapsto> Plain 0, BASE \<mapsto> Plain 1, LOG \<mapsto> Plain 2]"

definition example_store :: "ns \<Rightarrow> store" where
  "example_store fs =
     (let content = (\<lambda>i. if i = 0 then text_bytes (f_metadata fs) else if i = 1 then f_base fs else if i = 2 then text_bytes (f_log fs) else []) in
      \<lparr>dir_states = (\<lambda>d. [if d = [] then example_dir else Map.empty]), seen_bytes = content, disk_bytes = content, next_inode = 3\<rparr>)"

lemma example_on_disk:
  assumes "f_sidecars fs = []"
  shows "on_disk (example_store fs) fs"
proof -
  let ?e = "plain example_dir"
  have e: "?e x = (if x = LOG then Some 2 else if x = BASE then Some 1 else if x = METADATA then Some 0 else None)" for x
    by (simp add: plain_def example_dir_def)
  have "apart ns_names (example_store fs) ?e"
    by (auto simp: apart_def e example_store_def Let_def split: if_splits)
  then have "entries ns_names (example_store fs) ?e" by (simp add: entries_def example_store_def Let_def)
  moreover have "view fs = (\<lambda>x. if x \<in> ns_names then map_option (seen_bytes (example_store fs)) (?e x) else None)"
    using assms by (auto simp: view_def e example_store_def Let_def fun_eq_iff ns_names_def)
  ultimately show ?thesis unfolding settled_def by (intro exI [of _ ?e]) (simp add: example_store_def Let_def)
qed

lemma open_empty_log: "open_journal fs snaps = Inr j \<Longrightarrow> f_log fs = [] \<Longrightarrow> j_files j = fs"
  by (auto simp: open_journal_def bind_res_def replay_def finish_replay_def Let_def split: sum.splits prod.splits if_splits)

lemma sample1_on_disk: "on_disk (example_store (j_files sample1)) (j_files sample1)"
proof -
  obtain j where j: "provision False ''id'' 4 512 (Some ''dev'') = Inr j"
    by (rule provision_rel [of 4 512]) (simp_all, blast)
  then have "sample0 = j" by (simp add: sample0_def)
  moreover have "f_sidecars (j_files j) = []" using j by (auto simp: provision_def Let_def dest!: open_empty_log split: if_splits)
  ultimately have "f_sidecars (j_files sample1) = []"
    by (simp add: sample1_def journal_append_def Let_def split: sum.split)
  then show ?thesis by (rule example_on_disk)
qed

lemma sys_nonempty: "(\<And>d. dir_states s d \<noteq> []) \<Longrightarrow> dir_states (sys c s) d \<noteq> []"
  by (cases c) (auto simp: on_file_def put_dir_def split: option.split node.split)

lemma sys_all_nonempty: "(\<And>d. dir_states s d \<noteq> []) \<Longrightarrow> dir_states (sys_all cs s) d \<noteq> []"
  by (induction cs arbitrary: s) (simp_all add: sys_nonempty del: sys.simps)

lemma example_cut: "\<exists>u. after_cut K (sys_all cs (example_store fs)) u"
  by (rule after_cut_exists, rule sys_all_nonempty) (simp add: example_store_def Let_def)

section \<open>Nothing acknowledged is lost\<close>

text \<open>
  C6. The power fails at any system call of an append, and then again at any call of the recovery that
  the next start runs, any number of times. Whatever the disk holds then opens, to the history before the
  write or to the history with it; once the append has made its last call, the write is there.
\<close>

theorem append_survives_power_cuts:
  assumes "reachable j" "valid_write (blocks j) (block_size j) (b, d)" "on_disk s (j_files j)"
    and "after_cut ns_names (sys_all (take k (append_calls b d j)) s) u"
  shows "(\<exists>fs. u = view fs) \<and> (\<forall>fs fs'. u = view fs \<longrightarrow> crash_loop fs fs' \<longrightarrow>
    (\<exists>j'. open_journal fs' snaps = Inr j' \<and>
       (hist j' = hist j @ [(b, d)] \<or> k < length (append_calls b d j) \<and> hist j' = hist j)))"
proof -
  let ?w = "(b, d)"
  note rel = reachable_rel [OF assms(1)]
  obtain i where i: "u = view (with_part j ?w i)" "length (append_calls b d j) \<le> k \<longrightarrow> length (next_line j ?w) \<le> i"
    using append_cut [OF rel assms(2-4)] by blast
  have "\<exists>j'. open_journal fs' snaps = Inr j' \<and> (hist j' = hist j @ [?w] \<or> k < length (append_calls b d j) \<and> hist j' = hist j)"
    if vw: "u = view fs" and loop: "crash_loop fs fs'" for fs fs'
  proof -
    have "same_core fs (with_part j ?w i)" using vw i(1) view_same by simp
    then obtain i' where i': "same_core fs' (with_part j ?w i')" "i' = i \<or> Suc i < length (next_line j ?w) \<and> i' \<le> i"
      using part_loop [OF loop rel assms(2)] by blast
    obtain j' where j': "open_journal fs' snaps = Inr j'" "hist j' = (if Suc i' < length (next_line j ?w) then hist j else hist j @ [?w])"
      using part_open [OF rel assms(2) i'(1)] by metis
    then show ?thesis using i(2) i'(2) by (auto simp: not_le [symmetric])
  qed
  then show ?thesis using i(1) by blast
qed

text \<open>Witness: the disk of one namespace, after both calls of an append.\<close>

theorem append_survives_power_cuts_witness:
  "\<exists>u fs. after_cut ns_names (sys_all (append_calls 0 (page 9 @ page 8) sample1) (example_store (j_files sample1))) u \<and> u = view fs \<and>
     (\<exists>j'. open_journal fs [] = Inr j' \<and> hist j' = [(1, page 7), (0, page 9 @ page 8)])"
proof -
  let ?cs = "append_calls 0 (page 9 @ page 8) sample1" and ?s = "example_store (j_files sample1)"
  obtain u where u: "after_cut ns_names (sys_all ?cs ?s) u" using example_cut by blast
  have "(\<exists>fs. u = view fs) \<and> (\<forall>fs fs'. u = view fs \<longrightarrow> crash_loop fs fs' \<longrightarrow>
    (\<exists>j'. open_journal fs' [] = Inr j' \<and> (hist j' = hist sample1 @ [(0, page 9 @ page 8)] \<or> length ?cs < length ?cs \<and> hist j' = hist sample1)))"
    by (rule append_survives_power_cuts [OF sample1_facts(1) sample_write sample1_on_disk]) (simp add: u)
  then show ?thesis using u sample1_facts(6) crash_loop.first_start by fastforce
qed

text \<open>
  C12. The power fails at any system call of a compaction, while the copy, the new base or the empty log is
  written, and then at any call of later starts: the journal opens, and its image is the image before.
\<close>

theorem compact_survives_power_cuts:
  assumes "reachable j" "good_name name" "map_of (j_snapshots j) name = None" "on_disk s (j_files j)"
    and "after_cut ns_names (sys_all (take k (compact_calls name j)) s) u"
  shows "(\<exists>fs. u = view fs) \<and> (\<forall>fs fs'. u = view fs \<longrightarrow> crash_loop fs fs' \<longrightarrow>
    (\<exists>j'. open_journal fs' snaps = Inr j' \<and> jimage j' = jimage j))"
proof -
  note rel = reachable_rel [OF assms(1)]
  obtain fs0 where fs0: "u = view fs0"
    "fs0 \<in> {j_files j, (j_files j)\<lparr>f_base := jimage j\<rparr>, (j_files j)\<lparr>f_base := jimage j, f_log := []\<rparr>}"
    using compact_cut [OF rel assms(2-5)] by blast
  have "\<exists>j'. open_journal fs' snaps = Inr j' \<and> jimage j' = jimage j" if "u = view fs" "crash_loop fs fs'" for fs fs'
  proof -
    have "same_core fs fs0" using that(1) fs0(1) view_same by simp
    then have "same_core fs' fs"
      using compact_states(1) [OF rel assms(2,3) fs0(2)] same_core_trans by (intro calm_loop [OF that(2)]) blast
    then show ?thesis using compact_states(2) [OF rel assms(2,3) fs0(2)] same_core_trans \<open>same_core fs fs0\<close> by blast
  qed
  then show ?thesis using fs0(1) by blast
qed

theorem compact_survives_power_cuts_witness:
  "\<exists>u fs. after_cut ns_names (sys_all (take 9 (compact_calls ''c'' sample1)) (example_store (j_files sample1))) u \<and> u = view fs \<and>
     (\<exists>j'. open_journal fs [] = Inr j' \<and> jimage j' = jimage sample1)"
proof -
  let ?s = "sys_all (take 9 (compact_calls ''c'' sample1)) (example_store (j_files sample1))"
  obtain u where u: "after_cut ns_names ?s u" using example_cut by blast
  have "(\<exists>fs. u = view fs) \<and> (\<forall>fs fs'. u = view fs \<longrightarrow> crash_loop fs fs' \<longrightarrow> (\<exists>j'. open_journal fs' [] = Inr j' \<and> jimage j' = jimage sample1))"
    by (rule compact_survives_power_cuts [OF sample1_facts(1) _ _ sample1_on_disk u]) (simp_all add: sample1_facts good_name_def name_alphabet_def)
  then show ?thesis using u crash_loop.first_start by blast
qed

section \<open>The model of the files\<close>

text \<open>
  C25. The operations leave on the disk exactly the files that the journal's record says: when the calls of
  an opening, an append, a snapshot, a compaction or a flush have been made, no power cut changes
  these files any more.
\<close>

theorem operations_reach_disk:
  assumes "reachable j" "on_disk s (j_files j)"
  shows "on_disk (sys_all (append_calls b d j) s) (j_files (snd (journal_append b d j))) \<and>
    on_disk (sys_all (snapshot_calls name at_sequence j) s) (j_files (snd (snapshot name at_sequence j))) \<and>
    (good_name name \<and> map_of (j_snapshots j) name = None \<longrightarrow>
       on_disk (sys_all (compact_calls name j) s) (j_files (snd (journal_compact name j)))) \<and>
    on_disk (sys_all flush_calls s) (j_files j) \<and>
    (\<forall>s fs j'. on_disk s fs \<and> open_journal fs snaps = Inr j' \<longrightarrow> on_disk (sys_all (open_calls [] fs) s) (j_files j'))"
  using append_reaches_disk [OF reachable_rel [OF assms(1)] assms(2)] snapshot_reaches_disk [OF assms(2)]
    compact_reaches_disk [OF reachable_rel [OF assms(1)] _ _ assms(2)] flush_reaches_disk [OF assms(2)] open_reaches_disk by blast

theorem operations_reach_disk_witness:
  "on_disk (sys_all (append_calls 0 (page 9 @ page 8) sample1) (example_store (j_files sample1)))
     (j_files (snd (journal_append 0 (page 9 @ page 8) sample1))) \<and>
   on_disk (sys_all (compact_calls ''c'' sample1) (example_store (j_files sample1))) (j_files (snd (journal_compact ''c'' sample1)))"
  using operations_reach_disk [OF sample1_facts(1) sample1_on_disk, where name = "''c''" and b = 0 and d = "page 9 @ page 8"]
  by (simp add: sample1_facts good_name_def name_alphabet_def)

section \<open>The retained snapshot\<close>

lemma unsynced_call:
  assumes "\<exists>m \<in> set (dir_states s d). m n = None" "c \<noteq> Sync_Dir d"
  shows "\<exists>m \<in> set (dir_states (sys c s) d). m n = None"
  using assms by (cases c) (auto simp: on_file_def put_dir_def split: option.split node.split)

lemma unsynced_calls:
  assumes "\<exists>m \<in> set (dir_states s d). m n = None" "Sync_Dir d \<notin> set cs"
  shows "\<exists>m \<in> set (dir_states (sys_all cs s) d). m n = None"
  using assms
proof (induction cs arbitrary: s)
  case (Cons c cs)
  then have "\<exists>m \<in> set (dir_states (sys c s) d). m n = None" by (intro unsynced_call) auto
  then show ?case using Cons by simp
qed simp

lemma compact_leaves_unsynced: "Sync_Dir [''snapshots''] \<notin> set (compact_calls name j)"
  by (auto simp: compact_calls_def snapshot_calls_def Let_def copy_calls_def fsync_directory_def atomic_write_def replace_file_def
      open_calls_def discard_calls_def split: sum.split prod.split option.split)

text \<open>
  C20. \<open>compact\<close> empties the log and relies on the retained snapshot for the history, but the directory
  \<^verbatim>\<open>snapshots/\<close> is never synchronised: after \<open>compact\<close> has returned, a power cut may leave the empty log and no
  snapshot at all.
\<close>

theorem compact_may_lose_history:
  assumes "reachable j" "good_name name" "map_of (j_snapshots j) name = None"
    and "on_disk s (j_files j)" "present s [''snapshots''] name = None"
  shows "\<exists>v. crashed (sys_all (compact_calls name j) s) v \<and> v [] LOG = Some [] \<and> (\<forall>n. v [''snapshots'', name] n = None)"
proof -
  let ?s = "sys_all (compact_calls name j) s" and ?d = "[''snapshots'']"
  have fin: "on_disk ?s (j_files (snd (journal_compact name j)))" by (rule compact_reaches_disk [OF reachable_rel [OF assms(1)] assms(2-4)])
  have ne: "dir_states s d \<noteq> []" "dir_states ?s d \<noteq> []" for d
    using assms(4) fin by (auto simp: settled_def entries_def apart_def)
  obtain m where m: "m \<in> set (dir_states ?s ?d)" "m name = None"
    using unsynced_calls [OF _ compact_leaves_unsynced] assms(5) present_in [OF ne(1)] by blast
  define pick where "pick d = (if d = ?d then m else present ?s d)" for d
  let ?v = "found pick (seen_bytes ?s)"
  have cr: "crashed ?s ?v"
    unfolding crashed_def using m(1) present_in [OF ne(2)] by (intro exI [of _ pick] exI [of _ "seen_bytes ?s"]) (simp add: pick_def torn_def)
  then have "after_cut ns_names ?s (\<lambda>x. if x \<in> ns_names then ?v [] x else None)" unfolding after_cut_def by blast
  then have "(\<lambda>x. if x \<in> ns_names then ?v [] x else None) = view (j_files (snd (journal_compact name j)))"
    by (rule settled_after_cut [OF fin])
  from fun_cong [OF this, of LOG] have "?v [] LOG = Some []"
    using compact_rel(2) [OF reachable_rel [OF assms(1)] assms(2,3)] by (simp add: journal_rel_def text_bytes_def)
  moreover have "\<not> there pick [''snapshots'', name]"
    using m(2) by (simp add: there_def pick_def exI [of _ "Suc 0"])
  then have "?v [''snapshots'', name] n = None" for n by (simp add: found_def)
  ultimately show ?thesis using cr by blast
qed

theorem compact_may_lose_history_witness:
  "\<exists>v. crashed (sys_all (compact_calls ''c'' sample1) (example_store (j_files sample1))) v \<and> v [] LOG = Some [] \<and>
     (\<forall>n. v [''snapshots'', ''c''] n = None)"
  by (rule compact_may_lose_history [OF sample1_facts(1) _ _ sample1_on_disk])
    (simp_all add: sample1_facts good_name_def name_alphabet_def present_def example_store_def Let_def)

end
