(* ===== verification/Journal_Reader.thy ===== *)
theory Journal_Reader
  imports Power_Cuts
begin

text \<open>
  The journal object with its long-lived read handle (\<^verbatim>\<open>_reader\<close>, \<^verbatim>\<open>_close_reader\<close>, \<^verbatim>\<open>_payload_at\<close>, \<^verbatim>\<open>close\<close> and the
  context manager of \<^verbatim>\<open>core/journal.py\<close>). A handle stays with the file it was opened on, also when the name is
  given to another file, as \<^verbatim>\<open>compact\<close> does. The object is run on the calls of \<open>Durable_Journal\<close>; the
  result is that the handle never changes an answer.
\<close>

section \<open>The object\<close>

record log_handle =
  lh_inode :: nat
  lh_closed :: bool

record journal_object =
  jo_journal :: journal
  jo_store :: store
  jo_reader :: "log_handle option"

definition file_inode :: "store \<Rightarrow> string \<Rightarrow> nat option" where
  "file_inode s n = plain (present s []) n"

text \<open>\<open>_reader\<close>: the shared handle, opened if there is none or it is closed.\<close>

definition obj_reader :: "(journal_object, log_handle) oper" where
  "obj_reader jo =
     (if (case jo_reader jo of None \<Rightarrow> True | Some h \<Rightarrow> lh_closed h)
      then (case file_inode (jo_store jo) LOG of
              None \<Rightarrow> (Inl (OSError LOG), jo)
            | Some i \<Rightarrow> (let h = \<lparr>lh_inode = i, lh_closed = False\<rparr> in (Inr h, jo\<lparr>jo_reader := Some h\<rparr>)))
      else (Inr (the (jo_reader jo)), jo))"

definition obj_close_reader :: "journal_object \<Rightarrow> journal_object" where
  "obj_close_reader jo = jo\<lparr>jo_reader := None\<rparr>"

text \<open>\<open>close\<close>, \<open>__exit__\<close> and \<open>__del__\<close> close the handle; \<open>__enter__\<close> returns the object.\<close>

definition obj_close :: "journal_object \<Rightarrow> journal_object" where
  "obj_close jo = obj_close_reader jo"

definition obj_enter :: "journal_object \<Rightarrow> journal_object" where
  "obj_enter jo = jo"

definition obj_exit :: "journal_object \<Rightarrow> journal_object" where
  "obj_exit jo = obj_close jo"

definition obj_del :: "journal_object \<Rightarrow> journal_object" where
  "obj_del jo = obj_close_reader jo"

section \<open>Reading through the handle\<close>

text \<open>What \<open>_payload_at\<close> does with the line that it has read.\<close>

definition payload_from :: "journal \<Rightarrow> record_index \<Rightarrow> string \<Rightarrow> bytes res" where
  "payload_from j entry raw =
     (case (case json_loads raw of Some (JObj d) \<Rightarrow> map_option (\<lambda>data. (d, data)) (b64_field d) | _ \<Rightarrow> None) of
        None \<Rightarrow> Inl (JournalCorruptionError ''journal record could not be read back'' (ri_sequence entry))
      | Some (d, data) \<Rightarrow>
          bind_res (dict_int d ''sequence'') (\<lambda>seq.
            if seq \<noteq> ri_sequence entry
            then Inl (JournalCorruptionError ''journal record is not at its indexed offset'' (ri_sequence entry))
            else bind_res (dict_int d ''crc32'') (\<lambda>crc.
              if crc32 data \<noteq> crc then Inl (JournalCorruptionError ''CRC mismatch reading record'' (ri_sequence entry))
              else if int (length data) \<noteq> ri_blocks entry * block_size j
              then Inl (JournalCorruptionError ''record has unexpected length'' (ri_sequence entry))
              else Inr data)))"

text \<open>\<open>seek(offset)\<close> and \<open>readline()\<close> on the file behind the handle.\<close>

definition handle_line :: "store \<Rightarrow> log_handle \<Rightarrow> nat \<Rightarrow> string" where
  "handle_line s h off = readline (drop off (text_of_bytes (seen_bytes s (lh_inode h))))"

definition obj_payload_at :: "nat \<Rightarrow> (journal_object, bytes) oper" where
  "obj_payload_at position jo =
     (if length (index (jo_journal jo)) \<le> position then (Inl IndexError, jo)
      else (let entry = index (jo_journal jo) ! position in
            bind_op obj_reader (\<lambda>h jo. (payload_from (jo_journal jo) entry (handle_line (jo_store jo) h (ri_offset entry)), jo)) jo))"

definition obj_block_from :: "nat \<Rightarrow> int \<Rightarrow> (journal_object, bytes) oper" where
  "obj_block_from position block jo =
     (if length (index (jo_journal jo)) \<le> position then (Inl IndexError, jo)
      else bind_op (obj_payload_at position) (\<lambda>data jo.
        let start = (block - ri_block (index (jo_journal jo) ! position)) * block_size (jo_journal jo)
        in (Inr (py_slice data start (start + block_size (jo_journal jo))), jo)) jo)"

definition obj_read_block :: "bytes \<Rightarrow> int option \<Rightarrow> int \<Rightarrow> (journal_object, bytes) oper" where
  "obj_read_block base at_sequence current jo =
     (case (case at_sequence of
              None \<Rightarrow> overlay (jo_journal jo) current
            | Some n \<Rightarrow> scan_back (index (jo_journal jo)) n current (length (index (jo_journal jo)))) of
        Some position \<Rightarrow> obj_block_from position current jo
      | None \<Rightarrow> (Inr (base_block (block_size (jo_journal jo)) base current), jo))"

fun obj_read_blocks :: "bytes \<Rightarrow> int option \<Rightarrow> int list \<Rightarrow> (journal_object, bytes) oper" where
  "obj_read_blocks base at_sequence [] jo = (Inr [], jo)"
| "obj_read_blocks base at_sequence (k # ks) jo =
     bind_op (obj_read_block base at_sequence k) (\<lambda>data.
       bind_op (obj_read_blocks base at_sequence ks) (\<lambda>rest jo. (Inr (data @ rest), jo))) jo"

definition obj_read :: "int \<Rightarrow> int \<Rightarrow> int option \<Rightarrow> (journal_object, bytes) oper" where
  "obj_read block count at_sequence jo =
     (case check_range (blocks (jo_journal jo)) block count of
        Inl e \<Rightarrow> (Inl e, jo)
      | Inr _ \<Rightarrow>
          if (case at_sequence of None \<Rightarrow> False | Some n \<Rightarrow> \<not> (0 \<le> n \<and> n \<le> last_sequence (jo_journal jo)))
          then (Inl (ValueError ''invalid sequence''), jo)
          else (case file_inode (jo_store jo) BASE of
              None \<Rightarrow> (Inl (OSError BASE), jo)
            | Some i \<Rightarrow> obj_read_blocks (seen_bytes (jo_store jo) i) at_sequence (block_list block count) jo))"

section \<open>Writing\<close>

definition obj_sys :: "sys_call list \<Rightarrow> journal_object \<Rightarrow> journal_object" where
  "obj_sys cs jo = jo\<lparr>jo_store := sys_all cs (jo_store jo)\<rparr>"

definition obj_append :: "int \<Rightarrow> bytes \<Rightarrow> (journal_object, int) oper" where
  "obj_append b d jo =
     (case journal_append b d (jo_journal jo) of
        (r, j) \<Rightarrow> (r, (obj_sys (append_calls b d (jo_journal jo)) jo)\<lparr>jo_journal := j\<rparr>))"

definition obj_snapshot :: "string \<Rightarrow> int option \<Rightarrow> (journal_object, string) oper" where
  "obj_snapshot name at_sequence jo =
     (case snapshot name at_sequence (jo_journal jo) of
        (r, j) \<Rightarrow> (r, (obj_sys (snapshot_calls name at_sequence (jo_journal jo)) jo)\<lparr>jo_journal := j\<rparr>))"

definition obj_flush :: "journal_object \<Rightarrow> journal_object" where
  "obj_flush jo = obj_sys flush_calls jo"

text \<open>\<open>compact\<close>: the pieces are read through the handle and written one by one; then the two renames, and the handle is closed.\<close>

fun obj_write_base :: "nat \<Rightarrow> int \<Rightarrow> (journal_object, unit) oper" where
  "obj_write_base 0 start jo = (Inr (), jo)"
| "obj_write_base (Suc n) start jo =
     (if blocks (jo_journal jo) \<le> start then (Inr (), jo)
      else bind_op (obj_read start (min compact_chunk_blocks (blocks (jo_journal jo) - start)) None)
        (\<lambda>part jo. obj_write_base n (start + compact_chunk_blocks) (obj_sys [Append_To [] (temporary BASE) part] jo)) jo)"

definition obj_compact :: "string \<Rightarrow> (journal_object, unit) oper" where
  "obj_compact name = bind_op (obj_snapshot name None) (\<lambda>_ jo.
     bind_op (\<lambda>jo. obj_write_base (nat (blocks (jo_journal jo))) 0 (obj_sys [Create [] (temporary BASE)] jo))
       (\<lambda>_ jo.
         let jo1 = obj_sys ([Sync [] (temporary BASE), Rename [] (temporary BASE) BASE] @ fsync_directory [] @ atomic_write [] LOG []) jo;
             jo2 = obj_close_reader jo1;
             base = (case file_inode (jo_store jo1) BASE of Some i \<Rightarrow> seen_bytes (jo_store jo1) i | None \<Rightarrow> [])
         in (Inr (), jo2\<lparr>jo_journal := (jo_journal jo)\<lparr>j_files := (j_files (jo_journal jo))\<lparr>f_base := base, f_log := []\<rparr>,
               overlay := Map.empty, index := [], last_hash := zero_hash, next_sequence := 1, log_size := 0\<rparr>\<rparr>)) jo)"

section \<open>The handle gives the journal's answers\<close>

definition serves :: "journal_object \<Rightarrow> bool" where
  "serves jo \<longleftrightarrow>
     (\<exists>i b. file_inode (jo_store jo) LOG = Some i \<and> seen_bytes (jo_store jo) i = text_bytes (f_log (j_files (jo_journal jo))) \<and>
        file_inode (jo_store jo) BASE = Some b \<and> seen_bytes (jo_store jo) b = f_base (j_files (jo_journal jo)) \<and>
        (\<forall>h. jo_reader jo = Some h \<and> \<not> lh_closed h \<longrightarrow> lh_inode h = i))"

text \<open>An operation answers \<open>x\<close>: it returns \<open>x\<close> and changes nothing but the handle, which still serves.\<close>

definition answers :: "(journal_object, 'a) oper \<Rightarrow> 'a res \<Rightarrow> journal_object \<Rightarrow> bool" where
  "answers m x jo \<longleftrightarrow> (\<exists>r. m jo = (x, jo\<lparr>jo_reader := r\<rparr>) \<and> serves (jo\<lparr>jo_reader := r\<rparr>))"

lemma answers_return: "serves jo \<Longrightarrow> m jo = (x, jo) \<Longrightarrow> answers m x jo"
  unfolding answers_def by (intro exI [of _ "jo_reader jo"]) simp

lemma answers_bind:
  assumes "answers m x jo" "\<And>r v. x = Inr v \<Longrightarrow> serves (jo\<lparr>jo_reader := r\<rparr>) \<Longrightarrow> answers (f v) (g v) (jo\<lparr>jo_reader := r\<rparr>)"
  shows "answers (bind_op m f) (bind_res x g) jo"
proof -
  obtain r where r: "m jo = (x, jo\<lparr>jo_reader := r\<rparr>)" "serves (jo\<lparr>jo_reader := r\<rparr>)" using assms(1) by (auto simp: answers_def)
  show ?thesis
  proof (cases x)
    case (Inl e)
    then show ?thesis using r unfolding answers_def by (intro exI [of _ r]) (simp add: bind_op_def)
  next
    case (Inr v)
    then show ?thesis using r assms(2) [OF Inr r(2)] by (simp add: answers_def bind_op_def)
  qed
qed

lemma payload_at_from:
  "payload_at j position =
     (if length (index j) \<le> position then Inl IndexError
      else payload_from j (index j ! position) (readline (drop (ri_offset (index j ! position)) (f_log (j_files j)))))"
  by (simp add: payload_at_def payload_from_def Let_def)

lemma reader_serves:
  assumes "serves jo"
  shows "\<exists>h r. obj_reader jo = (Inr h, jo\<lparr>jo_reader := r\<rparr>) \<and> serves (jo\<lparr>jo_reader := r\<rparr>) \<and>
    seen_bytes (jo_store jo) (lh_inode h) = text_bytes (f_log (j_files (jo_journal jo)))"
proof (cases "case jo_reader jo of None \<Rightarrow> True | Some h \<Rightarrow> lh_closed h")
  case True
  obtain i where i: "file_inode (jo_store jo) LOG = Some i" "seen_bytes (jo_store jo) i = text_bytes (f_log (j_files (jo_journal jo)))"
    using assms by (auto simp: serves_def)
  let ?h = "\<lparr>lh_inode = i, lh_closed = False\<rparr>"
  have "serves (jo\<lparr>jo_reader := Some ?h\<rparr>)" using assms i by (auto simp: serves_def)
  then show ?thesis using True i by (intro exI [of _ ?h] exI [of _ "Some ?h"]) (simp add: obj_reader_def Let_def)
next
  case False
  then obtain h where h: "jo_reader jo = Some h" "\<not> lh_closed h" by (auto split: option.splits)
  then show ?thesis using assms
    by (intro exI [of _ h] exI [of _ "Some h"] conjI) (auto simp: serves_def obj_reader_def)
qed

lemma payload_answers:
  assumes "serves jo"
  shows "answers (obj_payload_at position) (payload_at (jo_journal jo) position) jo"
proof (cases "length (index (jo_journal jo)) \<le> position")
  case True
  then show ?thesis using assms by (intro answers_return) (simp_all add: obj_payload_at_def payload_at_from)
next
  case False
  obtain h r where h: "obj_reader jo = (Inr h, jo\<lparr>jo_reader := r\<rparr>)" "serves (jo\<lparr>jo_reader := r\<rparr>)"
    "seen_bytes (jo_store jo) (lh_inode h) = text_bytes (f_log (j_files (jo_journal jo)))"
    using reader_serves [OF assms] by blast
  show ?thesis
    using False h unfolding answers_def
    by (intro exI [of _ r]) (simp add: obj_payload_at_def payload_at_from bind_op_def handle_line_def text_of_bytes_text Let_def)
qed

lemma block_answers:
  assumes "serves jo"
  shows "answers (obj_block_from position block) (block_from (jo_journal jo) position block) jo"
proof (cases "length (index (jo_journal jo)) \<le> position")
  case True
  then show ?thesis using assms by (intro answers_return) (simp_all add: obj_block_from_def block_from_def)
next
  case False
  have "answers (bind_op (obj_payload_at position) (\<lambda>data jo.
        let start = (block - ri_block (index (jo_journal jo) ! position)) * block_size (jo_journal jo)
        in (Inr (py_slice data start (start + block_size (jo_journal jo))), jo)))
      (bind_res (payload_at (jo_journal jo) position) (\<lambda>data.
        let start = (block - ri_block (index (jo_journal jo) ! position)) * block_size (jo_journal jo)
        in Inr (py_slice data start (start + block_size (jo_journal jo))))) jo"
    by (rule answers_bind [OF payload_answers [OF assms]]) (auto intro: answers_return simp: Let_def)
  then show ?thesis using False by (simp add: answers_def obj_block_from_def block_from_def)
qed

lemma read_block_answers:
  assumes "serves jo" "base = f_base (j_files (jo_journal jo))"
  shows "answers (obj_read_block base at_sequence k) (read_block (jo_journal jo) at_sequence k) jo"
proof -
  let ?pos = "case at_sequence of None \<Rightarrow> overlay (jo_journal jo) k
    | Some n \<Rightarrow> scan_back (index (jo_journal jo)) n k (length (index (jo_journal jo)))"
  show ?thesis
  proof (cases ?pos)
    case None
    then show ?thesis using assms by (intro answers_return) (simp_all add: obj_read_block_def read_block_def)
  next
    case (Some p)
    then show ?thesis using block_answers [OF assms(1), of p k] by (simp add: answers_def obj_read_block_def read_block_def)
  qed
qed

lemma read_blocks_answers:
  assumes "serves jo" "base = f_base (j_files (jo_journal jo))"
  shows "answers (obj_read_blocks base at_sequence ks)
    (bind_res (map_res (read_block (jo_journal jo) at_sequence) ks) (\<lambda>parts. Inr (concat parts))) jo"
  using assms
proof (induction ks arbitrary: jo)
  case Nil
  then show ?case by (intro answers_return) simp_all
next
  case (Cons k ks)
  let ?rest = "\<lambda>jo. bind_res (map_res (read_block (jo_journal jo) at_sequence) ks) (\<lambda>parts. Inr (concat parts))"
  have "answers (bind_op (obj_read_block base at_sequence k) (\<lambda>data.
       bind_op (obj_read_blocks base at_sequence ks) (\<lambda>rest jo. (Inr (data @ rest), jo))))
     (bind_res (read_block (jo_journal jo) at_sequence k) (\<lambda>data. bind_res (?rest jo) (\<lambda>rest. Inr (data @ rest)))) jo"
  proof (rule answers_bind [OF read_block_answers [OF Cons.prems]], rule answers_bind)
    show "answers (obj_read_blocks base at_sequence ks) (?rest jo) (jo\<lparr>jo_reader := r\<rparr>)" if "serves (jo\<lparr>jo_reader := r\<rparr>)" for r
      using Cons.IH [OF that] Cons.prems(2) by simp
  qed (auto intro: answers_return)
  moreover have "bind_res (read_block (jo_journal jo) at_sequence k) (\<lambda>data. bind_res (?rest jo) (\<lambda>rest. Inr (data @ rest))) =
      bind_res (map_res (read_block (jo_journal jo) at_sequence) (k # ks)) (\<lambda>parts. Inr (concat parts))"
    by (auto simp: bind_res_def split: sum.split)
  ultimately show ?case by (simp add: answers_def)
qed

lemma read_answers:
  assumes "serves jo"
  shows "answers (obj_read b n at_sequence) (journal_read (jo_journal jo) b n at_sequence) jo"
proof -
  obtain i where i: "file_inode (jo_store jo) BASE = Some i" "seen_bytes (jo_store jo) i = f_base (j_files (jo_journal jo))"
    using assms by (auto simp: serves_def)
  show ?thesis
    using read_blocks_answers [OF assms i(2), of at_sequence "block_list b n"] assms i(1)
    by (cases "check_range (blocks (jo_journal jo)) b n") (auto simp: answers_def obj_read_def journal_read_def intro: exI [of _ "jo_reader jo"])
qed

section \<open>Runs of the object\<close>

definition handle_ok :: "journal_object \<Rightarrow> bool" where
  "handle_ok jo \<longleftrightarrow> (\<forall>h. jo_reader jo = Some h \<and> \<not> lh_closed h \<longrightarrow> file_inode (jo_store jo) LOG = Some (lh_inode h))"

lemma settled_file:
  assumes "settled K s u" "n \<in> K" "u n = Some c"
  shows "\<exists>i. file_inode s n = Some i \<and> seen_bytes s i = c"
proof -
  obtain e where e: "entries K s e" "u = (\<lambda>x. if x \<in> K then map_option (seen_bytes s) (e x) else None)" using assms(1) by (rule settledE) blast
  then show ?thesis using entries_present [OF e(1), of n] assms(2,3) by (auto simp: file_inode_def)
qed

lemma serves_on_disk:
  assumes "on_disk (jo_store jo) (j_files (jo_journal jo))" "handle_ok jo"
  shows "serves jo"
  using settled_file [OF assms(1), of LOG] settled_file [OF assms(1), of BASE] assms(2) unfolding serves_def handle_ok_def by fastforce

lemma serves_handle: "serves jo \<Longrightarrow> handle_ok jo"
  unfolding serves_def handle_ok_def by fastforce

text \<open>Calls that leave the name of the log with its file.\<close>

fun keeps_names :: "sys_call \<Rightarrow> bool" where
  "keeps_names (Append_To d n b) = True"
| "keeps_names (Sync d n) = True"
| "keeps_names c = elsewhere c"

lemma keeps_inode: "keeps_names c \<Longrightarrow> file_inode (sys c s) n = file_inode s n"
proof (cases c)
  case (Mkdir d x)
  then show ?thesis by (auto simp: file_inode_def present_def put_dir_def plain_def)
qed (auto simp: file_inode_def present_def on_file_def put_dir_def split: option.split node.split)

lemma keep_inode_all: "list_all keeps_names cs \<Longrightarrow> file_inode (sys_all cs s) n = file_inode s n"
  by (induction cs arbitrary: s) (simp_all add: keeps_inode del: sys.simps)

lemma elsewhere_keeps: "elsewhere c \<Longrightarrow> keeps_names c"
  by (cases c) simp_all

lemma calls_keep: "list_all keeps_names (append_calls b d j)" "list_all keeps_names (snapshot_calls name at_sequence j)" "list_all keeps_names flush_calls"
  using elsewhere_snapshot [of name at_sequence j] elsewhere_keeps
  by (auto simp: append_calls_def flush_calls_def list_all_iff split: sum.split)

lemma handle_ok_calls: "handle_ok jo \<Longrightarrow> list_all keeps_names cs \<Longrightarrow> handle_ok (obj_sys cs jo)"
  by (simp add: handle_ok_def obj_sys_def keep_inode_all)

subsection \<open>Compaction\<close>

text \<open>While the new base is written: the temporary file is apart, everything else is as it was.\<close>

definition writing_base :: "nat \<Rightarrow> (string \<Rightarrow> nat option) \<Rightarrow> journal_object \<Rightarrow> bool" where
  "writing_base i e jo \<longleftrightarrow> staged ns_names BASE i (jo_store jo) e \<and> holds ns_names (jo_store jo) e (view (j_files (jo_journal jo))) \<and>
     (\<forall>h. jo_reader jo = Some h \<and> \<not> lh_closed h \<longrightarrow> e LOG = Some (lh_inode h))"

lemma writing_inode:
  assumes "writing_base i e jo" "n \<in> ns_names"
  shows "file_inode (jo_store jo) n = e n"
proof -
  have "staged ns_names BASE i (jo_store jo) e" using assms(1) by (simp add: writing_base_def)
  then have "dir_states (jo_store jo) [] \<noteq> []" "\<forall>m \<in> set (dir_states (jo_store jo) []). \<forall>x \<in> tracked ns_names - {temporary BASE}. plain m x = e x"
    by (simp_all add: staged_def apart_def)
  moreover have "n \<in> tracked ns_names - {temporary BASE}" using assms(2) temporary_not_used by (auto simp: tracked_def)
  ultimately show ?thesis using present_in [of "jo_store jo" "[]"] unfolding file_inode_def by blast
qed

lemma writing_serves:
  assumes "writing_base i e jo"
  shows "serves jo"
proof -
  have ho: "holds ns_names (jo_store jo) e (view (j_files (jo_journal jo)))" using assms by (simp add: writing_base_def)
  have v: "map_option (seen_bytes (jo_store jo)) (e n) = view (j_files (jo_journal jo)) n" if "n \<in> ns_names" for n
    using ho that by (simp add: holds_def)
  from v [of LOG] v [of BASE] writing_inode [OF assms, of LOG] writing_inode [OF assms, of BASE] assms
  show ?thesis unfolding serves_def writing_base_def by fastforce
qed

lemma writing_reader:
  assumes "writing_base i e jo" "serves (jo\<lparr>jo_reader := r\<rparr>)"
  shows "writing_base i e (jo\<lparr>jo_reader := r\<rparr>)"
  using assms writing_inode [OF assms(1), of LOG] by (auto simp: writing_base_def serves_def)

lemma writing_append:
  assumes "writing_base i e jo"
  shows "writing_base i e (obj_sys [Append_To [] (temporary BASE) part] jo)"
  using staged_calls [of ns_names BASE i "jo_store jo" e "view (j_files (jo_journal jo))" "Append_To [] (temporary BASE) part"] assms temporary_not_used
  by (simp add: writing_base_def obj_sys_def del: sys.simps)

lemma write_base_chunks:
  assumes "writing_base i e jo" "compact_chunks (jo_journal jo) n start = (chunks, x)"
  shows "\<exists>r. obj_write_base n start jo = (case x of None \<Rightarrow> Inr () | Some ex \<Rightarrow> Inl ex,
      (obj_sys (map (Append_To [] (temporary BASE)) chunks) jo)\<lparr>jo_reader := r\<rparr>)"
  using assms
proof (induction n arbitrary: start jo chunks)
  case 0
  then show ?case by (auto simp: obj_sys_def intro!: exI [of _ "jo_reader jo"])
next
  case (Suc n)
  let ?j = "jo_journal jo" and ?m = "min compact_chunk_blocks (blocks (jo_journal jo) - start)"
  obtain r where r: "obj_read start ?m None jo = (journal_read ?j start ?m None, jo\<lparr>jo_reader := r\<rparr>)" "serves (jo\<lparr>jo_reader := r\<rparr>)"
    using read_answers [OF writing_serves [OF Suc.prems(1)], of start ?m None] by (auto simp: answers_def)
  show ?case
  proof (cases "blocks ?j \<le> start")
    case True
    then show ?thesis using Suc.prems by (auto simp: obj_sys_def intro!: exI [of _ "jo_reader jo"])
  next
    case False
    show ?thesis
    proof (cases "journal_read ?j start ?m None")
      case (Inl ex)
      then show ?thesis using Suc.prems(2) False r by (auto simp: bind_op_def obj_sys_def intro!: exI [of _ r])
    next
      case (Inr part)
      let ?jo = "obj_sys [Append_To [] (temporary BASE) part] (jo\<lparr>jo_reader := r\<rparr>)"
      obtain rest where rest: "compact_chunks ?j n (start + compact_chunk_blocks) = (rest, x)" "chunks = part # rest"
        using Suc.prems(2) False Inr by (auto split: prod.splits)
      have "writing_base i e ?jo" using writing_append writing_reader [OF Suc.prems(1) r(2)] by blast
      then obtain r' where "obj_write_base n (start + compact_chunk_blocks) ?jo = (case x of None \<Rightarrow> Inr () | Some ex \<Rightarrow> Inl ex,
          (obj_sys (map (Append_To [] (temporary BASE)) rest) ?jo)\<lparr>jo_reader := r'\<rparr>)"
        using Suc.IH [of ?jo "start + compact_chunk_blocks" rest] rest(1) by (auto simp: obj_sys_def simp del: sys.simps)
      then show ?thesis using False r Inr rest(2) by (auto simp: bind_op_def obj_sys_def simp del: sys.simps intro!: exI [of _ r'])
    qed
  qed
qed

lemma obj_snapshot_facts:
  assumes "on_disk (jo_store jo) (j_files (jo_journal jo))" "handle_ok jo" "obj_snapshot name at_sequence jo = (r, jo')"
  shows "on_disk (jo_store jo') (j_files (jo_journal jo'))" "handle_ok jo'" "jo_journal jo' = snd (snapshot name at_sequence (jo_journal jo))"
    "r = fst (snapshot name at_sequence (jo_journal jo))" "jo_store jo' = sys_all (snapshot_calls name at_sequence (jo_journal jo)) (jo_store jo)"
  using snapshot_reaches_disk [OF assms(1), of name at_sequence] handle_ok_calls [OF assms(2) calls_keep(2)] assms(3)
  by (auto simp: obj_snapshot_def obj_sys_def handle_ok_def split: prod.splits)

lemma create_writing:
  assumes "on_disk (jo_store jo) (j_files (jo_journal jo))" "handle_ok jo"
  shows "\<exists>i e. writing_base i e (obj_sys [Create [] (temporary BASE)] jo)"
proof -
  obtain e where e: "entries ns_names (jo_store jo) e" "holds ns_names (jo_store jo) e (view (j_files (jo_journal jo)))"
    using assms(1) by (auto simp: settled_holds)
  obtain i where i: "staged ns_names BASE i (sys (Create [] (temporary BASE)) (jo_store jo)) e"
    "holds ns_names (sys (Create [] (temporary BASE)) (jo_store jo)) e (view (j_files (jo_journal jo)))"
    using create_staged [OF e _ temporary_not_used] in_ns_names(2) .
  have "file_inode (jo_store jo) LOG = e LOG" using entries_present [OF e(1), of LOG] by (simp add: file_inode_def)
  then show ?thesis using i assms(2) by (auto simp: writing_base_def obj_sys_def handle_ok_def simp del: sys.simps)
qed

lemma obj_compact_done:
  assumes rel: "journal_rel (jo_journal jo) ws" and name: "good_name name" "map_of (j_snapshots (jo_journal jo)) name = None"
    and d: "on_disk (jo_store jo) (j_files (jo_journal jo))" "handle_ok jo"
  shows "obj_compact name jo = (Inr (), \<lparr>jo_journal = snd (journal_compact name (jo_journal jo)),
      jo_store = sys_all (compact_calls name (jo_journal jo)) (jo_store jo), jo_reader = None\<rparr>)"
proof -
  let ?j = "jo_journal jo" and ?s = "sys_all (compact_calls name (jo_journal jo)) (jo_store jo)"
  obtain x j1 base where j1: "snapshot name None ?j = (Inr x, j1)" "materialise j1 (nat (blocks j1)) 0 = Inr base"
    using compact_rel(1) [OF rel name] by (auto simp: journal_compact_def bind_op_def split: prod.splits sum.splits)
  obtain chunks where ch: "compact_chunks j1 (nat (blocks j1)) 0 = (chunks, None)"
    using j1(2) compact_chunks_materialise [of j1 "nat (blocks j1)" 0] by (auto split: prod.splits option.splits)
  obtain r1 jo1 where sn: "obj_snapshot name None jo = (r1, jo1)" by (cases "obj_snapshot name None jo")
  note f = obj_snapshot_facts [OF d sn]
  have jo1: "r1 = Inr x" "jo_journal jo1 = j1" using f(3,4) j1(1) by simp_all
  obtain i e where w: "writing_base i e (obj_sys [Create [] (temporary BASE)] jo1)" using create_writing [OF f(1,2)] by blast
  obtain r where r: "obj_write_base (nat (blocks j1)) 0 (obj_sys [Create [] (temporary BASE)] jo1) =
      (Inr (), (obj_sys (map (Append_To [] (temporary BASE)) chunks) (obj_sys [Create [] (temporary BASE)] jo1))\<lparr>jo_reader := r\<rparr>)"
    using write_base_chunks [OF w, of "nat (blocks j1)" 0 chunks None] ch jo1(2) by (auto simp: obj_sys_def simp del: sys.simps)
  have st: "sys_all ([Sync [] (temporary BASE), Rename [] (temporary BASE) BASE] @ fsync_directory [] @ atomic_write [] LOG [])
      (sys_all (map (Append_To [] (temporary BASE)) chunks) (sys_all [Create [] (temporary BASE)] (jo_store jo1))) = ?s"
    using j1(1) ch by (simp add: compact_calls_def f(5) replace_file_def del: sys.simps)
  have jo2: "obj_sys ([Sync [] (temporary BASE), Rename [] (temporary BASE) BASE] @ fsync_directory [] @ atomic_write [] LOG [])
      ((obj_sys (map (Append_To [] (temporary BASE)) chunks) (obj_sys [Create [] (temporary BASE)] jo1))\<lparr>jo_reader := r\<rparr>) =
      \<lparr>jo_journal = j1, jo_store = ?s, jo_reader = r\<rparr>"
    by (cases jo1) (use jo1(2) st in \<open>simp add: obj_sys_def del: sys_all_simps\<close>)
  have od: "on_disk ?s (j_files (snd (journal_compact name ?j)))" by (rule compact_reaches_disk [OF rel name d(1)])
  obtain k where k: "file_inode ?s BASE = Some k" "seen_bytes ?s k = base"
    using settled_file [OF od, of BASE] j1 by (auto simp: journal_compact_def bind_op_def)
  have "obj_compact name jo = (Inr (), (obj_close_reader \<lparr>jo_journal = j1, jo_store = ?s, jo_reader = r\<rparr>)\<lparr>jo_journal :=
      j1\<lparr>j_files := (j_files j1)\<lparr>f_base := base, f_log := []\<rparr>,
        overlay := Map.empty, index := [], last_hash := zero_hash, next_sequence := 1, log_size := 0\<rparr>\<rparr>)"
    unfolding obj_compact_def bind_op_apply sn jo1(1) prod.case sum.case jo1(2)
    unfolding r prod.case sum.case jo2 Let_def using k jo1(2) by (simp add: obj_sys_def)
  then show ?thesis by (simp add: obj_close_reader_def journal_compact_def bind_op_def j1)
qed

subsection \<open>Every run\<close>

inductive object_run :: "journal_object \<Rightarrow> bool" where
  constructed: "reachable j \<Longrightarrow> on_disk s (j_files j) \<Longrightarrow> object_run \<lparr>jo_journal = j, jo_store = s, jo_reader = None\<rparr>"
| reading: "object_run jo \<Longrightarrow> object_run (snd (obj_read b n at_sequence jo))"
| appending: "object_run jo \<Longrightarrow> object_run (snd (obj_append b d jo))"
| copying: "object_run jo \<Longrightarrow> object_run (snd (obj_snapshot name at_sequence jo))"
| compacting: "object_run jo \<Longrightarrow> object_run (snd (obj_compact name jo))"
| flushing: "object_run jo \<Longrightarrow> object_run (obj_flush jo)"
| closing: "object_run jo \<Longrightarrow> object_run (obj_exit (obj_enter jo))"

definition object_inv :: "journal_object \<Rightarrow> bool" where
  "object_inv jo \<longleftrightarrow> reachable (jo_journal jo) \<and> on_disk (jo_store jo) (j_files (jo_journal jo)) \<and> handle_ok jo"

lemma object_serves: "object_inv jo \<Longrightarrow> serves jo"
  by (simp add: object_inv_def serves_on_disk)

lemma obj_snapshot_inv:
  assumes "object_inv jo"
  shows "object_inv (snd (obj_snapshot name at_sequence jo))"
proof (cases "obj_snapshot name at_sequence jo")
  case (Pair r jo')
  then show ?thesis
    using obj_snapshot_facts [of jo name at_sequence r jo'] assms reachable.snapshotted by (simp add: object_inv_def)
qed

lemma obj_compact_inv:
  assumes inv: "object_inv jo"
  shows "object_inv (snd (obj_compact name jo))"
proof (cases "good_name name \<and> map_of (j_snapshots (jo_journal jo)) name = None")
  case True
  note rel = reachable_rel [of "jo_journal jo"]
  show ?thesis
    using True inv obj_compact_done [OF rel, of name] compact_reaches_disk [OF rel, of name "jo_store jo"] reachable.compacted
    by (simp add: object_inv_def handle_ok_def)
next
  case False
  obtain r jo' where sn: "obj_snapshot name None jo = (r, jo')" by (cases "obj_snapshot name None jo")
  have "\<exists>e. fst (snapshot name None (jo_journal jo)) = Inl e"
    using False inv snapshot_ok [of "jo_journal jo" _ name None] reachable_rel unfolding object_inv_def
    by (cases "fst (snapshot name None (jo_journal jo))") blast+
  then obtain e where "r = Inl e" using obj_snapshot_facts(4) [of jo name None r jo'] inv sn by (auto simp: object_inv_def)
  then have "snd (obj_compact name jo) = snd (obj_snapshot name None jo)" using sn by (simp add: obj_compact_def bind_op_def)
  then show ?thesis using obj_snapshot_inv [OF inv] by simp
qed

lemma obj_append_inv:
  assumes "object_inv jo"
  shows "object_inv (snd (obj_append b d jo))"
  using assms append_reaches_disk [OF reachable_rel, of "jo_journal jo" "jo_store jo" b d]
    handle_ok_calls [OF _ calls_keep(1), of jo b d "jo_journal jo"] reachable.appended [of "jo_journal jo" b d]
  by (auto simp: object_inv_def obj_append_def obj_sys_def handle_ok_def split: prod.split)

text \<open>The object meets the contract of a block device as well: the handle is behind its reads.\<close>

lemma obj_append_parts [simp]: "fst (obj_append b d jo) = fst (journal_append b d (jo_journal jo))"
  "jo_journal (snd (obj_append b d jo)) = snd (journal_append b d (jo_journal jo))"
  by (simp_all add: obj_append_def split: prod.split)

lemma obj_read_fst: "object_inv jo \<Longrightarrow> fst (obj_read b n at_sequence jo) = journal_read (jo_journal jo) b n at_sequence"
  using read_answers [OF object_serves, of jo b n at_sequence] by (auto simp: answers_def)

interpretation shared: block_device object_inv "\<lambda>jo. jimage (jo_journal jo)" "\<lambda>jo. blocks (jo_journal jo)"
  "\<lambda>jo. block_size (jo_journal jo)" "\<lambda>jo b n. fst (obj_read b n None jo)" obj_append
proof
  fix s :: journal_object and b n d
  assume inv: "object_inv s"
  then have j: "jinv (jo_journal s)" using reachable_jinv by (simp add: object_inv_def)
  show "0 < block_size (jo_journal s) \<and> int (length (jimage (jo_journal s))) = blocks (jo_journal s) * block_size (jo_journal s)"
    by (rule jdev.size [OF j])
  show "fst (obj_read b n None s) = Inr (extent (block_size (jo_journal s)) b n (jimage (jo_journal s)))"
    if "0 \<le> b" "1 \<le> n" "b + n \<le> blocks (jo_journal s)"
    using jdev.rd_img [OF j that] obj_read_fst [OF inv] by simp
  show "object_inv (snd (obj_append b d s))" by (rule obj_append_inv [OF inv])
  show "(\<exists>q. fst (obj_append b d s) = Inr q) \<longleftrightarrow> valid_write (blocks (jo_journal s)) (block_size (jo_journal s)) (b, d)"
    using jdev.wr_ack [OF j] by simp
  show "jimage (jo_journal (snd (obj_append b d s))) = apply_write (block_size (jo_journal s)) (jimage (jo_journal s)) (b, d)"
    if "valid_write (blocks (jo_journal s)) (block_size (jo_journal s)) (b, d)"
    using jdev.wr_img [OF j that] by simp
qed (simp_all add: jdev.wr_frame)

lemma run_inv: "object_run jo \<Longrightarrow> object_inv jo"
proof (induction rule: object_run.induct)
  case (reading jo b n at_sequence)
  then obtain r where "obj_read b n at_sequence jo = (journal_read (jo_journal jo) b n at_sequence, jo\<lparr>jo_reader := r\<rparr>)" "serves (jo\<lparr>jo_reader := r\<rparr>)"
    using read_answers [OF object_serves [OF reading.IH], of b n at_sequence] by (auto simp: answers_def)
  then show ?case using reading serves_handle by (fastforce simp: object_inv_def)
next
  case (appending jo b d)
  then show ?case using obj_append_inv by simp
next
  case (flushing jo)
  then show ?case using flush_reaches_disk handle_ok_calls [OF _ calls_keep(3)] by (simp add: object_inv_def obj_flush_def) (simp add: obj_sys_def)
qed (simp_all add: object_inv_def handle_ok_def obj_snapshot_inv [unfolded object_inv_def handle_ok_def] obj_compact_inv [unfolded object_inv_def handle_ok_def]
    obj_exit_def obj_close_def obj_close_reader_def obj_enter_def)

text \<open>
  C4. The shared read handle is invisible. After any sequence of reads, appends, snapshots, compactions,
  flushes and closings, reading through the handle gives what reading the files of the journal gives, and
  the disk holds these files, so no read sees a log that a compaction has replaced; and a write that is
  acknowledged then is read back through the handle.
\<close>

theorem shared_reader_exact:
  assumes "object_run jo"
  shows "fst (obj_read b n at_sequence jo) = journal_read (jo_journal jo) b n at_sequence \<and>
    jo_journal (snd (obj_read b n at_sequence jo)) = jo_journal jo \<and>
    reachable (jo_journal jo) \<and> on_disk (jo_store jo) (j_files (jo_journal jo)) \<and>
    (fst (obj_append c d jo) = Inr q \<longrightarrow>
       fst (obj_read c (wcount (block_size (jo_journal jo)) (c, d)) None (snd (obj_append c d jo))) = Inr d)"
proof -
  have inv: "object_inv jo" using assms by (rule run_inv)
  then show ?thesis
    using read_answers [OF object_serves [OF inv], of b n at_sequence] shared.read_after_write [OF inv, of c d q]
    by (auto simp: answers_def object_inv_def)
qed

text \<open>Witness: a read that opens the handle, a compaction that replaces the log, and a read after it.\<close>

definition sample_object :: journal_object where
  "sample_object = \<lparr>jo_journal = sample1, jo_store = example_store (j_files sample1), jo_reader = None\<rparr>"

lemma sample_read: "journal_read sample1 1 1 None = Inr (page 7)"
proof -
  have "valid_write (blocks sample0) (block_size sample0) (1, page 7)" by (simp add: valid_write_def wcount_def sample0_facts)
  then have "fst (journal_append 1 (page 7) sample0) = Inr 1" using append_rel(1) [OF sample0_facts(2)] by simp
  then show ?thesis
    using jdev.read_after_write [OF reachable_jinv [OF sample0_facts(1)]] by (fastforce simp: sample1_def wcount_def sample0_facts)
qed

lemma sample_compacted_read: "journal_read (snd (journal_compact ''c'' sample1)) 1 1 None = Inr (page 7)"
proof -
  let ?j = "snd (journal_compact ''c'' sample1)"
  note c = compact_rel [OF sample1_facts(2), of "''c''"]
  have n: "good_name ''c''" "map_of (j_snapshots sample1) ''c'' = None" by (simp_all add: sample1_facts good_name_def name_alphabet_def)
  have "jimage ?j = jimage sample1" using jimage_rel [OF c(2) [OF n]] jimage_rel [OF sample1_facts(2)] c(3) [OF n] by simp
  moreover have "jinv ?j" "jinv sample1" using c(2) [OF n] sample1_facts(2) by (auto simp: jinv_def)
  ultimately show ?thesis
    using jdev.rd_img [of ?j 1 1] jdev.rd_img [of sample1 1 1] sample_read c(5,6) [OF n] sample1_facts by simp
qed

theorem shared_reader_exact_witness:
  "fst (obj_read 1 1 None (snd (obj_compact ''c'' (snd (obj_read 1 1 None sample_object))))) = Inr (page 7)"
proof -
  let ?jo = "snd (obj_read 1 1 None sample_object)"
  have run: "object_run sample_object" unfolding sample_object_def by (rule constructed [OF sample1_facts(1) sample1_on_disk])
  then have run2: "object_run (snd (obj_compact ''c'' ?jo))" by (intro reading compacting)
  have r1: "jo_journal ?jo = sample1" using shared_reader_exact [OF run, of 1 1 None] by (simp add: sample_object_def)
  have "object_inv ?jo" by (rule run_inv [OF reading [OF run]])
  then have "jo_journal (snd (obj_compact ''c'' ?jo)) = snd (journal_compact ''c'' sample1)"
    using obj_compact_done [of ?jo "[(1, page 7)]" "''c''"] sample1_facts by (simp add: object_inv_def good_name_def name_alphabet_def r1)
  then show ?thesis using shared_reader_exact [OF run2, of 1 1 None] sample_compacted_read by simp
qed

end
