(* ===== verification/Reader_Lock.thy ===== *)
theory Reader_Lock
  imports Journal_Reader
begin

text \<open>
  Threads that read one journal object at the same time. The shared handle has one position, and \<open>seek\<close> and
  \<open>readline\<close> are two calls: \<^verbatim>\<open>_payload_at\<close> and \<^verbatim>\<open>_close_reader\<close> of \<^verbatim>\<open>core/journal.py\<close> run under \<^verbatim>\<open>_reader_lock\<close> for that reason.
  Each step of a thread is one call; the scheduler chooses the thread.
\<close>

section \<open>Threads and steps\<close>

text \<open>A reader waits for the lock, opens the handle if needed, seeks, reads the line and releases; a closer closes the handle under the lock.\<close>

datatype phase =
    Read_Waiting | Read_Locked | Read_Opened | Read_Sought | Read_Line string | Read_Done string
  | Close_Waiting | Close_Locked | Close_Closed | Close_Done

record shared =
  sh_handle :: "nat option"
  sh_lock :: "nat option"
  sh_threads :: "nat \<Rightarrow> phase"

definition moved :: "nat \<Rightarrow> phase \<Rightarrow> shared \<Rightarrow> shared" where
  "moved t ph s = s\<lparr>sh_threads := (sh_threads s)(t := ph)\<rparr>"

text \<open>\<open>log\<close> is the text of the file, \<open>off t\<close> the offset that thread \<open>t\<close> looks up in the index.\<close>

inductive reader_step :: "string \<Rightarrow> (nat \<Rightarrow> nat) \<Rightarrow> shared \<Rightarrow> shared \<Rightarrow> bool" for log off where
  acquire: "sh_threads s t = Read_Waiting \<Longrightarrow> sh_lock s = None \<Longrightarrow> reader_step log off s (moved t Read_Locked (s\<lparr>sh_lock := Some t\<rparr>))"
| opened: "sh_threads s t = Read_Locked \<Longrightarrow>
    reader_step log off s (moved t Read_Opened (s\<lparr>sh_handle := Some (case sh_handle s of None \<Rightarrow> 0 | Some p \<Rightarrow> p)\<rparr>))"
| sought: "sh_threads s t = Read_Opened \<Longrightarrow> sh_handle s = Some p \<Longrightarrow> reader_step log off s (moved t Read_Sought (s\<lparr>sh_handle := Some (off t)\<rparr>))"
| read_line: "sh_threads s t = Read_Sought \<Longrightarrow> sh_handle s = Some p \<Longrightarrow> raw = readline (drop p log) \<Longrightarrow>
    reader_step log off s (moved t (Read_Line raw) (s\<lparr>sh_handle := Some (p + length raw)\<rparr>))"
| released: "sh_threads s t = Read_Line raw \<Longrightarrow> reader_step log off s (moved t (Read_Done raw) (s\<lparr>sh_lock := None\<rparr>))"
| close_acquire: "sh_threads s t = Close_Waiting \<Longrightarrow> sh_lock s = None \<Longrightarrow> reader_step log off s (moved t Close_Locked (s\<lparr>sh_lock := Some t\<rparr>))"
| closed: "sh_threads s t = Close_Locked \<Longrightarrow> reader_step log off s (moved t Close_Closed (s\<lparr>sh_handle := None\<rparr>))"
| close_released: "sh_threads s t = Close_Closed \<Longrightarrow> reader_step log off s (moved t Close_Done (s\<lparr>sh_lock := None\<rparr>))"

inductive_cases stepE: "reader_step log off s s'"

inductive reader_run :: "string \<Rightarrow> (nat \<Rightarrow> nat) \<Rightarrow> nat \<Rightarrow> shared \<Rightarrow> shared \<Rightarrow> bool" for log off where
  at_rest: "reader_run log off 0 s s"
| one_more: "reader_run log off k s s' \<Longrightarrow> reader_step log off s' s'' \<Longrightarrow> reader_run log off (Suc k) s s''"

fun inside :: "phase \<Rightarrow> bool" where
  "inside Read_Locked = True"
| "inside Read_Opened = True"
| "inside Read_Sought = True"
| "inside (Read_Line raw) = True"
| "inside Close_Locked = True"
| "inside Close_Closed = True"
| "inside ph = False"

fun over :: "phase \<Rightarrow> bool" where
  "over (Read_Done raw) = True"
| "over Close_Done = True"
| "over ph = False"

fun waiting :: "phase \<Rightarrow> bool" where
  "waiting Read_Waiting = True"
| "waiting Close_Waiting = True"
| "waiting ph = False"

text \<open>The calls that a thread has still to make.\<close>

fun calls_left :: "phase \<Rightarrow> nat" where
  "calls_left Read_Waiting = 5"
| "calls_left Read_Locked = 4"
| "calls_left Read_Opened = 3"
| "calls_left Read_Sought = 2"
| "calls_left (Read_Line raw) = 1"
| "calls_left (Read_Done raw) = 0"
| "calls_left Close_Waiting = 3"
| "calls_left Close_Locked = 2"
| "calls_left Close_Closed = 1"
| "calls_left Close_Done = 0"

text \<open>The first \<open>n\<close> threads are about to read or to close; nobody holds the lock. The handle may be open from earlier reads.\<close>

definition all_waiting :: "nat \<Rightarrow> shared \<Rightarrow> bool" where
  "all_waiting n s \<longleftrightarrow> sh_lock s = None \<and> (\<forall>t. if t < n then waiting (sh_threads s t) else sh_threads s t = Close_Done)"

lemma moved_simps [simp]:
  "sh_threads (moved t ph s) = (sh_threads s)(t := ph)" "sh_lock (moved t ph s) = sh_lock s" "sh_handle (moved t ph s) = sh_handle s"
  by (simp_all add: moved_def)

lemma same_lock: "sh_lock s = l \<Longrightarrow> s\<lparr>sh_handle := h, sh_lock := l\<rparr> = s\<lparr>sh_handle := h\<rparr>"
  by (cases s) simp

section \<open>Mutual exclusion\<close>

text \<open>What the phase of a thread says of the handle: between its seek and its readline, nobody else has moved it.\<close>

fun phase_ok :: "string \<Rightarrow> nat \<Rightarrow> nat option \<Rightarrow> phase \<Rightarrow> bool" where
  "phase_ok log p h Read_Opened = (h \<noteq> None)"
| "phase_ok log p h Read_Sought = (h = Some p)"
| "phase_ok log p h (Read_Line raw) = (raw = readline (drop p log))"
| "phase_ok log p h (Read_Done raw) = (raw = readline (drop p log))"
| "phase_ok log p h ph = True"

definition lock_inv :: "string \<Rightarrow> (nat \<Rightarrow> nat) \<Rightarrow> shared \<Rightarrow> bool" where
  "lock_inv log off s \<longleftrightarrow>
     (\<forall>t. (inside (sh_threads s t) \<longleftrightarrow> sh_lock s = Some t) \<and> phase_ok log (off t) (sh_handle s) (sh_threads s t))"

lemma outside_ok: "\<not> inside ph \<Longrightarrow> phase_ok log p h ph = phase_ok log p h' ph"
  by (cases ph) simp_all

lemma waiting_outside: "waiting ph \<Longrightarrow> \<not> inside ph \<and> \<not> over ph \<and> phase_ok log p h ph"
  by (cases ph) simp_all

text \<open>A thread that may act takes over or keeps the lock, or gives it up; the others are outside before and after.\<close>

lemma lock_inv_moved:
  assumes "lock_inv log off s" "sh_lock s = None \<or> sh_lock s = Some t" "l = (if inside ph then Some t else None)"
    "phase_ok log (off t) h ph"
  shows "lock_inv log off (moved t ph (s\<lparr>sh_handle := h, sh_lock := l\<rparr>))"
  unfolding lock_inv_def
proof
  fix u
  have "\<not> inside (sh_threads s u)" "phase_ok log (off u) (sh_handle s) (sh_threads s u)" if "u \<noteq> t"
    using assms(1,2) that by (auto simp: lock_inv_def)
  then show "(inside (sh_threads (moved t ph (s\<lparr>sh_handle := h, sh_lock := l\<rparr>)) u) \<longleftrightarrow>
      sh_lock (moved t ph (s\<lparr>sh_handle := h, sh_lock := l\<rparr>)) = Some u) \<and>
    phase_ok log (off u) (sh_handle (moved t ph (s\<lparr>sh_handle := h, sh_lock := l\<rparr>))) (sh_threads (moved t ph (s\<lparr>sh_handle := h, sh_lock := l\<rparr>)) u)"
    using assms(3,4) outside_ok [of "sh_threads s u" log "off u" "sh_handle s" h] by auto
qed

lemma owner: "lock_inv log off s \<Longrightarrow> inside (sh_threads s t) \<Longrightarrow> sh_lock s = Some t"
  by (simp add: lock_inv_def)

lemma inv_phase: "lock_inv log off s \<Longrightarrow> phase_ok log (off t) (sh_handle s) (sh_threads s t)"
  by (simp add: lock_inv_def)

lemma step_inv:
  assumes "reader_step log off s s'" "lock_inv log off s"
  shows "lock_inv log off s'"
  using assms(1)
proof cases
  case (acquire t)
  then show ?thesis using lock_inv_moved [OF assms(2), of t "Some t" Read_Locked "sh_handle s"] by simp
next
  case (opened t)
  then show ?thesis using lock_inv_moved [OF assms(2), of t "sh_lock s" Read_Opened "Some (case sh_handle s of None \<Rightarrow> 0 | Some p \<Rightarrow> p)"]
      owner [OF assms(2), of t] by (simp add: same_lock)
next
  case (sought t p)
  then show ?thesis using lock_inv_moved [OF assms(2), of t "sh_lock s" Read_Sought "Some (off t)"] owner [OF assms(2), of t]
    by (simp add: same_lock)
next
  case (read_line t p raw)
  then show ?thesis using lock_inv_moved [OF assms(2), of t "sh_lock s" "Read_Line raw" "Some (p + length raw)"] owner [OF assms(2), of t]
      inv_phase [OF assms(2), of t] by (simp add: same_lock)
next
  case (released t raw)
  then show ?thesis using lock_inv_moved [OF assms(2), of t None "Read_Done raw" "sh_handle s"] owner [OF assms(2), of t]
      inv_phase [OF assms(2), of t] by simp
next
  case (close_acquire t)
  then show ?thesis using lock_inv_moved [OF assms(2), of t "Some t" Close_Locked "sh_handle s"] by simp
next
  case (closed t)
  then show ?thesis using lock_inv_moved [OF assms(2), of t "sh_lock s" Close_Closed None] owner [OF assms(2), of t] by (simp add: same_lock)
next
  case (close_released t)
  then show ?thesis using lock_inv_moved [OF assms(2), of t None Close_Done "sh_handle s"] owner [OF assms(2), of t] by simp
qed

lemma run_lock_inv:
  assumes "reader_run log off k s s'" "all_waiting n s"
  shows "lock_inv log off s'"
  using assms
proof induction
  case (at_rest s)
  have "\<not> inside (sh_threads s t) \<and> phase_ok log (off t) (sh_handle s) (sh_threads s t)" for t
    using at_rest waiting_outside [of "sh_threads s t"] by (cases "t < n") (auto simp: all_waiting_def)
  then show ?case using at_rest by (simp add: lock_inv_def all_waiting_def)
next
  case (one_more k s s' s'')
  then show ?case using step_inv by blast
qed

section \<open>Progress\<close>

definition total_left :: "nat \<Rightarrow> shared \<Rightarrow> nat" where
  "total_left n s = (\<Sum>t<n. calls_left (sh_threads s t))"

lemma step_progress:
  assumes "reader_step log off s s'"
  shows "\<exists>t. calls_left (sh_threads s t) = Suc (calls_left (sh_threads s' t)) \<and> (\<forall>u. u \<noteq> t \<longrightarrow> sh_threads s' u = sh_threads s u)"
  using assms by (rule stepE) (auto intro!: exI)

lemma step_left:
  assumes "reader_step log off s s'" "\<forall>t\<ge>n. sh_threads s t = Close_Done"
  shows "total_left n s = Suc (total_left n s')" "\<forall>t\<ge>n. sh_threads s' t = Close_Done"
proof -
  obtain t where t: "calls_left (sh_threads s t) = Suc (calls_left (sh_threads s' t))" "\<forall>u. u \<noteq> t \<longrightarrow> sh_threads s' u = sh_threads s u"
    using step_progress [OF assms(1)] by blast
  then have "t < n" using assms(2) by (metis calls_left.simps(10) nat.distinct(1) not_le_imp_less)
  then have split: "{..<n} = insert t ({..<n} - {t})" "finite ({..<n} - {t})" "t \<notin> {..<n} - {t}" by auto
  have "(\<Sum>u\<in>{..<n} - {t}. calls_left (sh_threads s u)) = (\<Sum>u\<in>{..<n} - {t}. calls_left (sh_threads s' u))"
    using t(2) by (intro sum.cong) auto
  then show "total_left n s = Suc (total_left n s')"
    unfolding total_left_def using t(1) split by (metis (no_types, lifting) add_Suc sum.insert)
  show "\<forall>t\<ge>n. sh_threads s' t = Close_Done" using t(2) assms(2) \<open>t < n\<close> by force
qed

lemma run_left:
  assumes "reader_run log off k s s'" "\<forall>t\<ge>n. sh_threads s t = Close_Done"
  shows "total_left n s = k + total_left n s' \<and> (\<forall>t\<ge>n. sh_threads s' t = Close_Done)"
  using assms
proof induction
  case (one_more k s s' s'')
  then show ?case using step_left [of log off s' s'' n] by simp
qed simp

lemma waiting_left: "waiting ph \<Longrightarrow> calls_left ph \<le> 5"
  by (cases ph) simp_all

lemma run_calls:
  assumes "reader_run log off k s s'" "all_waiting n s"
  shows "k \<le> 5 * n"
proof -
  have "waiting (sh_threads s t)" if "t < n" for t using assms(2) that by (metis all_waiting_def)
  then have "total_left n s \<le> (\<Sum>t<n. 5)" unfolding total_left_def by (intro sum_mono) (simp add: waiting_left)
  moreover have "\<forall>t\<ge>n. sh_threads s t = Close_Done" using assms(2) by (metis all_waiting_def not_le)
  ultimately show ?thesis using run_left [OF assms(1), of n] by simp
qed

lemma inside_steps:
  assumes "lock_inv log off s" "inside (sh_threads s t)"
  shows "\<exists>s'. reader_step log off s s'"
  using assms(2) inv_phase [OF assms(1), of t]
  by (cases "sh_threads s t") (auto intro: reader_step.intros)

lemma waiting_steps: "sh_lock s = None \<Longrightarrow> waiting (sh_threads s t) \<Longrightarrow> \<exists>s'. reader_step log off s s'"
  by (cases "sh_threads s t") (auto intro: reader_step.intros)

lemma no_deadlock:
  assumes "lock_inv log off s" "\<not> over (sh_threads s t)"
  shows "\<exists>s'. reader_step log off s s'"
proof (cases "sh_lock s")
  case None
  then have "\<not> inside (sh_threads s t)" using assms(1) by (simp add: lock_inv_def)
  then have "waiting (sh_threads s t)" using assms(2) by (cases "sh_threads s t") simp_all
  then show ?thesis using None waiting_steps by blast
next
  case (Some u)
  then show ?thesis using assms(1) inside_steps [of log off s u] by (simp add: lock_inv_def)
qed

section \<open>Readers at the same time\<close>

text \<open>
  C26. Threads that read the same journal object do not disturb each other. Whatever the order of their
  calls, and with threads that close the handle in between, at most one of them is between the
  acquisition and the release of the lock, a thread that has its line gets from it the payload of the
  write that it looked up, no reachable state is a deadlock, and every schedule of \<open>n\<close> threads is over
  after at most five calls a thread.
\<close>

theorem concurrent_reads_exact:
  assumes "reachable j" "\<And>t. pos t < length (hist j)" "all_waiting n s"
    "reader_run (f_log (j_files j)) (\<lambda>t. ri_offset (index j ! pos t)) k s s'"
  shows "(\<forall>t raw. sh_threads s' t = Read_Done raw \<longrightarrow> payload_from j (index j ! pos t) raw = Inr (snd (hist j ! pos t))) \<and>
    (\<forall>t u. inside (sh_threads s' t) \<and> inside (sh_threads s' u) \<longrightarrow> t = u) \<and>
    ((\<forall>t. over (sh_threads s' t)) \<or> (\<exists>s''. reader_step (f_log (j_files j)) (\<lambda>t. ri_offset (index j ! pos t)) s' s'')) \<and>
    k \<le> 5 * n"
proof -
  let ?log = "f_log (j_files j)" and ?off = "\<lambda>t. ri_offset (index j ! pos t)"
  have inv: "lock_inv ?log ?off s'" by (rule run_lock_inv [OF assms(4,3)])
  have "payload_from j (index j ! pos t) raw = Inr (snd (hist j ! pos t))" if "sh_threads s' t = Read_Done raw" for t raw
    using payload_at_write [OF rel_reads_as [OF reachable_rel [OF assms(1)]] assms(2), of t] inv_phase [OF inv, of t] that by (simp add: payload_at_from split: if_splits)
  moreover have "t = u" if "inside (sh_threads s' t)" "inside (sh_threads s' u)" for t u
    using owner [OF inv that(1)] owner [OF inv that(2)] by simp
  moreover have "k \<le> 5 * n" using run_calls [OF assms(4,3)] .
  ultimately show ?thesis using no_deadlock [OF inv] by blast
qed

text \<open>Witness: the first thread reads, the second one waits, the third one then closes the handle and still has the lock.\<close>

definition sample_shared :: shared where
  "sample_shared = \<lparr>sh_handle = Some 7, sh_lock = None,
     sh_threads = (\<lambda>t. if t < 2 then Read_Waiting else if t = 2 then Close_Waiting else Close_Done)\<rparr>"

lemma sample_run:
  fixes log off
  defines "raw \<equiv> readline (drop (off 0) log)"
  shows "\<exists>s. reader_run log off 7 sample_shared s \<and> sh_threads s 0 = Read_Done raw \<and> sh_threads s 2 = Close_Closed"
proof -
  let ?s0 = sample_shared
  let ?s1 = "moved 0 Read_Locked (?s0\<lparr>sh_lock := Some 0\<rparr>)"
  let ?s2 = "moved 0 Read_Opened (?s1\<lparr>sh_handle := Some (case sh_handle ?s1 of None \<Rightarrow> 0 | Some p \<Rightarrow> p)\<rparr>)"
  let ?s3 = "moved 0 Read_Sought (?s2\<lparr>sh_handle := Some (off 0)\<rparr>)"
  let ?s4 = "moved 0 (Read_Line raw) (?s3\<lparr>sh_handle := Some (off 0 + length raw)\<rparr>)"
  let ?s5 = "moved 0 (Read_Done raw) (?s4\<lparr>sh_lock := None\<rparr>)"
  let ?s6 = "moved 2 Close_Locked (?s5\<lparr>sh_lock := Some 2\<rparr>)"
  let ?s7 = "moved 2 Close_Closed (?s6\<lparr>sh_handle := None\<rparr>)"
  note start = at_rest [of log off ?s0]
  have "reader_step log off ?s0 ?s1" by (rule acquire) (simp_all add: sample_shared_def)
  moreover have "reader_step log off ?s1 ?s2" by (rule opened) simp
  moreover have "reader_step log off ?s2 ?s3" by (rule sought) simp_all
  moreover have "reader_step log off ?s3 ?s4" by (rule read_line) (simp_all add: raw_def)
  moreover have "reader_step log off ?s4 ?s5" by (rule released) simp
  moreover have "reader_step log off ?s5 ?s6" by (rule close_acquire) (simp_all add: sample_shared_def)
  moreover have "reader_step log off ?s6 ?s7" by (rule closed) simp
  ultimately have "reader_run log off (Suc (Suc (Suc (Suc (Suc (Suc (Suc 0))))))) ?s0 ?s7"
    by (intro one_more) (rule start)
  moreover have "sh_threads ?s7 0 = Read_Done raw" "sh_threads ?s7 2 = Close_Closed" by simp_all
  ultimately show ?thesis by (intro exI [of _ ?s7]) (simp add: eval_nat_numeral)
qed

theorem concurrent_reads_exact_witness:
  "\<exists>s raw. reader_run (f_log (j_files sample1)) (\<lambda>t. ri_offset (index sample1 ! 0)) 7 sample_shared s \<and>
     sh_threads s 0 = Read_Done raw \<and> sh_threads s 2 = Close_Closed \<and> payload_from sample1 (index sample1 ! 0) raw = Inr (page 7) \<and>
     (\<exists>s'. reader_step (f_log (j_files sample1)) (\<lambda>t. ri_offset (index sample1 ! 0)) s s')"
proof -
  let ?log = "f_log (j_files sample1)" and ?off = "\<lambda>t :: nat. ri_offset (index sample1 ! 0)"
  obtain s raw where s: "reader_run ?log ?off 7 sample_shared s" "sh_threads s 0 = Read_Done raw" "sh_threads s 2 = Close_Closed"
    using sample_run [of ?log ?off] by blast
  have "all_waiting 3 sample_shared" by (auto simp: all_waiting_def sample_shared_def)
  from concurrent_reads_exact [OF sample1_facts(1) _ this, of "\<lambda>t. 0" 7 s] s sample1_facts(6)
  have c: "payload_from sample1 (index sample1 ! 0) raw = Inr (page 7)" "(\<forall>t. over (sh_threads s t)) \<or> (\<exists>s'. reader_step ?log ?off s s')"
    by simp_all
  moreover have "\<not> over (sh_threads s 2)" using s(3) by simp
  ultimately show ?thesis using s by blast
qed

end
