(* ===== verification/Journal_Faults.thy ===== *)
theory Journal_Faults
  imports Journal_Spec
begin

text \<open>
  Appends that the operating system lets down. \<open>append\<close> opens the log without a buffer and makes one \<open>write\<close> and
  one \<open>fsync\<close>. The write may raise, or may take only a part of the line and return how much, which \<open>append\<close>
  does not look at; the \<open>fsync\<close> may raise when the line is in the file already. The attributes of the object are
  set after both.
\<close>

datatype io_fault = No_Fault | Write_Raises | Short_Write nat | Fsync_Raises

definition append_with_fault :: "io_fault \<Rightarrow> int \<Rightarrow> bytes \<Rightarrow> (journal, int) oper" where
  "append_with_fault fault b d j =
     (case journal_append b d j of
        (Inl e, j1) \<Rightarrow> (Inl e, j1)
      | (Inr sequence, j1) \<Rightarrow>
          (case fault of
             No_Fault \<Rightarrow> (Inr sequence, j1)
           | Write_Raises \<Rightarrow> (Inl (OSError ''write''), j)
           | Short_Write k \<Rightarrow> (Inr sequence, j1\<lparr>j_files := (j_files j)\<lparr>f_log := f_log (j_files j) @ take k (next_line j (b, d))\<rparr>\<rparr>)
           | Fsync_Raises \<Rightarrow> (Inl (OSError ''fsync''), j\<lparr>j_files := j_files j1\<rparr>)))"

lemma append_faults:
  assumes "reachable j" "valid_write (blocks j) (block_size j) (b, d)"
  shows "append_with_fault Write_Raises b d j = (Inl (OSError ''write''), j)"
    "append_with_fault (Short_Write k) b d j = (Inr (last_sequence j + 1), (snd (journal_append b d j))\<lparr>j_files :=
       (j_files j)\<lparr>f_log := f_log (j_files j) @ take k (next_line j (b, d))\<rparr>\<rparr>)"
    "append_with_fault Fsync_Raises b d j = (Inl (OSError ''fsync''), j\<lparr>j_files := (j_files j)\<lparr>f_log := f_log (j_files j) @ next_line j (b, d)\<rparr>\<rparr>)"
proof -
  have bs: "0 < block_size j" using reachable_rel [OF assms(1)] by (simp add: journal_rel_def)
  note a = append_log [OF bs assms(2)]
  obtain j1 where j1: "journal_append b d j = (Inr (next_sequence j), j1)" using a(2) by (cases "journal_append b d j") auto
  show "append_with_fault Write_Raises b d j = (Inl (OSError ''write''), j)" by (simp add: append_with_fault_def j1)
  show "append_with_fault (Short_Write k) b d j = (Inr (last_sequence j + 1), (snd (journal_append b d j))\<lparr>j_files :=
       (j_files j)\<lparr>f_log := f_log (j_files j) @ take k (next_line j (b, d))\<rparr>\<rparr>)"
    by (simp add: append_with_fault_def j1 last_sequence_def)
  show "append_with_fault Fsync_Raises b d j = (Inl (OSError ''fsync''), j\<lparr>j_files := (j_files j)\<lparr>f_log := f_log (j_files j) @ next_line j (b, d)\<rparr>\<rparr>)"
    using a(1) by (simp add: append_with_fault_def j1)
qed

text \<open>The next record after a failed \<open>fsync\<close> has the number and the predecessor of the one before it.\<close>

lemma repeated_record_refused:
  assumes rel: "journal_rel j ws" and w: "valid_write (blocks j) (block_size j) (b, d)"
    and fs: "fs = (j_files j)\<lparr>f_log := f_log (j_files j) @ next_line j (b, d) @ next_line j w2\<rparr>"
  shows "\<exists>e. open_journal fs snaps = Inl e"
proof -
  let ?bs = "block_size j" and ?st = "log_state (block_size j) ws" and ?j = "snd (journal_append b d j)" and ?vs = "ws @ [(b, d)]"
  define c where "c = canonical (JObj (full_record ?bs ?st w2))"
  have bs: "0 < ?bs" using rel by (simp add: journal_rel_def)
  have rel': "journal_rel ?j ?vs" by (rule append_rel(2) [OF rel w])
  have dims: "block_size ?j = ?bs" "blocks ?j = blocks j" by simp_all
  have line: "next_line j w2 = c @ [nl]" using next_line_rel [OF rel] by (simp add: line_of_eq c_def)
  have p: "parse_record (c @ [nl]) = Some (parsed_of ?bs ?st w2)" unfolding c_def by (rule parse_record_line) (simp add: is_ws_def)
  have blank: "strip (c @ [nl]) \<noteq> []" unfolding c_def by (rule canonical_nonblank)
  have no: "nl \<notin> set c" unfolding c_def by (rule record_no_nl)
  let ?after = "(log_state ?bs ?vs)\<lparr>rs_offset := log_size ?j + length (c @ [nl]), line_number := Suc (length ?vs)\<rparr>"
  have "pr_sequence (parsed_of ?bs ?st w2) \<noteq> expected_sequence ?after"
    using log_state_sequence [of ?bs ws] log_state_sequence [of ?bs ?vs] by (simp add: parsed_of_def)
  then have "check_record (blocks j) ?bs ?after (parsed_of ?bs ?st w2) \<noteq> Inr ()" using check_record_Inr(3) by blast
  then obtain e where e: "check_record (blocks ?j) (block_size ?j) ((log_state (block_size ?j) ?vs)\<lparr>rs_offset := log_size ?j + length (c @ [nl]),
      line_number := Suc (length ?vs)\<rparr>) (parsed_of ?bs ?st w2) = Inl e"
    unfolding dims by (cases "check_record (blocks j) ?bs ?after (parsed_of ?bs ?st w2)") auto
  have "fs = (j_files ?j)\<lparr>f_log := f_log (j_files ?j) @ (c @ [nl]) @ []\<rparr>" using append_log(1) [OF bs w] by (simp add: fs line)
  then have "open_journal fs snaps = Inl e"
    using lines_of_line [OF no, of "[]"] by (intro open_rejected_record [OF rel' _ blank p e]) simp_all
  then show ?thesis by blast
qed

text \<open>
  C5. What becomes of an append that fails in the operating system. If the write raises, nothing has
  changed. If the write is short, the append is acknowledged all the same, and the next opening discards
  the record as a torn tail. If the \<open>fsync\<close> raises, the caller sees the error, but the next write is accepted
  and acknowledged under the same sequence number, and from then on the journal does not open.
\<close>

theorem failed_append_outcomes:
  assumes "reachable j" "valid_write (blocks j) (block_size j) (b, d)" "valid_write (blocks j) (block_size j) (b2, d2)"
    and "0 < k" "Suc k < length (next_line j (b, d))"
  shows "append_with_fault Write_Raises b d j = (Inl (OSError ''write''), j) \<and>
    fst (append_with_fault (Short_Write k) b d j) = Inr (last_sequence j + 1) \<and>
    (\<exists>j1. open_journal (j_files (snd (append_with_fault (Short_Write k) b d j))) snaps = Inr j1 \<and> hist j1 = hist j) \<and>
    fst (append_with_fault Fsync_Raises b d j) = Inl (OSError ''fsync'') \<and>
    fst (journal_append b2 d2 (snd (append_with_fault Fsync_Raises b d j))) = Inr (last_sequence j + 1) \<and>
    (\<exists>e. open_journal (j_files (snd (journal_append b2 d2 (snd (append_with_fault Fsync_Raises b d j))))) snaps = Inl e)"
proof -
  note rel = reachable_rel [OF assms(1)] and f = append_faults [OF assms(1,2)]
  have bs: "0 < block_size j" using rel by (simp add: journal_rel_def)
  let ?j = "j\<lparr>j_files := (j_files j)\<lparr>f_log := f_log (j_files j) @ next_line j (b, d)\<rparr>\<rparr>"
  have next_eq: "next_line ?j (b2, d2) = next_line j (b2, d2)" by (simp add: next_line_def)
  note a = append_log [of ?j b2 d2]
  have "\<exists>j1. open_journal ((j_files j)\<lparr>f_log := f_log (j_files j) @ take k (next_line j (b, d))\<rparr>) snaps = Inr j1 \<and> hist j1 = hist j"
    using open_torn [OF rel assms(4,5) refl, of snaps] by (simp add: set_aside_def)
  moreover have "fst (journal_append b2 d2 ?j) = Inr (last_sequence j + 1)" using a bs assms(3) by (simp add: last_sequence_def)
  moreover have "\<exists>e. open_journal (j_files (snd (journal_append b2 d2 ?j))) snaps = Inl e"
    using a bs assms(3) next_eq by (intro repeated_record_refused [OF rel assms(2), of _ "(b2, d2)"]) simp
  ultimately show ?thesis by (simp add: f)
qed

theorem failed_append_outcomes_witness:
  "fst (append_with_fault (Short_Write 2) 0 (page 1) sample1) = Inr (last_sequence sample1 + 1) \<and>
   (\<exists>e. open_journal (j_files (snd (journal_append 2 (page 2) (snd (append_with_fault Fsync_Raises 0 (page 1) sample1))))) [] = Inl e)"
proof -
  have "valid_write (blocks sample1) (block_size sample1) (0, page 1)" "valid_write (blocks sample1) (block_size sample1) (2, page 2)"
    by (simp_all add: valid_write_def wcount_def sample1_facts)
  from failed_append_outcomes [OF sample1_facts(1) this, of 2 "[]"] show ?thesis using next_line_long [of sample1 "(0, page 1)"] by simp
qed

end
