(* ===== verification/Spec2Isabelle.thy ===== *)
theory Spec2Isabelle
  imports Daemon_Life Web_Replies Benchmark_Spec Replay_Spec Cli_Options Reader_Lock Journal_Faults
begin

text \<open>
  A verification library for Aegis Shield, a reference engine that puts a block device behind a
  tamper-evident journal and freezes it when the traffic looks like ransomware. The program is the
  Python package \<^verbatim>\<open>src/aegis_shield\<close>; everything below is about that package.

  \<^bold>\<open>The program and its parts.\<close> A device is a directory: \<^verbatim>\<open>base.img\<close>, the image at the last compaction;
  \<^verbatim>\<open>journal.jsonl\<close>, one hash-chained record per write; \<^verbatim>\<open>audit.jsonl\<close> with its archives, a hash-chained log
  of events; \<^verbatim>\<open>engine_state.json\<close>, the state of the machine, whose digest is in the audit log. The engine
  holds the journal, the audit log, a window analyzer and a policy. A write goes to the journal, then
  to the analyzer, whose features the policy judges, and the verdict moves the state machine: NORMAL,
  ELEVATED, CONTAINED, RECOVERY_READ_ONLY, MAINTENANCE, FAULT. Only a signed token leaves CONTAINED. Three
  doors lead to the engine: the NBD export, the HTTP API and the Unix socket of the daemon. The command
  line works on the same files, offline. A corpus of synthetic workloads measures the policy.

  \<^bold>\<open>Theories and sources.\<close>
  \<^item> \<open>Prelude\<close>, \<open>Codecs\<close>, \<open>Json\<close>, \<open>Json_Facts\<close>: Python values, exceptions as values of a sum, operations on an
    object as functions to a result and the object afterwards (\<open>oper\<close>); decimal, hexadecimal and base64
    text, CRC-32, SHA-256; the \<open>json\<close> module with its parser and both printers.
  \<^item> \<open>Hash_Chain\<close>: the locale \<open>hash_chain\<close>, chained records and their tamper evidence up to a SHA-256
    collision, interpreted as \<open>rec\<close> on the dictionaries that the journal and the audit log hash.
  \<^item> \<open>Journal\<close> models \<^verbatim>\<open>core/journal.py\<close>; \<open>Journal_Replay\<close>, \<open>Journal_Store\<close>, \<open>Journal_Open\<close>, \<open>Journal_Ops\<close> and
    \<open>Journal_Spec\<close> relate it to an abstract device, a byte image with a list of writes. The locale
    \<open>block_device\<close> is the contract of such a device, interpreted as \<open>jdev\<close> on the journal and as \<open>shared\<close> on the
    journal object with its read handle.
  \<^item> \<open>Durable_Store\<close>: files and directories between the page cache and the disk, the calls of the operating
    system, and what a power cut leaves of them. The locale \<open>ordered_store\<close> is the contract of changes that are
    synchronised one after the other, interpreted as \<open>posix\<close>. \<open>Durable_Journal\<close> gives the calls of each operation
    of the journal, \<open>Power_Cuts\<close> what a power cut at any of them does. \<open>Journal_Reader\<close>: the object with its
    long-lived read handle, \<open>Reader_Lock\<close> threads that share it. \<open>Journal_Faults\<close>: a write or an \<open>fsync\<close> that fails.
  \<^item> \<open>Audit_Log\<close>, \<open>Audit_Spec\<close>: \<^verbatim>\<open>core/audit.py\<close>. \<open>Tokens\<close>, \<open>Keys\<close>: \<^verbatim>\<open>core/tokens.py\<close>. \<open>Aegis_Types\<close>: \<^verbatim>\<open>core/types.py\<close>.
  \<^item> \<open>Entropy\<close>, \<open>Features\<close>, \<open>Policy\<close>: \<^verbatim>\<open>core/entropy.py\<close>, \<^verbatim>\<open>core/features.py\<close>, \<^verbatim>\<open>core/policy.py\<close>.
  \<^item> \<open>Gated_Service\<close>: the locale \<open>gate\<close>, requests that keep a state closed until one carries a key, interpreted
    as \<open>calls\<close> on the methods of a contained engine, as \<open>doors\<close> on the daemon's clients and as \<open>process\<close> on the
    turns of its threads.
  \<^item> \<open>Engine\<close> models \<^verbatim>\<open>core/engine.py\<close>; \<open>Engine_Steps\<close> and \<open>Engine_Spec\<close> hold what is true of one call and of
    sequences of calls, \<open>Engine_Restart\<close>, \<open>Engine_Runs\<close> and \<open>Engine_Life\<close> what is true across restarts and power
    cuts, by rule induction over \<open>engine_reachable\<close>.
  \<^item> \<open>Nbd\<close>, \<open>Nbd_Spec\<close>: \<^verbatim>\<open>core/nbd.py\<close>. \<open>Daemon\<close>: \<^verbatim>\<open>daemon/service.py\<close>. \<open>Sizing\<close>: \<^verbatim>\<open>core/sizing.py\<close>. \<open>Api\<close>: \<^verbatim>\<open>api/app.py\<close>,
    \<^verbatim>\<open>api/auth.py\<close> and the routers. \<open>Web_Replies\<close>: what the application puts around the routes. \<open>Events_Spec\<close>,
    \<open>Front_Doors\<close>: the events route, and all doors together. \<open>Daemon_Life\<close>: the threads, signals and shutdown.
  \<^item> \<open>Workloads\<close>, \<open>Workloads_Spec\<close>: \<^verbatim>\<open>core/workloads.py\<close>. \<open>Benchmark\<close>, \<open>Benchmark_Spec\<close>: \<^verbatim>\<open>core/benchmark.py\<close>.
    \<open>Tracegen\<close>: \<^verbatim>\<open>core/tracegen.py\<close>.
  \<^item> \<open>Cli\<close>: \<^verbatim>\<open>cli/main.py\<close> and \<^verbatim>\<open>core/config.py\<close>. \<open>Cli_Spec\<close>, \<open>Replay_Spec\<close>: the commands against the daemon and
    the engine. \<open>Cli_Options\<close>: the options with their defaults.

  \<^bold>\<open>What is shown.\<close>
  \<^item> Journal: C1 to C3, C8 to C11, C13. Reopening is exact, reads and appends refine the byte image, damage is
    refused, tampering shows, snapshots and compaction keep the history; C13 is the tear of a single line
    break, after which an acknowledged write is lost. C4: the read handle is invisible; C26: readers at the
    same time do not disturb each other under \<^verbatim>\<open>_reader_lock\<close>.
  \<^item> The disk: C25 (the operations leave on disk what the journal's record says), C6 and C12 (a power cut at
    any system call of an append or a compaction, and of the recoveries after it), C20 (the retained
    snapshot may be lost), C5 (a short write and a failing \<open>fsync\<close>).
  \<^item> Analysis: C15 (the window), C17 (verdicts of the policy). Measurement: C18 (every workload ends), C19 (no
    benign workload ever alerts under the shipped policy, on any random stream).
  \<^item> Audit log: C21 to C24. Tokens: the acceptance conditions and the round trip in \<open>Tokens\<close>, their use in C28, C29, C37.
  \<^item> Engine: C27 to C32 (the state machine, the only exits from containment, single use of tokens, the write
    path, the frozen image, reads at the anchor), C33 to C36 (restarts, fail-closed starts, power cuts in a
    save, the rotation that loses the digest).
  \<^item> Doors: C14 (containment over any schedule of the daemon's threads and clients), C38 (NBD requests), C39 (the events route), C40
    (an append outside the lock).
  \<^item> Command line: C7 (status prints what the engine reports), C16 (a generated trace is replayed as
    generated), C37 (from the generated keys to the token redeemed at the socket).

  \<^bold>\<open>Modelling decisions.\<close>
  \<^item> Concurrency: the engine's lock makes its methods atomic, so the callers of the three doors are
    sequences of calls. The two places that act outside the lock are modelled as such (C40). The lock of the
    read handle is modelled call by call, on a log that does not change meanwhile (C26).
  \<^item> Power cuts: what is known of a file is what was synchronised last, with a prefix of what was appended
    or cut since; of a directory, one of the states since it was synchronised last. A rename inside a
    directory is one step. The namespace is the root of the modelled tree: the entry of the namespace
    itself in its parent is outside. The theories of the engine and the audit log use the outcome of
    these theorems: a file written as a whole is the old or the new one.
  \<^item> Numbers: Python integers are \<open>int\<close>, bytes and the CRC are words, floats are reals. Where a float is
    printed into a file its text is a parameter (\<open>frepr\<close>), assumed to be a float literal (\<open>good_repr\<close>).
  \<^item> Text: characters are code points below 256. Fields of a token are of their declared types.
  \<^item> Recursion: every loop is structural or has a measure. The parser of JSON takes fuel that the
    length of the text always covers (\<open>json_loads_fuel\<close>), the search for an archive name takes as many
    steps as there are files, compaction goes by the number of chunks. Only the loops that draw random
    numbers until one fits may run on; they are \<open>partial_function (option)\<close>, and C18 and C16 show that the
    program's uses of them end.
  \<^item> Threads: a turn of a thread of the daemon is one client, or one step of its loop. Any order of turns
    is a run.
  \<^item> Parameters: the functions of the \<^verbatim>\<open>cryptography\<close> package, the words of the random generator behind a
    seed, \<open>deflate\<close>, the YAML parser, what \<open>click\<close> finds on the command line, the clock, and fresh random
    tokens. What a theorem needs of them is a hypothesis of it: a key loads as it was stored, and a
    signature of the key verifies.

  \<^bold>\<open>Not modelled.\<close> Packages: \<open>click\<close>, FastAPI, pydantic, uvicorn and \<^verbatim>\<open>cryptography\<close>. The calls that open and bind
  sockets, a failing \<open>sendall\<close>, logging, the preemption of a thread inside a turn, and power cuts while a
  namespace is provisioned. Everything outside the Python package: the Rust crates and the kernel
  monitor, the files of the web dashboard, deployment files and tests. What is left uncovered of the
  package is imports, docstrings, log messages and the declarations of request models.
\<close>

end
